(* ===== verification/Prelude.thy ===== *)
theory Prelude
  imports Main "HOL-Library.Word" "HOL-Library.Multiset" "HOL-Library.Char_ord"
    "HOL-Library.List_Lexorder"
begin

section \<open>Go values shared by every component\<close>

text \<open>
  This theory fixes how the Go values that every component uses are read in HOL:
  \<^item> \<open>int\<close> and \<open>int64\<close> are HOL \<open>int\<close>s whose arithmetic is followed by \<open>wrap64\<close>, the
    two's complement wrap-around of a 64-bit platform; \<open>uint64\<close> is \<open>64 word\<close>,
    \<open>uint32\<close> is \<open>32 word\<close>;
  \<^item> \<open>time.Time\<close> and \<open>time.Duration\<close> are \<open>int\<close> nanoseconds;
  \<^item> a \<open>(value, error)\<close> result is the sum \<open>string + 'a\<close>, the error being the text that
    \<open>err.Error()\<close> returns;
  \<^item> a Go map is a partial function where only lookups and updates matter, and an
    association list in iteration order where the code ranges over it.
  It also declares the collections of facts that the component theories extend
  (\<open>inv_intros\<close>, \<open>go_simps\<close>) and generic lemmas on lists and maps.
\<close>

named_theorems go_simps "equations of the Go operations on in-range values"
named_theorems inv_intros "operations keep the invariant of their component"

type_synonym 'a res = "string + 'a"
type_synonym time = int
type_synonym duration = int
type_synonym uint64 = "64 word"
type_synonym uint32 = "32 word"

subsection \<open>64-bit signed integers\<close>

definition wrap64 :: "int \<Rightarrow> int" where
  "wrap64 x = (x + 9223372036854775808) mod 18446744073709551616 - 9223372036854775808"

definition int_ok :: "int \<Rightarrow> bool" where
  "int_ok x \<longleftrightarrow> -9223372036854775808 \<le> x \<and> x < 9223372036854775808"

lemma wrap64_ok [go_simps]: "int_ok x \<Longrightarrow> wrap64 x = x"
  by (simp add: wrap64_def int_ok_def)

lemma int_ok_wrap64 [simp]: "int_ok (wrap64 x)"
  by (simp add: wrap64_def int_ok_def)

lemma wrap64_wrap64 [simp]: "wrap64 (wrap64 x) = wrap64 x"
  by (simp add: wrap64_ok)

lemma int_ok_between: "int_ok a \<Longrightarrow> int_ok b \<Longrightarrow> a \<le> x \<Longrightarrow> x \<le> b \<Longrightarrow> int_ok x"
  by (simp add: int_ok_def)

lemma int_ok_0 [simp]: "int_ok 0" and int_ok_1 [simp]: "int_ok 1"
  by (simp_all add: int_ok_def)

text \<open>Go's \<open>/\<close> on integers truncates towards zero.\<close>

definition quot :: "int \<Rightarrow> int \<Rightarrow> int" where
  "quot a b = wrap64 (sgn a * sgn b * (\<bar>a\<bar> div \<bar>b\<bar>))"

lemma quot_nonneg: "0 \<le> a \<Longrightarrow> 0 < b \<Longrightarrow> int_ok a \<Longrightarrow> quot a b = a div b"
proof -
  assume h: "0 \<le> a" "0 < b" "int_ok a"
  have "0 \<le> a div b" "a div b \<le> a"
    using h zdiv_mono2[of a 1 b] by (auto simp: pos_imp_zdiv_nonneg_iff)
  then have "int_ok (a div b)"
    using h(3) by (auto simp: int_ok_def)
  then show ?thesis
    using h by (cases "a = 0") (auto simp: quot_def wrap64_ok)
qed

lemma unat_plus_of_nat:
  "unat (x :: uint64) + k < 18446744073709551616 \<Longrightarrow> unat (x + of_nat k) = unat x + k"
  by (simp add: unat_word_ariths unat_of_nat take_bit_eq_mod)

subsection \<open>Lists\<close>

lemma take_eq_prefix: "take (length p) s = p \<longleftrightarrow> (\<exists>t. s = p @ t)"
  by (metis append_take_drop_id append_eq_conv_conj)

text \<open>The first element of a list that satisfies a test: the \<open>for ... if ... return\<close> loop.\<close>

lemma find_Some_split:
  "List.find P xs = Some x \<Longrightarrow> \<exists>us vs. xs = us @ x # vs \<and> P x \<and> (\<forall>u \<in> set us. \<not> P u)"
proof (induction xs)
  case Nil
  then show ?case by simp
next
  case (Cons y ys)
  show ?case
  proof (cases "P y")
    case True
    then have "x = y" using Cons.prems by simp
    then show ?thesis using True by (intro exI[of _ "[]"] exI[of _ ys]) simp
  next
    case False
    then obtain us vs where "ys = us @ x # vs" "P x" "\<forall>u \<in> set us. \<not> P u"
      using Cons by auto
    then show ?thesis
      using False by (intro exI[of _ "y # us"] exI[of _ vs]) simp
  qed
qed

lemma find_NoneD: "List.find P xs = None \<Longrightarrow> x \<in> set xs \<Longrightarrow> \<not> P x"
  by (auto simp: find_None_iff)

lemma find_SomeD: "List.find P xs = Some x \<Longrightarrow> x \<in> set xs \<and> P x"
  by (auto simp: find_Some_iff)

lemma sum_list_pos_nth:
  fixes ws :: "int list"
  assumes "\<forall>w \<in> set ws. 0 \<le> w" and "i < length ws"
  shows "ws ! i \<le> sum_list ws"
proof -
  have "sum_list ws = sum_list (take i ws) + ws ! i + sum_list (drop (Suc i) ws)"
    using assms(2) by (subst id_take_nth_drop[OF assms(2)]) simp
  moreover have "0 \<le> sum_list (take i ws)" "0 \<le> sum_list (drop (Suc i) ws)"
    using assms(1) by (auto intro!: sum_list_nonneg dest: in_set_takeD in_set_dropD)
  ultimately show ?thesis by simp
qed

lemma sum_list_update:
  fixes xs :: "int list"
  shows "i < length xs \<Longrightarrow> sum_list (xs[i := v]) = sum_list xs - xs ! i + v"
  by (induction xs arbitrary: i) (auto split: nat.splits)

lemma sum_list_map2_add:
  fixes xs ys :: "int list"
  shows "length xs = length ys \<Longrightarrow> sum_list (map2 (+) xs ys) = sum_list xs + sum_list ys"
  by (induction xs ys rule: list_induct2) auto

subsection \<open>sort.Slice\<close>

text \<open>
  \<open>sort.Slice\<close> sorts by a \<open>less\<close> function and is not stable. The functions that call it take
  the sort as a parameter, and the facts about them assume only what the library documents:
  the result is a permutation in which no later element is less than an earlier one.
\<close>

definition slice_sort_ok :: "('a \<Rightarrow> 'a \<Rightarrow> bool) \<Rightarrow> ('a list \<Rightarrow> 'a list) \<Rightarrow> bool" where
  "slice_sort_ok lt srt \<longleftrightarrow>
     (\<forall>xs. mset (srt xs) = mset xs \<and> sorted_wrt (\<lambda>a b. \<not> lt b a) (srt xs))"

text \<open>
  The insertion sort that the library runs on short slices; it shows that the assumption can
  hold, and it is the instance that the witnesses evaluate.
\<close>

fun ins_slice :: "('a \<Rightarrow> 'a \<Rightarrow> bool) \<Rightarrow> 'a \<Rightarrow> 'a list \<Rightarrow> 'a list" where
  "ins_slice lt x [] = [x]"
| "ins_slice lt x (y # ys) = (if lt y x then y # ins_slice lt x ys else x # y # ys)"

fun insertion_sort :: "('a \<Rightarrow> 'a \<Rightarrow> bool) \<Rightarrow> 'a list \<Rightarrow> 'a list" where
  "insertion_sort lt [] = []"
| "insertion_sort lt (x # xs) = ins_slice lt x (insertion_sort lt xs)"

lemma mset_ins_slice [simp]: "mset (ins_slice lt x xs) = add_mset x (mset xs)"
  by (induction xs) auto

lemma mset_insertion_sort [simp]: "mset (insertion_sort lt xs) = mset xs"
  by (induction xs) auto

lemma set_ins_slice [simp]: "set (ins_slice lt x xs) = insert x (set xs)"
  by (induction xs) auto

lemma sorted_ins_slice:
  assumes "\<And>a b. lt a b \<longleftrightarrow> (key b :: 'k :: linorder) < key a"
    and "sorted_wrt (\<lambda>a b. \<not> lt b a) xs"
  shows "sorted_wrt (\<lambda>a b. \<not> lt b a) (ins_slice lt x xs)"
  using assms(2) by (induction xs) (auto simp: assms(1))

lemma sorted_ins_slice_up:
  assumes "\<And>a b. lt a b \<longleftrightarrow> (key a :: 'k :: linorder) < key b"
    and "sorted_wrt (\<lambda>a b. \<not> lt b a) xs"
  shows "sorted_wrt (\<lambda>a b. \<not> lt b a) (ins_slice lt x xs)"
  using assms(2) by (induction xs) (auto simp: assms(1))

lemma slice_sort_ok_desc:
  fixes key :: "'a \<Rightarrow> 'k :: linorder"
  shows "slice_sort_ok (\<lambda>a b. key b < key a) (insertion_sort (\<lambda>a b. key b < key a))"
proof -
  have "sorted_wrt (\<lambda>a b. \<not> key a < key b) (insertion_sort (\<lambda>a b. key b < key a) xs)" for xs
    by (induction xs) (auto intro!: sorted_ins_slice[where lt = "\<lambda>a b. key b < key a" and key = key])
  then show ?thesis
    by (simp add: slice_sort_ok_def)
qed

lemma slice_sort_ok_asc:
  fixes key :: "'a \<Rightarrow> 'k :: linorder"
  shows "slice_sort_ok (\<lambda>a b. key a < key b) (insertion_sort (\<lambda>a b. key a < key b))"
proof -
  have "sorted_wrt (\<lambda>a b. \<not> key b < key a) (insertion_sort (\<lambda>a b. key a < key b) xs)" for xs
    by (induction xs) (auto intro!: sorted_ins_slice_up[where lt = "\<lambda>a b. key a < key b" and key = key])
  then show ?thesis
    by (simp add: slice_sort_ok_def)
qed

lemma slice_sort_perm: "slice_sort_ok lt srt \<Longrightarrow> mset (srt xs) = mset xs"
  and slice_sort_sorted: "slice_sort_ok lt srt \<Longrightarrow> sorted_wrt (\<lambda>a b. \<not> lt b a) (srt xs)"
  by (simp_all add: slice_sort_ok_def)

lemma slice_sort_set: "slice_sort_ok lt srt \<Longrightarrow> set (srt xs) = set xs"
  by (metis slice_sort_perm mset_eq_setD)

end
