(* ===== verification/GoStrings.thy ===== *)
theory GoStrings
  imports Prelude
begin

section \<open>The string functions of Go that the code calls\<close>

text \<open>
  A Go string is a sequence of bytes, so it is a HOL \<open>string\<close> whose characters are bytes and
  whose \<open>length\<close> is Go's \<open>len\<close>. This theory models what the code uses of the package
  \<open>strings\<close>, of \<open>fmt.Sprintf\<close> with \<open>%d\<close>, and of slicing at a byte position; the facts that
  the components share follow each definition.
\<close>

subsection \<open>Prefixes, suffixes, containment\<close>

definition HasPrefix :: "string \<Rightarrow> string \<Rightarrow> bool" where
  "HasPrefix s p \<longleftrightarrow> take (length p) s = p"

definition TrimPrefix :: "string \<Rightarrow> string \<Rightarrow> string" where
  "TrimPrefix s p = (if HasPrefix s p then drop (length p) s else s)"

definition CutPrefix :: "string \<Rightarrow> string \<Rightarrow> string option" where
  "CutPrefix s p = (if HasPrefix s p then Some (drop (length p) s) else None)"

definition HasSuffix :: "string \<Rightarrow> string \<Rightarrow> bool" where
  "HasSuffix s p \<longleftrightarrow> HasPrefix (rev s) (rev p)"

definition TrimSuffix :: "string \<Rightarrow> string \<Rightarrow> string" where
  "TrimSuffix s p = (if HasSuffix s p then take (length s - length p) s else s)"

fun Contains :: "string \<Rightarrow> string \<Rightarrow> bool" where
  "Contains [] sub \<longleftrightarrow> sub = []"
| "Contains (c # s) sub \<longleftrightarrow> HasPrefix (c # s) sub \<or> Contains s sub"

lemma HasPrefix_append [simp]: "HasPrefix (p @ s) p"
  by (simp add: HasPrefix_def)

lemma HasPrefix_iff: "HasPrefix s p \<longleftrightarrow> (\<exists>t. s = p @ t)"
  by (simp add: HasPrefix_def take_eq_prefix)

lemma HasPrefix_Nil [simp]: "HasPrefix s []"
  by (simp add: HasPrefix_def)

lemma HasPrefix_Cons [simp]:
  "HasPrefix [] (c # p) = False"
  "HasPrefix (d # s) (c # p) \<longleftrightarrow> d = c \<and> HasPrefix s p"
  by (auto simp: HasPrefix_def)

lemma TrimPrefix_append [simp]: "TrimPrefix (p @ s) p = s"
  by (simp add: TrimPrefix_def)

lemma CutPrefix_Some: "CutPrefix s p = Some t \<longleftrightarrow> s = p @ t"
  by (auto simp: CutPrefix_def HasPrefix_iff)

lemma Contains_char [simp]: "Contains s [c] \<longleftrightarrow> c \<in> set s"
  by (induction s) auto

subsection \<open>Splitting at a byte\<close>

text \<open>\<open>strings.Split(s, sep)\<close> for a separator of one byte, and \<open>strings.SplitN(s, sep, 2)\<close>.\<close>

fun Split :: "string \<Rightarrow> char \<Rightarrow> string list" where
  "Split [] c = [[]]"
| "Split (d # s) c =
     (if d = c then [] # Split s c
      else (case Split s c of [] \<Rightarrow> [[d]] | p # ps \<Rightarrow> (d # p) # ps))"

fun SplitN2 :: "string \<Rightarrow> char \<Rightarrow> string list" where
  "SplitN2 [] c = [[]]"
| "SplitN2 (d # s) c =
     (if d = c then [[], s]
      else (case SplitN2 s c of [] \<Rightarrow> [[d]] | p # ps \<Rightarrow> (d # p) # ps))"

lemma Split_nonempty [simp]: "Split s c \<noteq> []"
  by (induction s) (auto split: list.splits)

lemma SplitN2_nonempty [simp]: "SplitN2 s c \<noteq> []"
  by (induction s) (auto split: list.splits)

lemma Split_no_sep: "c \<notin> set s \<Longrightarrow> Split s c = [s]"
  by (induction s) auto

lemma Split_append_sep: "c \<notin> set s \<Longrightarrow> Split (s @ c # t) c = s # Split t c"
  by (induction s) auto

lemma Split_pieces_no_sep: "p \<in> set (Split s c) \<Longrightarrow> c \<notin> set p"
  by (induction s arbitrary: p) (auto split: if_splits list.splits)

text \<open>\<open>s[:i]\<close> for the first \<open>c\<close> at \<open>i\<close>, and \<open>s[i+1:]\<close>, \<open>s[:i]\<close> for the last one.\<close>

definition before_first :: "char \<Rightarrow> string \<Rightarrow> string" where
  "before_first c s = takeWhile (\<lambda>d. d \<noteq> c) s"

definition after_last :: "char \<Rightarrow> string \<Rightarrow> string" where
  "after_last c s = rev (takeWhile (\<lambda>d. d \<noteq> c) (rev s))"

definition before_last :: "char \<Rightarrow> string \<Rightarrow> string" where
  "before_last c s = (if c \<in> set s then rev (tl (dropWhile (\<lambda>d. d \<noteq> c) (rev s))) else s)"

lemma takeWhile_neq: "c \<notin> set t \<Longrightarrow> takeWhile (\<lambda>d. d \<noteq> c) (t @ c # s) = t"
  by (induction t) auto

lemma dropWhile_neq: "c \<notin> set t \<Longrightarrow> dropWhile (\<lambda>d. d \<noteq> c) (t @ c # s) = c # s"
  by (induction t) auto

lemma after_last_append: "c \<notin> set t \<Longrightarrow> after_last c (s @ c # t) = t"
  using takeWhile_neq[of c "rev t" "rev s"] by (simp add: after_last_def)

lemma before_last_append: "c \<notin> set t \<Longrightarrow> before_last c (s @ c # t) = s"
  using dropWhile_neq[of c "rev t" "rev s"] by (simp add: before_last_def)

lemma before_first_append: "c \<notin> set s \<Longrightarrow> before_first c (s @ c # t) = s"
  by (simp add: before_first_def takeWhile_neq)

subsection \<open>Trimming\<close>

definition Trim :: "string \<Rightarrow> string \<Rightarrow> string" where
  "Trim s cutset = rev (dropWhile (\<lambda>c. c \<in> set cutset) (rev (dropWhile (\<lambda>c. c \<in> set cutset) s)))"

text \<open>
  \<open>strings.TrimSpace\<close> removes Unicode white space: the six ASCII spaces, and the two- and
  three-byte UTF-8 encodings of U+0085, U+00A0, U+1680, U+2000 to U+200A, U+2028, U+2029,
  U+202F, U+205F and U+3000.
\<close>

definition utf8 :: "nat list \<Rightarrow> string" where
  "utf8 bs = map char_of bs"

definition unicode_spaces :: "string list" where
  "unicode_spaces =
     map (\<lambda>b. utf8 [b]) [9, 10, 11, 12, 13, 32] @
     map utf8 ([[0xC2, 0x85], [0xC2, 0xA0], [0xE1, 0x9A, 0x80]] @
       map (\<lambda>b. [0xE2, 0x80, b]) [0x80, 0x81, 0x82, 0x83, 0x84, 0x85, 0x86, 0x87, 0x88, 0x89, 0x8A,
         0xA8, 0xA9, 0xAF] @
       [[0xE2, 0x81, 0x9F], [0xE3, 0x80, 0x80]])"

lemma unicode_spaces_nonempty: "sp \<in> set unicode_spaces \<Longrightarrow> sp \<noteq> []"
  by (auto simp: unicode_spaces_def utf8_def)

text \<open>Drop leading pieces of a table for as long as one is a prefix.\<close>

function strip_leading :: "string list \<Rightarrow> string \<Rightarrow> string" where
  "strip_leading sps s =
     (case List.find (\<lambda>sp. sp \<noteq> [] \<and> HasPrefix s sp) sps of
        None \<Rightarrow> s
      | Some sp \<Rightarrow> strip_leading sps (drop (length sp) s))"
  by pat_completeness auto
termination
  by (relation "measure (\<lambda>(sps, s). length s)")
    (auto dest!: find_SomeD simp: HasPrefix_iff)

declare strip_leading.simps [simp del]

definition TrimSpace :: "string \<Rightarrow> string" where
  "TrimSpace s = rev (strip_leading (map rev unicode_spaces) (rev (strip_leading unicode_spaces s)))"

lemma strip_leading_suffix: "\<exists>p. s = p @ strip_leading sps s"
proof (induction sps s rule: strip_leading.induct)
  case (1 sps s)
  show ?case
  proof (cases "List.find (\<lambda>sp. sp \<noteq> [] \<and> HasPrefix s sp) sps")
    case None
    then show ?thesis by (simp add: strip_leading.simps[of sps s])
  next
    case (Some sp)
    then obtain p where "drop (length sp) s = p @ strip_leading sps (drop (length sp) s)"
      using 1 by blast
    then have "s = (take (length sp) s @ p) @ strip_leading sps (drop (length sp) s)"
      by (metis append_take_drop_id append.assoc)
    moreover have "strip_leading sps s = strip_leading sps (drop (length sp) s)"
      using Some by (simp add: strip_leading.simps[of sps s])
    ultimately show ?thesis by metis
  qed
qed

lemma strip_leading_id:
  "(\<And>sp. sp \<in> set sps \<Longrightarrow> sp \<noteq> [] \<Longrightarrow> \<not> HasPrefix s sp) \<Longrightarrow> strip_leading sps s = s"
  by (subst strip_leading.simps) (auto split: option.splits dest: find_SomeD)

lemma TrimSpace_infix: "\<exists>p q. s = p @ TrimSpace s @ q"
proof -
  obtain p where p: "s = p @ strip_leading unicode_spaces s"
    using strip_leading_suffix by blast
  obtain q where "rev (strip_leading unicode_spaces s)
      = q @ strip_leading (map rev unicode_spaces) (rev (strip_leading unicode_spaces s))"
    using strip_leading_suffix by blast
  then have "strip_leading unicode_spaces s = TrimSpace s @ rev q"
    unfolding TrimSpace_def by (metis rev_append rev_rev_ident)
  then show ?thesis using p by metis
qed

text \<open>A text that begins and ends with a printable ASCII character is not changed.\<close>

definition plain_edge :: "char \<Rightarrow> bool" where
  "plain_edge c \<longleftrightarrow> 32 < (of_char c :: nat) \<and> (of_char c :: nat) < 128"

lemma unicode_spaces_edges: "list_all (\<lambda>sp. \<not> plain_edge (hd sp) \<and> \<not> plain_edge (last sp)) unicode_spaces"
  by (simp add: unicode_spaces_def utf8_def plain_edge_def)

lemma TrimSpace_plain:
  assumes "s \<noteq> []" and "plain_edge (hd s)" and "plain_edge (last s)"
  shows "TrimSpace s = s"
proof -
  have edges: "\<not> plain_edge (hd sp) \<and> \<not> plain_edge (last sp)" if "sp \<in> set unicode_spaces" for sp
    using unicode_spaces_edges that by (simp add: list_all_iff)
  have hd_eq: "hd t = hd sp" if "HasPrefix t sp" "sp \<noteq> []" for t sp
    using that by (auto simp: HasPrefix_iff)
  have front: "strip_leading unicode_spaces s = s"
    by (rule strip_leading_id) (use edges hd_eq assms(2) in metis)
  have "\<not> HasPrefix (rev s) (rev sp)" if sp: "sp \<in> set unicode_spaces" for sp
  proof
    assume "HasPrefix (rev s) (rev sp)"
    then have "hd (rev s) = hd (rev sp)" using hd_eq unicode_spaces_nonempty[OF sp] by simp
    then show False using edges[OF sp] assms unicode_spaces_nonempty[OF sp] by (simp add: hd_rev)
  qed
  then have "strip_leading (map rev unicode_spaces) (rev s) = rev s" by (intro strip_leading_id) auto
  then show ?thesis by (simp add: TrimSpace_def front)
qed

lemma TrimSpace_code [code]:
  "TrimSpace s =
     (if s \<noteq> [] \<and> plain_edge (hd s) \<and> plain_edge (last s) then s
      else rev (strip_leading (map rev unicode_spaces) (rev (strip_leading unicode_spaces s))))"
  using TrimSpace_plain[of s] by (simp add: TrimSpace_def[of s])

lemma TrimSpace_subset: "set (TrimSpace s) \<subseteq> set s"
  using TrimSpace_infix[of s] by (metis Un_iff set_append subsetI)

subsection \<open>ReplaceAll\<close>

text \<open>
  \<open>strings.ReplaceAll(s, old, new)\<close> for a non-empty \<open>old\<close>: the occurrences are found from the
  left and do not overlap. (No call of the program passes an empty \<open>old\<close>.)
\<close>

function ReplaceAll :: "string \<Rightarrow> string \<Rightarrow> string \<Rightarrow> string" where
  "ReplaceAll s old new =
     (case s of
        [] \<Rightarrow> []
      | c # t \<Rightarrow>
          if old \<noteq> [] \<and> HasPrefix s old then new @ ReplaceAll (drop (length old) s) old new
          else c # ReplaceAll t old new)"
  by pat_completeness auto
termination
  by (relation "measure (\<lambda>(s, old, new). length s)") (auto simp: HasPrefix_iff)

declare ReplaceAll.simps [simp del]

lemma ReplaceAll_Nil [simp]: "ReplaceAll [] old new = []"
  by (simp add: ReplaceAll.simps)

lemma ReplaceAll_hit [simp]:
  "old \<noteq> [] \<Longrightarrow> ReplaceAll (old @ t) old new = new @ ReplaceAll t old new"
  by (cases old) (simp_all add: ReplaceAll.simps[of "_ # _"])

lemma ReplaceAll_miss:
  "\<not> HasPrefix (c # t) old \<Longrightarrow> ReplaceAll (c # t) old new = c # ReplaceAll t old new"
  by (simp add: ReplaceAll.simps[of "c # t"])

text \<open>Text in which the first byte of \<open>old\<close> does not occur is copied.\<close>

lemma ReplaceAll_skip:
  "c \<notin> set u \<Longrightarrow> ReplaceAll (u @ t) (c # old) new = u @ ReplaceAll t (c # old) new"
  by (induction u) (auto simp: ReplaceAll_miss)

lemma ReplaceAll_absent: "c \<notin> set u \<Longrightarrow> ReplaceAll u (c # old) new = u"
  using ReplaceAll_skip[of c u "[]"] by simp

subsection \<open>Decimal numerals\<close>

definition digit :: "nat \<Rightarrow> char" where
  "digit d = char_of (48 + d)"

fun itoa_nat :: "nat \<Rightarrow> string" where
  "itoa_nat n = (if n < 10 then [digit n] else itoa_nat (n div 10) @ [digit (n mod 10)])"

declare itoa_nat.simps [simp del]

definition itoa :: "int \<Rightarrow> string" where
  "itoa n = (if n < 0 then CHR ''-'' # itoa_nat (nat (- n)) else itoa_nat (nat n))"

definition is_digit :: "char \<Rightarrow> bool" where
  "is_digit c \<longleftrightarrow> 48 \<le> (of_char c :: nat) \<and> (of_char c :: nat) \<le> 57"

lemma of_char_digit: "d < 10 \<Longrightarrow> (of_char (digit d) :: nat) = 48 + d"
  by (simp add: digit_def)

lemma is_digit_digit [simp]: "d < 10 \<Longrightarrow> is_digit (digit d)"
  by (simp add: is_digit_def of_char_digit)

lemma digit_inj: "d < 10 \<Longrightarrow> e < 10 \<Longrightarrow> digit d = digit e \<Longrightarrow> d = e"
  by (metis add_left_cancel of_char_digit)

lemma itoa_nat_digits: "c \<in> set (itoa_nat n) \<Longrightarrow> is_digit c"
proof (induction n rule: itoa_nat.induct)
  case (1 n)
  show ?case
  proof (cases "n < 10")
    case True
    then show ?thesis using "1.prems" by (simp add: itoa_nat.simps[of n])
  next
    case False
    then have "c \<in> set (itoa_nat (n div 10)) \<or> c = digit (n mod 10)"
      using "1.prems" by (auto simp: itoa_nat.simps[of n])
    then show ?thesis using "1.IH"[OF False] by auto
  qed
qed

lemma itoa_nat_nonempty [simp]: "itoa_nat n \<noteq> []"
  by (subst itoa_nat.simps) simp

lemma itoa_nat_inj: "itoa_nat m = itoa_nat n \<Longrightarrow> m = n"
proof (induction m arbitrary: n rule: itoa_nat.induct)
  case (1 m)
  have len: "length (itoa_nat k) = 1 \<longleftrightarrow> k < 10" for k
    by (subst itoa_nat.simps) (auto simp: Suc_lessI)
  show ?case
  proof (cases "m < 10")
    case True
    then have "n < 10" using 1(2) len by metis
    then show ?thesis
      using 1(2) True by (simp add: itoa_nat.simps[of m] itoa_nat.simps[of n] digit_inj)
  next
    case False
    then have "\<not> n < 10" using 1(2) len by metis
    then have "itoa_nat (m div 10) = itoa_nat (n div 10)" and "digit (m mod 10) = digit (n mod 10)"
      using 1(2) False by (simp_all add: itoa_nat.simps[of m] itoa_nat.simps[of n])
    then have "m div 10 = n div 10" and "m mod 10 = n mod 10"
      using 1(1)[OF False] digit_inj by auto
    then show ?thesis by (metis div_mult_mod_eq)
  qed
qed

lemma itoa_of_nat_inj: "itoa (int m) = itoa (int n) \<Longrightarrow> m = n"
  by (simp add: itoa_def itoa_nat_inj)

text \<open>A non-digit separator before a numeral determines both parts.\<close>

lemma numeral_suffix_inj:
  assumes "s @ c # itoa (int m) = t @ c # itoa (int n)" and "\<not> is_digit c"
  shows "s = t \<and> m = n"
proof -
  have nd: "c \<notin> set (itoa (int k))" for k
    using itoa_nat_digits[of c k] assms(2) by (auto simp: itoa_def)
  have "itoa (int m) = itoa (int n)"
    using after_last_append[OF nd, of s m] after_last_append[OF nd, of t n] assms(1) by simp
  then show ?thesis
    using assms(1) itoa_of_nat_inj by auto
qed

text \<open>A text in single quotes.\<close>

definition quoted :: "string \<Rightarrow> string" where
  "quoted s = [CHR 0x27] @ s @ [CHR 0x27]"

end
