(* ===== verification/RouteTypes.thy ===== *)
theory RouteTypes
  imports GoStrings "HOL-Library.AList"
begin

section \<open>Route configurations: datasource/types.go and datasource/admin_helpers.go\<close>

text \<open>
  The data that every data source returns, its parser and its small accessors. The decoders
  (\<open>encoding/json\<close> into the struct, \<open>gopkg.in/yaml.v3\<close>) and the unstable \<open>sort.Slice\<close> are
  fields of the parameter \<open>codec\<close>. A Go map is an association list with distinct keys, in
  the order in which a loop over it meets the entries; nil and empty slices and maps are the
  same value, as for every operation used here. Times are nanoseconds since Go's zero time,
  so \<open>IsZero\<close> is \<open>t = 0\<close>.
\<close>

record WeightedUpstream =
  Address :: string
  Weight :: int

record Rule =
  rMatch :: "(string \<times> string) list"
  rUpstreams :: "WeightedUpstream list"
  rPriority :: int
  rAlgorithm :: string
  rAlgorithmKey :: string

record RouteConfig =
  cVersion :: int
  cCreatedAt :: time
  cUpdatedAt :: time
  cUpstream :: string
  cRules :: "Rule list"
  cFallback :: string
  cAlgorithm :: string
  cAlgorithmKey :: string
  cMetadata :: "(string \<times> string) list"
  cTTL :: duration
  cEnabled :: "bool option"
  cDescription :: string

definition empty_config :: RouteConfig where
  "empty_config = \<lparr>cVersion = 0, cCreatedAt = 0, cUpdatedAt = 0, cUpstream = '''', cRules = [],
     cFallback = '''', cAlgorithm = '''', cAlgorithmKey = '''', cMetadata = [], cTTL = 0,
     cEnabled = None, cDescription = ''''\<rparr>"

record codec =
  json_string :: "string \<Rightarrow> string res"
  json_config :: "string \<Rightarrow> RouteConfig res"
  yaml_config :: "string \<Rightarrow> RouteConfig res"
  sort_rules :: "Rule list \<Rightarrow> Rule list"

abbreviation priority_less :: "Rule \<Rightarrow> Rule \<Rightarrow> bool" where
  "priority_less a b \<equiv> rPriority b < rPriority a"

definition codec_ok :: "codec \<Rightarrow> bool" where
  "codec_ok cd \<longleftrightarrow> slice_sort_ok priority_less (sort_rules cd)"

subsection \<open>Parsing\<close>

definition isHostPort :: "string \<Rightarrow> bool" where
  "isHostPort s =
     (case Split s (CHR '':'') of
        [h, p] \<Rightarrow> (let port = TrimSpace p in list_all is_digit port \<and> port \<noteq> [])
      | _ \<Rightarrow> False)"

definition detectFormat :: "string \<Rightarrow> string" where
  "detectFormat data =
     (case data of
        [] \<Rightarrow> ''simple''
      | c # _ \<Rightarrow>
          if c = CHR ''{'' \<or> c = CHR 0x22 \<or> c = CHR ''['' then ''json''
          else if Contains data [CHR 0x0A] then ''yaml''
          else if Contains data '': '' \<and> \<not> Contains data ''://'' then
            (case SplitN2 data (CHR '':'') of
               [k, v] \<Rightarrow>
                 if TrimSpace k \<noteq> [] \<and> \<not> HasPrefix k '' '' \<and> \<not> HasPrefix k [CHR 0x09]
                 then (if isHostPort data then ''simple'' else ''yaml'')
                 else ''simple''
             | _ \<Rightarrow> ''simple'')
          else ''simple'')"

definition GetEffectiveWeight :: "WeightedUpstream \<Rightarrow> int" where
  "GetEffectiveWeight u = (if Weight u \<le> 0 then 1 else Weight u)"

definition default_weight :: "WeightedUpstream \<Rightarrow> WeightedUpstream" where
  "default_weight u = (if Weight u \<le> 0 then u\<lparr>Weight := 1\<rparr> else u)"

definition normalizeConfig :: "codec \<Rightarrow> RouteConfig \<Rightarrow> RouteConfig" where
  "normalizeConfig cd config =
     (let sorted_rules = (if cRules config \<noteq> [] then sort_rules cd (cRules config) else cRules config)
      in config\<lparr>cRules := map (\<lambda>r. r\<lparr>rUpstreams := map default_weight (rUpstreams r)\<rparr>) sorted_rules\<rparr>)"

definition parse_error :: "string \<Rightarrow> string \<Rightarrow> string" where
  "parse_error format e = ''parse route config ('' @ format @ ''): '' @ e"

definition finish_parse :: "codec \<Rightarrow> string \<Rightarrow> RouteConfig res \<Rightarrow> RouteConfig option res" where
  "finish_parse cd format r =
     (case r of
        Inl e \<Rightarrow> Inl (parse_error format e)
      | Inr config \<Rightarrow>
          if cUpstream config = [] \<and> cRules config = []
          then Inl (parse_error format ''empty config (missing upstream and rules)'')
          else Inr (Some (normalizeConfig cd config)))"

definition ParseRouteConfigWithFormat :: "codec \<Rightarrow> string \<Rightarrow> string \<Rightarrow> RouteConfig option res" where
  "ParseRouteConfigWithFormat cd data format =
     (if data = [] then Inr None
      else let trimmed = TrimSpace data in
        case trimmed of
          [] \<Rightarrow> Inr None
        | c # _ \<Rightarrow>
            let fmt = (if format = ''auto'' \<or> format = [] then detectFormat trimmed else format) in
            if fmt = ''json'' then
              (case (if c = CHR 0x22 then json_string cd data else Inl []) of
                 Inr simpleUpstream \<Rightarrow> Inr (Some (empty_config\<lparr>cUpstream := simpleUpstream\<rparr>))
               | Inl _ \<Rightarrow> finish_parse cd fmt (json_config cd data))
            else if fmt = ''yaml'' then finish_parse cd fmt (yaml_config cd data)
            else Inr (Some (empty_config\<lparr>cUpstream := trimmed\<rparr>)))"

definition ParseRouteConfig :: "codec \<Rightarrow> string \<Rightarrow> RouteConfig option res" where
  "ParseRouteConfig cd data = ParseRouteConfigWithFormat cd data ''auto''"

subsection \<open>Accessors and copies\<close>

definition IsEnabled :: "RouteConfig \<Rightarrow> bool" where
  "IsEnabled c = (case cEnabled c of None \<Rightarrow> True | Some b \<Rightarrow> b)"

text \<open>\<open>time.Since\<close> saturates at the ends of the range of \<open>time.Duration\<close>.\<close>

definition Since :: "time \<Rightarrow> time \<Rightarrow> duration" where
  "Since now t = max (-9223372036854775808) (min 9223372036854775807 (now - t))"

definition IsExpired :: "time \<Rightarrow> RouteConfig \<Rightarrow> bool" where
  "IsExpired now c =
     (if cTTL c = 0 \<or> cUpdatedAt c = 0 then False else cTTL c < Since now (cUpdatedAt c))"

definition copy_map :: "(string \<times> 'v) list \<Rightarrow> (string \<times> 'v) list" where
  "copy_map m = foldl (\<lambda>acc (k, v). AList.update k v acc) [] m"

definition clone_rule :: "Rule \<Rightarrow> Rule" where
  "clone_rule r = \<lparr>rMatch = copy_map (rMatch r), rUpstreams = rUpstreams r, rPriority = rPriority r,
     rAlgorithm = rAlgorithm r, rAlgorithmKey = rAlgorithmKey r\<rparr>"

definition Clone :: "RouteConfig \<Rightarrow> RouteConfig" where
  "Clone c = \<lparr>cVersion = cVersion c, cCreatedAt = cCreatedAt c, cUpdatedAt = cUpdatedAt c,
     cUpstream = cUpstream c, cRules = map clone_rule (cRules c), cFallback = cFallback c,
     cAlgorithm = cAlgorithm c, cAlgorithmKey = cAlgorithmKey c, cMetadata = copy_map (cMetadata c),
     cTTL = cTTL c, cEnabled = cEnabled c, cDescription = cDescription c\<rparr>"

definition WithVersion :: "time \<Rightarrow> RouteConfig \<Rightarrow> int \<Rightarrow> RouteConfig" where
  "WithVersion now c version = (Clone c)\<lparr>cVersion := version, cUpdatedAt := now\<rparr>"

definition NewRouteConfig :: "time \<Rightarrow> RouteConfig" where
  "NewRouteConfig now = empty_config\<lparr>cVersion := 1, cCreatedAt := now, cUpdatedAt := now\<rparr>"

subsection \<open>The admin summary of a route\<close>

record AdminRouteInfo =
  iKey :: string
  iUpstream :: string
  iUpstreams :: "string list"
  iRuleCount :: int

fun collect_addresses :: "string set \<Rightarrow> string list \<Rightarrow> string list \<Rightarrow> string list" where
  "collect_addresses seen acc [] = acc"
| "collect_addresses seen acc (a # as) =
     (if a = [] then collect_addresses seen acc as
      else if a \<in> seen then collect_addresses seen acc as
      else collect_addresses (insert a seen) (acc @ [a]) as)"

definition SummarizeRouteConfig :: "string \<Rightarrow> RouteConfig option \<Rightarrow> AdminRouteInfo" where
  "SummarizeRouteConfig key config =
     (case config of
        None \<Rightarrow> \<lparr>iKey = key, iUpstream = '''', iUpstreams = [], iRuleCount = 0\<rparr>
      | Some c \<Rightarrow>
          let ups = (if cUpstream c \<noteq> [] then [cUpstream c] else []) in
          \<lparr>iKey = key, iUpstream = cUpstream c,
           iUpstreams = sort (collect_addresses (set ups) ups
             (concat (map (\<lambda>r. map Address (rUpstreams r)) (cRules c)))),
           iRuleCount = int (length (cRules c))\<rparr>)"

subsection \<open>Facts shared by the components\<close>

definition maps_ok :: "RouteConfig \<Rightarrow> bool" where
  "maps_ok c \<longleftrightarrow> distinct (map fst (cMetadata c)) \<and>
     (\<forall>r \<in> set (cRules c). distinct (map fst (rMatch r)))"

lemma effective_weight_pos [simp]: "0 < GetEffectiveWeight u"
  by (simp add: GetEffectiveWeight_def)

lemma effective_weight_default [simp]: "GetEffectiveWeight (default_weight u) = GetEffectiveWeight u"
  and default_weight_pos: "0 < Weight (default_weight u)"
  and default_weight_address [simp]: "Address (default_weight u) = Address u"
  by (auto simp: GetEffectiveWeight_def default_weight_def)

lemma normalize_rules_sorted:
  assumes "codec_ok cd"
  shows "sorted_wrt (\<lambda>a b. rPriority b \<le> rPriority a) (cRules (normalizeConfig cd c))"
proof -
  have "sorted_wrt (\<lambda>a b. rPriority b \<le> rPriority a) (sort_rules cd (cRules c))"
    using assms slice_sort_sorted[of priority_less "sort_rules cd" "cRules c"]
    by (simp add: codec_ok_def linorder_not_less)
  then show ?thesis
    by (auto simp: normalizeConfig_def Let_def sorted_wrt_map)
qed

lemma normalize_rules_mset:
  assumes "codec_ok cd"
  shows "mset (cRules (normalizeConfig cd c)) =
    image_mset (\<lambda>r. r\<lparr>rUpstreams := map default_weight (rUpstreams r)\<rparr>) (mset (cRules c))"
  using assms slice_sort_perm[of priority_less "sort_rules cd" "cRules c"]
  by (auto simp: normalizeConfig_def codec_ok_def Let_def)

lemma normalize_weights:
  "r \<in> set (cRules (normalizeConfig cd c)) \<Longrightarrow> u \<in> set (rUpstreams r) \<Longrightarrow> 0 < Weight u"
  by (auto simp: normalizeConfig_def Let_def default_weight_pos)

lemma copy_map_app:
  "distinct (map fst (acc @ m)) \<Longrightarrow> foldl (\<lambda>acc (k, v). AList.update k v acc) acc m = acc @ m"
proof (induction m arbitrary: acc)
  case Nil
  then show ?case by simp
next
  case (Cons p m)
  obtain k v where p: "p = (k, v)" by (cases p)
  have "k \<notin> fst ` set acc" using Cons.prems p by auto
  then have "AList.update k v acc = acc @ [(k, v)]"
    by (induction acc) auto
  then show ?case using Cons p by simp
qed

lemma copy_map_distinct: "distinct (map fst m) \<Longrightarrow> copy_map m = m"
  using copy_map_app[of "[]" m] by (simp add: copy_map_def)

lemma clone_rule_id: "distinct (map fst (rMatch r)) \<Longrightarrow> clone_rule r = r"
  by (cases r) (simp add: clone_rule_def copy_map_distinct)

lemma Clone_id: "maps_ok c \<Longrightarrow> Clone c = c"
  by (cases c) (simp add: Clone_def maps_ok_def copy_map_distinct clone_rule_id cong: map_cong)

lemma collect_addresses_props:
  assumes "set acc \<subseteq> seen" and "seen \<subseteq> set acc" and "distinct acc" and "[] \<notin> set acc"
  shows "set (collect_addresses seen acc as) = set acc \<union> (set as - {[]}) \<and>
    distinct (collect_addresses seen acc as)"
  using assms
proof (induction seen acc as rule: collect_addresses.induct)
  case (1 seen acc)
  then show ?case by simp
next
  case (2 seen acc a as)
  show ?case
  proof (cases "a = [] \<or> a \<in> seen")
    case True
    then show ?thesis using 2 by auto
  next
    case False
    then have "set (collect_addresses (insert a seen) (acc @ [a]) as)
        = set (acc @ [a]) \<union> (set as - {[]}) \<and>
      distinct (collect_addresses (insert a seen) (acc @ [a]) as)"
      using 2 by (intro "2.IH"(3)) auto
    then show ?thesis using False by auto
  qed
qed

lemma Since_mono: "n \<le> n' \<Longrightarrow> Since n t \<le> Since n' t"
  by (simp add: Since_def)

lemma parse_blank: "TrimSpace data = [] \<Longrightarrow> ParseRouteConfig cd data = Inr None"
  by (simp add: ParseRouteConfig_def ParseRouteConfigWithFormat_def)

lemma finish_parse_Some:
  "finish_parse cd f r = Inr (Some c) \<Longrightarrow>
     \<exists>c0. r = Inr c0 \<and> c = normalizeConfig cd c0 \<and> (cUpstream c0 \<noteq> [] \<or> cRules c0 \<noteq> [])"
  by (auto simp: finish_parse_def split: sum.splits if_splits)

lemma finish_parse_not_None: "finish_parse cd f r \<noteq> Inr None"
  by (auto simp: finish_parse_def split: sum.splits)

text \<open>The three ways in which a value can become a configuration.\<close>

lemma parse_SomeD:
  assumes "ParseRouteConfig cd data = Inr (Some c)"
  shows "(\<exists>s. c = empty_config\<lparr>cUpstream := s\<rparr> \<and>
            (s = TrimSpace data \<and> detectFormat s = ''simple'' \<or> json_string cd data = Inr s)) \<or>
         (\<exists>c0. (json_config cd data = Inr c0 \<or> yaml_config cd data = Inr c0) \<and>
            c = normalizeConfig cd c0 \<and> (cUpstream c0 \<noteq> [] \<or> cRules c0 \<noteq> []))"
proof -
  have fmts: "detectFormat d \<in> {''json'', ''yaml'', ''simple''}" for d
    by (auto simp: detectFormat_def split: list.splits)
  show ?thesis
    using assms fmts[of "TrimSpace data"]
    by (auto simp: ParseRouteConfig_def ParseRouteConfigWithFormat_def Let_def
        split: if_splits list.splits sum.splits dest!: finish_parse_Some)
qed

end
