(* ===== verification/HashRing.thy ===== *)
theory HashRing
  imports RouteTypes
begin

section \<open>FNV hashing and the consistent hash ring: matcher/selector.go\<close>

text \<open>
  The 32-bit FNV-1a hash of \<open>hash/fnv\<close>, the index and configuration hashes computed from it,
  and the ring of virtual nodes with its binary search. The pooled hashers are reset before
  every use, so each hash is a function of the bytes written. A ring node points into the
  slice that the ring was built from; the slice is not changed afterwards, so the node
  carries the upstream itself. The sort of the nodes is the parameter \<open>srt\<close>.
\<close>

unbundle bit_operations_syntax

definition fnv_step :: "uint32 \<Rightarrow> char \<Rightarrow> uint32" where
  "fnv_step h c = (h XOR of_nat (of_char c)) * 16777619"

definition fnv32a :: "string \<Rightarrow> uint32" where
  "fnv32a s = foldl fnv_step 2166136261 s"

definition hashString :: "string \<Rightarrow> uint32" where
  "hashString input = fnv32a input"

definition hashToIndex :: "string \<Rightarrow> int \<Rightarrow> int" where
  "hashToIndex input n =
     (if n \<le> 0 then 0
      else let m = int (unat (fnv32a input)) mod n in
        if 9223372036854775807 < m then 0 else m)"

definition weight_bytes :: "int \<Rightarrow> string" where
  "weight_bytes w = [char_of (nat (w mod 256)), char_of (nat (w div 256 mod 256))]"

definition computeUpstreamsHash :: "WeightedUpstream list \<Rightarrow> uint32" where
  "computeUpstreamsHash upstreams =
     fnv32a (concat (map (\<lambda>u. Address u @ weight_bytes (Weight u)) upstreams))"

subsection \<open>sort.Search\<close>

text \<open>
  \<open>sort.Search(n, f)\<close>: the loop of the standard library, which halves \<open>[i, j)\<close> until it is
  empty.
\<close>

function search_loop :: "(nat \<Rightarrow> bool) \<Rightarrow> nat \<Rightarrow> nat \<Rightarrow> nat" where
  "search_loop f i j =
     (if i < j then
        let h = (i + j) div 2 in if \<not> f h then search_loop f (h + 1) j else search_loop f i h
      else i)"
  by pat_completeness auto
termination
proof (relation "measure (\<lambda>(f, i, j). j - i)", goal_cases)
  case 1
  show ?case by simp
next
  case (2 f i j h)
  then have "j - (h + 1) < j - i" by linarith
  then show ?case by simp
next
  case (3 f i j h)
  then have "h - i < j - i" by linarith
  then show ?case by simp
qed

declare search_loop.simps [simp del]

definition sort_Search :: "nat \<Rightarrow> (nat \<Rightarrow> bool) \<Rightarrow> nat" where
  "sort_Search n f = search_loop f 0 n"

lemma search_loop_least:
  assumes "i \<le> j" and "\<forall>a b. a \<le> b \<longrightarrow> b < n \<longrightarrow> f a \<longrightarrow> f b"
    and "\<forall>k < i. \<not> f k" and "j < n \<longrightarrow> f j" and "j \<le> n"
  shows "search_loop f i j \<le> j \<and> (\<forall>k < search_loop f i j. \<not> f k) \<and>
    (search_loop f i j < n \<longrightarrow> f (search_loop f i j))"
  using assms
proof (induction f i j rule: search_loop.induct)
  case (1 f i j)
  show ?case
  proof (cases "i < j")
    case False
    then have "search_loop f i j = i" by (subst search_loop.simps) simp
    moreover have "i = j" using False "1.prems"(1) by simp
    ultimately show ?thesis using "1.prems"(3,4) by simp
  next
    case True
    define h where "h = (i + j) div 2"
    have h: "i \<le> h" "h < j" using True by (auto simp: h_def)
    show ?thesis
    proof (cases "f h")
      case True2: True
      have "search_loop f i h \<le> h \<and> (\<forall>k < search_loop f i h. \<not> f k) \<and>
          (search_loop f i h < n \<longrightarrow> f (search_loop f i h))"
        by (rule "1.IH"(2)[OF True h_def]) (use True2 "1.prems"(3,5) h in simp_all, rule "1.prems"(2))
      then show ?thesis
        using True True2 h by (auto simp: search_loop.simps[of f i j] h_def[symmetric] Let_def)
    next
      case False
      have below: "\<forall>k < h + 1. \<not> f k"
      proof (intro allI impI notI)
        fix k assume k: "k < h + 1" and fk: "f k"
        have "f h" using "1.prems"(2)[rule_format, of k h] k fk h "1.prems"(5) by auto
        with False show False by simp
      qed
      have "search_loop f (h + 1) j \<le> j \<and> (\<forall>k < search_loop f (h + 1) j. \<not> f k) \<and>
          (search_loop f (h + 1) j < n \<longrightarrow> f (search_loop f (h + 1) j))"
        by (rule "1.IH"(1)[OF True h_def False]) (use below "1.prems"(4,5) h in simp_all, rule "1.prems"(2))
      then show ?thesis
        using True False by (auto simp: search_loop.simps[of f i j] h_def[symmetric] Let_def)
    qed
  qed
qed

lemma sort_Search_least:
  assumes "\<forall>a b. a \<le> b \<longrightarrow> b < n \<longrightarrow> f a \<longrightarrow> f b"
  shows "sort_Search n f \<le> n" and "k < sort_Search n f \<Longrightarrow> \<not> f k"
    and "sort_Search n f < n \<Longrightarrow> f (sort_Search n f)"
  using search_loop_least[of 0 n n f] assms by (auto simp: sort_Search_def)

subsection \<open>The ring\<close>

type_synonym hashNode = "uint32 \<times> WeightedUpstream"

record ConsistentHashRing =
  ring :: "hashNode list"
  ringUpstreams :: "WeightedUpstream list"
  configHash :: uint32

abbreviation node_less :: "hashNode \<Rightarrow> hashNode \<Rightarrow> bool" where
  "node_less a b \<equiv> fst a < fst b"

definition num_nodes :: "int \<Rightarrow> WeightedUpstream \<Rightarrow> nat" where
  "num_nodes virtualNodes u =
     (let n = quot (wrap64 (virtualNodes * GetEffectiveWeight u)) 10 in nat (if n < 1 then 1 else n))"

definition upstream_nodes :: "int \<Rightarrow> WeightedUpstream \<Rightarrow> hashNode list" where
  "upstream_nodes virtualNodes u =
     map (\<lambda>j. (hashString (Address u @ ''-'' @ itoa (int j)), u)) [0..<num_nodes virtualNodes u]"

definition NewConsistentHashRing ::
    "(hashNode list \<Rightarrow> hashNode list) \<Rightarrow> WeightedUpstream list \<Rightarrow> int \<Rightarrow> ConsistentHashRing" where
  "NewConsistentHashRing srt upstreams virtualNodes =
     \<lparr>ring = srt (concat (map (upstream_nodes virtualNodes) upstreams)),
      ringUpstreams = upstreams,
      configHash = computeUpstreamsHash upstreams\<rparr>"

definition ring_Get :: "ConsistentHashRing \<Rightarrow> string \<Rightarrow> WeightedUpstream option" where
  "ring_Get r key =
     (if ring r = [] then None
      else let h = hashString key;
               idx = sort_Search (length (ring r)) (\<lambda>i. h \<le> fst (ring r ! i));
               idx' = (if length (ring r) \<le> idx then 0 else idx)
           in Some (snd (ring r ! idx')))"

definition ring_Matches :: "ConsistentHashRing \<Rightarrow> WeightedUpstream list \<Rightarrow> bool" where
  "ring_Matches r upstreams \<longleftrightarrow> configHash r = computeUpstreamsHash upstreams"

subsection \<open>The clockwise successor\<close>

text \<open>
  The abstract meaning of a ring: the first node at or after the hash, and the first node of
  all when there is none.
\<close>

definition successor :: "hashNode list \<Rightarrow> uint32 \<Rightarrow> hashNode" where
  "successor ns h = (case List.find (\<lambda>n. h \<le> fst n) ns of Some n \<Rightarrow> n | None \<Rightarrow> hd ns)"

definition ring_sorted :: "hashNode list \<Rightarrow> bool" where
  "ring_sorted ns \<longleftrightarrow> sorted_wrt (\<lambda>a b. fst a \<le> fst b) ns"

lemma find_first_index:
  assumes "i < length xs" and "P (xs ! i)" and "\<And>k. k < i \<Longrightarrow> \<not> P (xs ! k)"
  shows "List.find P xs = Some (xs ! i)"
  using assms
proof (induction xs arbitrary: i)
  case Nil
  then show ?case by simp
next
  case (Cons x xs)
  show ?case
  proof (cases i)
    case 0
    with Cons show ?thesis by simp
  next
    case (Suc j)
    with Cons.prems(3)[of 0] have "\<not> P x" by simp
    moreover have "List.find P xs = Some (xs ! j)"
      using Cons.prems Suc Cons.prems(3)[of "Suc _"] by (intro Cons.IH) fastforce+
    ultimately show ?thesis using Suc by simp
  qed
qed

lemma ring_Get_successor:
  assumes "ring_sorted (ring r)" and "ring r \<noteq> []"
  shows "ring_Get r key = Some (snd (successor (ring r) (hashString key)))"
proof -
  let ?ns = "ring r" and ?h = "hashString key"
  let ?f = "\<lambda>i. ?h \<le> fst (?ns ! i)"
  let ?idx = "sort_Search (length ?ns) ?f"
  have le: "a < b \<Longrightarrow> b < length ?ns \<Longrightarrow> fst (?ns ! a) \<le> fst (?ns ! b)" for a b
    using sorted_wrt_nth_less[OF assms(1)[unfolded ring_sorted_def]] .
  have "?f b" if "a \<le> b" "b < length ?ns" "?f a" for a b
    using le[of a b] that by (cases "a = b") (auto intro: order_trans)
  then have mono: "\<forall>a b. a \<le> b \<longrightarrow> b < length ?ns \<longrightarrow> ?f a \<longrightarrow> ?f b" by blast
  note least = sort_Search_least[of "length ?ns" ?f, OF mono]
  show ?thesis
  proof (cases "?idx < length ?ns")
    case True
    have "List.find (\<lambda>n. ?h \<le> fst n) ?ns = Some (?ns ! ?idx)"
      by (rule find_first_index[where P = "\<lambda>n. ?h \<le> fst n", OF True least(3)[OF True] least(2)])
    then show ?thesis
      using True assms(2) by (simp add: ring_Get_def successor_def Let_def)
  next
    case False
    then have "?idx = length ?ns" using least(1) by simp
    then have "List.find (\<lambda>n. ?h \<le> fst n) ?ns = None"
      using least(2) by (fastforce simp: find_None_iff in_set_conv_nth)
    then show ?thesis
      using False assms(2) by (simp add: ring_Get_def successor_def Let_def hd_conv_nth)
  qed
qed

lemma successor_in: "ns \<noteq> [] \<Longrightarrow> successor ns h \<in> set ns"
  by (auto simp: successor_def split: option.splits dest: find_SomeD)

lemma successor_filter:
  assumes "ns \<noteq> []" and "P (successor ns h)"
  shows "successor (filter P ns) h = successor ns h"
proof (cases "List.find (\<lambda>n. h \<le> fst n) ns")
  case (Some n)
  then obtain us vs where ns: "ns = us @ n # vs" "h \<le> fst n" "\<forall>u \<in> set us. \<not> h \<le> fst u"
    using find_Some_split by fastforce
  have "List.find (\<lambda>n. h \<le> fst n) (filter P us @ n # filter P vs) = Some n"
    using ns(2,3) by (induction us) auto
  then show ?thesis
    using Some assms(2) ns(1) by (simp add: successor_def)
next
  case None
  then have "List.find (\<lambda>n. h \<le> fst n) (filter P ns) = None"
    by (auto simp: find_None_iff)
  then show ?thesis
    using None assms by (cases ns) (auto simp: successor_def)
qed

lemma sorted_distinct_unique:
  assumes "mset xs = mset ys" and "ring_sorted xs" and "ring_sorted ys" and "distinct (map fst xs)"
  shows "xs = ys"
proof -
  have inj: "inj_on fst (set xs)"
    using assms(4) by (simp add: distinct_map)
  have "sorted (map fst xs)" and "sorted (map fst ys)"
    using assms(2,3) by (auto simp: ring_sorted_def sorted_map)
  then have "sort (map fst xs) = map fst ys" and "sort (map fst xs) = map fst xs"
    using assms(1) by (auto intro!: properties_for_sort simp flip: mset_map) (metis mset_map)
  then have "map fst xs = map fst ys" by simp
  moreover have "set ys = set xs"
    using assms(1) by (metis mset_eq_setD)
  then have "inj_on fst (set xs \<union> set ys)"
    using inj by simp
  ultimately show ?thesis
    by (rule map_inj_on)
qed

lemma upstream_nodes_nonempty: "upstream_nodes vn u \<noteq> []"
  by (auto simp: upstream_nodes_def num_nodes_def Let_def)

lemma upstream_nodes_snd: "n \<in> set (upstream_nodes vn u) \<Longrightarrow> snd n = u"
  by (auto simp: upstream_nodes_def)

lemma ring_nodes_sorted:
  "slice_sort_ok node_less srt \<Longrightarrow> ring_sorted (ring (NewConsistentHashRing srt ups vn))"
  using slice_sort_sorted[of node_less srt]
  by (simp add: NewConsistentHashRing_def ring_sorted_def linorder_not_less)

lemma ring_nodes_mset:
  "slice_sort_ok node_less srt \<Longrightarrow>
     mset (ring (NewConsistentHashRing srt ups vn)) = mset (concat (map (upstream_nodes vn) ups))"
  using slice_sort_perm[of node_less srt] by (simp add: NewConsistentHashRing_def)

lemma ring_nonempty:
  assumes "slice_sort_ok node_less srt" and "ups \<noteq> []"
  shows "ring (NewConsistentHashRing srt ups vn) \<noteq> []"
proof
  assume "ring (NewConsistentHashRing srt ups vn) = []"
  then have "concat (map (upstream_nodes vn) ups) = []"
    using ring_nodes_mset[OF assms(1), of ups vn] by simp
  then show False
    using assms(2) upstream_nodes_nonempty by (cases ups) auto
qed

lemma ring_Get_in:
  assumes "slice_sort_ok node_less srt" and "ups \<noteq> []"
  shows "\<exists>u \<in> set ups. ring_Get (NewConsistentHashRing srt ups vn) key = Some u"
proof -
  let ?r = "NewConsistentHashRing srt ups vn"
  have "successor (ring ?r) (hashString key) \<in> set (ring ?r)"
    by (rule successor_in[OF ring_nonempty[OF assms]])
  then have "successor (ring ?r) (hashString key) \<in> set (concat (map (upstream_nodes vn) ups))"
    using ring_nodes_mset[OF assms(1)] by (metis mset_eq_setD)
  then obtain u where "u \<in> set ups" "snd (successor (ring ?r) (hashString key)) = u"
    using upstream_nodes_snd by fastforce
  then show ?thesis
    using ring_Get_successor[OF ring_nodes_sorted[OF assms(1)] ring_nonempty[OF assms]] by auto
qed

text \<open>The ring of the instance that the witnesses evaluate.\<close>

abbreviation sort_ring_ins :: "hashNode list \<Rightarrow> hashNode list" where
  "sort_ring_ins \<equiv> insertion_sort node_less"

lemma sort_ring_ins_ok: "slice_sort_ok node_less sort_ring_ins"
  by (rule slice_sort_ok_asc)

subsection \<open>Properties of the ring\<close>

text \<open>
  C19: the binary search of \<open>Get\<close> finds the clockwise successor. For every non-empty upstream
  list the ring returns some upstream of the list, namely the one owning the first node whose
  hash is at least the hash of the key, or the lowest node when the key hashes past them all.
\<close>

theorem ring_get_clockwise:
  assumes "slice_sort_ok node_less srt" and "upstreams \<noteq> []"
    and "r = NewConsistentHashRing srt upstreams vn"
  shows "ring_Get r key = Some (snd (successor (ring r) (hashString key))) \<and>
    snd (successor (ring r) (hashString key)) \<in> set upstreams \<and>
    (\<forall>n \<in> set (ring r). fst (successor (ring r) (hashString key)) \<le> fst n \<or> fst n < hashString key)"
proof -
  let ?h = "hashString key"
  have sorted: "ring_sorted (ring r)" and ne: "ring r \<noteq> []"
    using ring_nodes_sorted ring_nonempty assms by auto
  have get: "ring_Get r key = Some (snd (successor (ring r) ?h))"
    by (rule ring_Get_successor[OF sorted ne])
  have least: "fst (successor (ring r) ?h) \<le> fst n \<or> fst n < ?h" if n: "n \<in> set (ring r)" for n
  proof (cases "List.find (\<lambda>n. ?h \<le> fst n) (ring r)")
    case None
    then show ?thesis using find_NoneD[OF None n] by auto
  next
    case (Some m)
    then obtain us vs where "ring r = us @ m # vs" "\<forall>u \<in> set us. \<not> ?h \<le> fst u"
      using find_Some_split by fastforce
    then show ?thesis
      using sorted n Some by (auto simp: successor_def ring_sorted_def sorted_wrt_append)
  qed
  show ?thesis
    using get least ring_Get_in[OF assms(1,2), of vn key] assms(3) by auto
qed

theorem ring_get_clockwise_witness:
  "let r = NewConsistentHashRing sort_ring_ins [\<lparr>Address = ''a'', Weight = 1\<rparr>] 10 in
     ring_Get r ''k'' = Some (snd (successor (ring r) (hashString ''k'')))"
  using ring_get_clockwise[OF sort_ring_ins_ok _ refl, of "[\<lparr>Address = ''a'', Weight = 1\<rparr>]" 10 "''k''"]
  by (simp add: Let_def)

text \<open>
  C6: consistent hashing is consistent. When the virtual nodes do not collide, removing one
  upstream moves only the keys that it served: every key that the full ring sends to another
  upstream is sent to the same upstream by the ring without it.
\<close>

theorem ring_minimal_disruption:
  assumes "slice_sort_ok node_less srt"
    and "distinct (map fst (ring (NewConsistentHashRing srt (us @ u # vs) vn)))"
    and "u \<notin> set us" and "u \<notin> set vs"
    and "ring_Get (NewConsistentHashRing srt (us @ u # vs) vn) key = Some v" and "v \<noteq> u"
  shows "ring_Get (NewConsistentHashRing srt (us @ vs) vn) key = Some v"
proof -
  let ?big = "NewConsistentHashRing srt (us @ u # vs) vn"
  let ?small = "NewConsistentHashRing srt (us @ vs) vn"
  let ?P = "\<lambda>n. snd n \<noteq> u"
  have ne: "ring ?big \<noteq> []" by (rule ring_nonempty[OF assms(1)]) simp
  have v: "snd (successor (ring ?big) (hashString key)) = v"
    using ring_Get_successor[OF ring_nodes_sorted[OF assms(1)] ne, of key] assms(5) by simp
  have keep: "filter ?P (concat (map (upstream_nodes vn) ws)) = concat (map (upstream_nodes vn) ws)"
    if "u \<notin> set ws" for ws
    using that upstream_nodes_snd by (intro filter_True) fastforce
  have gone: "filter ?P (upstream_nodes vn u) = []"
    using upstream_nodes_snd by (fastforce intro: filter_False)
  have "mset (filter ?P (ring ?big)) = mset (filter ?P (concat (map (upstream_nodes vn) (us @ u # vs))))"
    using ring_nodes_mset[OF assms(1)] by (metis mset_filter)
  also have "\<dots> = mset (ring ?small)"
    using keep[OF assms(3)] keep[OF assms(4)] gone ring_nodes_mset[OF assms(1), of "us @ vs" vn] by simp
  finally have small: "filter ?P (ring ?big) = ring ?small"
    using ring_nodes_sorted[OF assms(1)] assms(2)
    by (intro sorted_distinct_unique) (auto simp: ring_sorted_def sorted_wrt_filter distinct_map_filter)
  have "successor (ring ?small) (hashString key) = successor (ring ?big) (hashString key)"
    using successor_filter[OF ne, of ?P "hashString key"] v assms(6) small by simp
  moreover have "successor (ring ?big) (hashString key) \<in> set (ring ?small)"
    using successor_in[OF ne, of "hashString key"] v assms(6) by (simp flip: small)
  then have "ring ?small \<noteq> []" by auto
  ultimately show ?thesis
    using ring_Get_successor[OF ring_nodes_sorted[OF assms(1)]] v by metis
qed

abbreviation up :: "string \<Rightarrow> int \<Rightarrow> WeightedUpstream" where
  "up a w \<equiv> \<lparr>Address = a, Weight = w\<rparr>"

lemma demo_ring_distinct:
  "distinct (map fst (ring (NewConsistentHashRing sort_ring_ins [up ''a'' 1, up ''b'' 1, up ''c'' 1] 10)))"
  by code_simp

lemma demo_ring_get:
  "ring_Get (NewConsistentHashRing sort_ring_ins [up ''a'' 1, up ''b'' 1, up ''c'' 1] 10) ''k'' = Some (up ''c'' 1)"
  by code_simp

theorem ring_minimal_disruption_witness:
  "ring_Get (NewConsistentHashRing sort_ring_ins [up ''a'' 1, up ''c'' 1] 10) ''k'' = Some (up ''c'' 1)"
  using ring_minimal_disruption[OF sort_ring_ins_ok, of "[up ''a'' 1]" "up ''b'' 1" "[up ''c'' 1]" 10
      "''k''" "up ''c'' 1"] demo_ring_distinct demo_ring_get
  by simp

end
