(* ===== verification/Selector.thy ===== *)
theory Selector
  imports HashRing Complex_Main
begin

section \<open>Upstream selection: matcher/selector.go\<close>

text \<open>
  \<open>UpstreamSelector\<close> with its nine algorithms. The mutable fields are the state that each
  operation takes and returns. \<open>rand.Intn\<close> and the sort of the ring are the fields of the
  parameter \<open>sel_env\<close>: \<open>intn n\<close> is the number that the call draws below \<open>n\<close>. A returned
  \<open>*WeightedUpstream\<close> is an option, with \<open>None\<close> for nil. A server request always has a URL,
  so \<open>rPath\<close> is its path; \<open>rHeader\<close> is the lookup \<open>Header.Get\<close>.
\<close>

record http_request =
  rMethod :: string
  rHost :: string
  rPath :: string
  rHeader :: "string \<Rightarrow> string"
  rRemoteAddr :: string

record sel_env =
  sort_ring :: "hashNode list \<Rightarrow> hashNode list"
  intn :: "int \<Rightarrow> int"

record UpstreamSelector =
  sAlgorithm :: string
  sHashKey :: string
  rrIndex :: uint64
  wrrWeights :: "int list"
  wrrCurrent :: "int list"
  wrrUpstreams :: "WeightedUpstream list"
  hashRing :: "ConsistentHashRing option"
  connCounts :: "string \<rightharpoonup> int"

definition NewUpstreamSelector :: "string \<Rightarrow> string \<Rightarrow> UpstreamSelector" where
  "NewUpstreamSelector algorithm hashKey =
     \<lparr>sAlgorithm = algorithm, sHashKey = hashKey, rrIndex = 0, wrrWeights = [], wrrCurrent = [],
      wrrUpstreams = [], hashRing = None, connCounts = Map.empty\<rparr>"

definition getClientIP :: "http_request \<Rightarrow> string" where
  "getClientIP r =
     (let xff = rHeader r ''X-Forwarded-For''; xri = rHeader r ''X-Real-IP'' in
      if xff \<noteq> [] then before_first (CHR '','') xff
      else if xri \<noteq> [] then xri
      else before_last (CHR '':'') (rRemoteAddr r))"

definition nth_int :: "'a list \<Rightarrow> int \<Rightarrow> 'a" where
  "nth_int xs i = xs ! nat i"

subsection \<open>Round robin\<close>

definition selectRoundRobin ::
    "UpstreamSelector \<Rightarrow> WeightedUpstream list \<Rightarrow> WeightedUpstream \<times> UpstreamSelector" where
  "selectRoundRobin s upstreams =
     (let idx = rrIndex s + 1 - 1 in
      (upstreams ! (unat idx mod length upstreams), s\<lparr>rrIndex := rrIndex s + 1\<rparr>))"

subsection \<open>Smooth weighted round robin\<close>

definition wrrUpstreamsMatch :: "UpstreamSelector \<Rightarrow> WeightedUpstream list \<Rightarrow> bool" where
  "wrrUpstreamsMatch s upstreams \<longleftrightarrow>
     length (wrrUpstreams s) = length upstreams \<and>
     list_all2 (\<lambda>a u. Address a = Address u \<and> Weight a = Weight u) (wrrUpstreams s) upstreams"

definition initWeightedRoundRobin ::
    "UpstreamSelector \<Rightarrow> WeightedUpstream list \<Rightarrow> UpstreamSelector" where
  "initWeightedRoundRobin s upstreams =
     s\<lparr>wrrUpstreams := upstreams, wrrWeights := map GetEffectiveWeight upstreams,
       wrrCurrent := map (\<lambda>_. 0) upstreams\<rparr>"

text \<open>
  The loop over the upstreams: from index \<open>i\<close>, with the sum of the weights so far and the index
  and value of the largest current weight so far; it returns the increased current weights,
  the total weight and the index.
\<close>

fun wrr_scan :: "nat \<Rightarrow> int list \<Rightarrow> int list \<Rightarrow> int \<Rightarrow> nat \<Rightarrow> int \<Rightarrow> int list \<times> int \<times> nat" where
  "wrr_scan i (c # cs) (w # ws) totalWeight maxIdx maxWeight =
     (let c' = wrap64 (c + w);
          totalWeight' = wrap64 (totalWeight + w);
          (maxIdx', maxWeight') = (if maxWeight < c' then (i, c') else (maxIdx, maxWeight));
          (cs', t, m) = wrr_scan (Suc i) cs ws totalWeight' maxIdx' maxWeight'
      in (c' # cs', t, m))"
| "wrr_scan i _ _ totalWeight maxIdx maxWeight = ([], totalWeight, maxIdx)"

definition selectWeightedRoundRobin ::
    "UpstreamSelector \<Rightarrow> WeightedUpstream list \<Rightarrow> WeightedUpstream \<times> UpstreamSelector" where
  "selectWeightedRoundRobin s0 upstreams =
     (let s = (if wrrUpstreamsMatch s0 upstreams then s0 else initWeightedRoundRobin s0 upstreams);
          (cur, totalWeight, maxIdx) =
             wrr_scan 0 (wrrCurrent s) (wrrWeights s) 0 0 (wrrCurrent s ! 0)
      in (upstreams ! maxIdx, s\<lparr>wrrCurrent := cur[maxIdx := wrap64 (cur ! maxIdx - totalWeight)]\<rparr>))"

subsection \<open>Hashing, first, weighted random\<close>

definition selectIPHash :: "http_request \<Rightarrow> WeightedUpstream list \<Rightarrow> WeightedUpstream" where
  "selectIPHash r upstreams = nth_int upstreams (hashToIndex (getClientIP r) (int (length upstreams)))"

definition selectURIHash :: "http_request \<Rightarrow> WeightedUpstream list \<Rightarrow> WeightedUpstream" where
  "selectURIHash r upstreams = nth_int upstreams (hashToIndex (rPath r) (int (length upstreams)))"

definition selectFirst :: "WeightedUpstream list \<Rightarrow> WeightedUpstream" where
  "selectFirst upstreams = upstreams ! 0"

definition total_weight :: "WeightedUpstream list \<Rightarrow> int" where
  "total_weight upstreams = foldl (\<lambda>t u. wrap64 (t + GetEffectiveWeight u)) 0 upstreams"

fun random_scan :: "int \<Rightarrow> int \<Rightarrow> nat \<Rightarrow> WeightedUpstream list \<Rightarrow> nat" where
  "random_scan target cumulative i [] = 0"
| "random_scan target cumulative i (u # us) =
     (let cumulative' = wrap64 (cumulative + GetEffectiveWeight u) in
      if target < cumulative' then i else random_scan target cumulative' (Suc i) us)"

definition selectWeightedRandom :: "sel_env \<Rightarrow> WeightedUpstream list \<Rightarrow> WeightedUpstream" where
  "selectWeightedRandom env upstreams =
     (if total_weight upstreams \<le> 0 then nth_int upstreams (intn env (int (length upstreams)))
      else upstreams ! random_scan (intn env (total_weight upstreams)) 0 0 upstreams)"

definition selectHeaderHash ::
    "sel_env \<Rightarrow> UpstreamSelector \<Rightarrow> http_request \<Rightarrow> WeightedUpstream list \<Rightarrow> WeightedUpstream" where
  "selectHeaderHash env s r upstreams =
     (let headerValue = rHeader r (sHashKey s) in
      if headerValue = [] then selectWeightedRandom env upstreams
      else nth_int upstreams (hashToIndex headerValue (int (length upstreams))))"

subsection \<open>Least connections\<close>

definition getConnCount :: "UpstreamSelector \<Rightarrow> string \<Rightarrow> int" where
  "getConnCount s address = (case connCounts s address of Some n \<Rightarrow> n | None \<Rightarrow> 0)"

definition IncrementConn :: "UpstreamSelector \<Rightarrow> string \<Rightarrow> UpstreamSelector" where
  "IncrementConn s address =
     s\<lparr>connCounts := (connCounts s)(address \<mapsto> wrap64 (getConnCount s address + 1))\<rparr>"

definition DecrementConn :: "UpstreamSelector \<Rightarrow> string \<Rightarrow> UpstreamSelector" where
  "DecrementConn s address =
     (case connCounts s address of
        Some n \<Rightarrow> s\<lparr>connCounts := (connCounts s)(address \<mapsto> wrap64 (n - 1))\<rparr>
      | None \<Rightarrow> s)"

fun least_scan :: "(string \<Rightarrow> int) \<Rightarrow> nat \<Rightarrow> WeightedUpstream list \<Rightarrow> nat \<Rightarrow> int \<Rightarrow> int \<Rightarrow> nat" where
  "least_scan conns_of i [] minIdx minConns minWeight = minIdx"
| "least_scan conns_of i (u # us) minIdx minConns minWeight =
     (let conns = conns_of (Address u); weight = GetEffectiveWeight u in
      if wrap64 (conns * minWeight) < wrap64 (minConns * weight)
      then least_scan conns_of (Suc i) us i conns weight
      else if wrap64 (conns * minWeight) = wrap64 (minConns * weight) \<and> minWeight < weight
      then least_scan conns_of (Suc i) us i conns weight
      else least_scan conns_of (Suc i) us minIdx minConns minWeight)"

definition selectLeastConn :: "UpstreamSelector \<Rightarrow> WeightedUpstream list \<Rightarrow> WeightedUpstream" where
  "selectLeastConn s upstreams =
     upstreams ! least_scan (getConnCount s) 1 (tl upstreams) 0
       (getConnCount s (Address (upstreams ! 0))) (GetEffectiveWeight (upstreams ! 0))"

subsection \<open>Consistent hashing and the dispatch\<close>

definition selectConsistentHash :: "sel_env \<Rightarrow> UpstreamSelector \<Rightarrow> http_request \<Rightarrow>
    WeightedUpstream list \<Rightarrow> WeightedUpstream option \<times> UpstreamSelector" where
  "selectConsistentHash env s r upstreams =
     (let rg = (case hashRing s of
                  None \<Rightarrow> NewConsistentHashRing (sort_ring env) upstreams 150
                | Some old \<Rightarrow> if ring_Matches old upstreams then old
                              else NewConsistentHashRing (sort_ring env) upstreams 150);
          key = (if sHashKey s = [] then getClientIP r
                 else if rHeader r (sHashKey s) = [] then getClientIP r
                 else rHeader r (sHashKey s))
      in (ring_Get rg key, s\<lparr>hashRing := Some rg\<rparr>))"

definition Select :: "sel_env \<Rightarrow> UpstreamSelector \<Rightarrow> http_request \<Rightarrow> WeightedUpstream list \<Rightarrow>
    WeightedUpstream option \<times> UpstreamSelector" where
  "Select env s r upstreams =
     (case upstreams of
        [] \<Rightarrow> (None, s)
      | [u] \<Rightarrow> (Some u, s)
      | _ \<Rightarrow>
          if sAlgorithm s = ''round_robin'' then apfst Some (selectRoundRobin s upstreams)
          else if sAlgorithm s = ''weighted_round_robin'' then apfst Some (selectWeightedRoundRobin s upstreams)
          else if sAlgorithm s = ''ip_hash'' then (Some (selectIPHash r upstreams), s)
          else if sAlgorithm s = ''uri_hash'' then (Some (selectURIHash r upstreams), s)
          else if sAlgorithm s = ''header_hash'' then (Some (selectHeaderHash env s r upstreams), s)
          else if sAlgorithm s = ''first'' then (Some (selectFirst upstreams), s)
          else if sAlgorithm s = ''consistent_hash'' then selectConsistentHash env s r upstreams
          else if sAlgorithm s = ''least_conn'' then (Some (selectLeastConn s upstreams), s)
          else (Some (selectWeightedRandom env upstreams), s))"

text \<open>\<open>n\<close> calls in a row.\<close>

fun select_n :: "sel_env \<Rightarrow> nat \<Rightarrow> UpstreamSelector \<Rightarrow> http_request \<Rightarrow> WeightedUpstream list \<Rightarrow>
    WeightedUpstream option list \<times> UpstreamSelector" where
  "select_n env 0 s r upstreams = ([], s)"
| "select_n env (Suc n) s r upstreams =
     (let (u, s1) = Select env s r upstreams; (us, s2) = select_n env n s1 r upstreams in (u # us, s2))"

lemma WeightedUpstream_eq_iff: "a = u \<longleftrightarrow> Address a = Address u \<and> Weight a = Weight (u :: WeightedUpstream)"
  by (cases a; cases u) auto

lemma wrrUpstreamsMatch_iff: "wrrUpstreamsMatch s ups \<longleftrightarrow> wrrUpstreams s = ups"
  unfolding wrrUpstreamsMatch_def WeightedUpstream_eq_iff[symmetric] list.rel_eq by auto

lemma Select_many:
  "2 \<le> length ups \<Longrightarrow> Select env s r ups =
     (if sAlgorithm s = ''round_robin'' then apfst Some (selectRoundRobin s ups)
      else if sAlgorithm s = ''weighted_round_robin'' then apfst Some (selectWeightedRoundRobin s ups)
      else if sAlgorithm s = ''ip_hash'' then (Some (selectIPHash r ups), s)
      else if sAlgorithm s = ''uri_hash'' then (Some (selectURIHash r ups), s)
      else if sAlgorithm s = ''header_hash'' then (Some (selectHeaderHash env s r ups), s)
      else if sAlgorithm s = ''first'' then (Some (selectFirst ups), s)
      else if sAlgorithm s = ''consistent_hash'' then selectConsistentHash env s r ups
      else if sAlgorithm s = ''least_conn'' then (Some (selectLeastConn s ups), s)
      else (Some (selectWeightedRandom env ups), s))"
  by (cases ups; cases "tl ups") (simp_all add: Select_def)

subsection \<open>Weighted random: the exact distribution\<close>

definition env_ok :: "sel_env \<Rightarrow> bool" where
  "env_ok env \<longleftrightarrow> slice_sort_ok node_less (sort_ring env) \<and> (\<forall>n > 0. 0 \<le> intn env n \<and> intn env n < n)"

abbreviation weights :: "WeightedUpstream list \<Rightarrow> int list" where
  "weights ups \<equiv> map GetEffectiveWeight ups"

lemma int_ok_partial: "0 \<le> t \<Longrightarrow> 0 < w \<Longrightarrow> 0 \<le> r \<Longrightarrow> int_ok (t + (w + r)) \<Longrightarrow> int_ok (t + w)"
  by (simp add: int_ok_def)

lemma weights_nonneg: "0 \<le> sum_list (weights ups)"
  by (rule sum_list_nonneg) (auto intro: less_imp_le)

lemma total_weight_from:
  "0 \<le> t \<Longrightarrow> int_ok (t + sum_list (weights ups)) \<Longrightarrow>
     foldl (\<lambda>t u. wrap64 (t + GetEffectiveWeight u)) t ups = t + sum_list (weights ups)"
proof (induction ups arbitrary: t)
  case Nil
  then show ?case by simp
next
  case (Cons u ups)
  have pos: "0 < GetEffectiveWeight u" and nn: "0 \<le> sum_list (weights ups)"
    by (simp_all add: weights_nonneg)
  have ok: "int_ok (t + GetEffectiveWeight u)"
    using Cons.prems nn by (auto intro: int_ok_partial)
  then show ?case
    using Cons.IH[of "t + GetEffectiveWeight u"] Cons.prems pos by (simp add: wrap64_ok add.assoc)
qed

lemma total_weight_sum: "int_ok (sum_list (weights ups)) \<Longrightarrow> total_weight ups = sum_list (weights ups)"
  using total_weight_from[of 0 ups] by (simp add: total_weight_def)

lemma random_scan_range:
  assumes "0 \<le> c" and "int_ok (c + sum_list (weights ups))" and "c \<le> t"
    and "t < c + sum_list (weights ups)"
  shows "\<exists>j < length ups. random_scan t c i ups = i + j \<and>
    c + sum_list (take j (weights ups)) \<le> t \<and> t < c + sum_list (take (Suc j) (weights ups))"
  using assms
proof (induction ups arbitrary: c i)
  case Nil
  then show ?case by simp
next
  case (Cons u ups)
  have pos: "0 < GetEffectiveWeight u" and nn: "0 \<le> sum_list (weights ups)"
    by (simp_all add: weights_nonneg)
  have ok: "int_ok (c + GetEffectiveWeight u)"
    using Cons.prems(1,2) nn by (auto intro: int_ok_partial)
  show ?case
  proof (cases "t < c + GetEffectiveWeight u")
    case True
    then show ?thesis
      using Cons.prems ok by (intro exI[of _ 0]) (simp add: wrap64_ok)
  next
    case False
    then obtain j where "j < length ups" "random_scan t (c + GetEffectiveWeight u) (Suc i) ups = Suc i + j"
      "c + GetEffectiveWeight u + sum_list (take j (weights ups)) \<le> t"
      "t < c + GetEffectiveWeight u + sum_list (take (Suc j) (weights ups))"
      using Cons.IH[of "c + GetEffectiveWeight u" "Suc i"] Cons.prems pos by (auto simp: add.assoc)
    then show ?thesis
      using False ok by (intro exI[of _ "Suc j"]) (simp add: wrap64_ok add.assoc)
  qed
qed

lemma take_sum_mono:
  assumes "\<forall>w \<in> set ws. (0::int) \<le> w" and "i \<le> j"
  shows "sum_list (take i ws) \<le> sum_list (take j ws)"
proof -
  have "take j ws = take i ws @ take (j - i) (drop i ws)"
    using assms(2) by (metis le_add_diff_inverse take_add)
  moreover have "0 \<le> sum_list (take (j - i) (drop i ws))"
    using assms(1) by (auto intro!: sum_list_nonneg dest!: in_set_takeD in_set_dropD)
  ultimately show ?thesis by simp
qed

lemma random_scan_iff:
  assumes "int_ok (sum_list (weights ups))" and "0 \<le> t" and "t < sum_list (weights ups)"
    and "j < length ups"
  shows "random_scan t 0 0 ups = j \<longleftrightarrow>
    sum_list (take j (weights ups)) \<le> t \<and> t < sum_list (take j (weights ups)) + weights ups ! j"
proof -
  let ?S = "\<lambda>j. sum_list (take j (weights ups))"
  have suc: "?S (Suc k) = ?S k + weights ups ! k" if "k < length ups" for k
    using that by (simp add: take_Suc_conv_app_nth)
  have mono: "a \<le> b \<Longrightarrow> ?S a \<le> ?S b" for a b
    by (rule take_sum_mono) (auto intro: less_imp_le)
  obtain k where k: "k < length ups" "random_scan t 0 0 ups = k" "?S k \<le> t" "t < ?S (Suc k)"
    using random_scan_range[of 0 ups t 0] assms(1-3) by auto
  have "k = j" if "?S j \<le> t" "t < ?S (Suc j)"
    using mono[of "Suc k" j] mono[of "Suc j" k] k(3,4) that by linarith
  then show ?thesis
    using k suc assms(4) by (metis)
qed

lemma random_count:
  assumes "int_ok (sum_list (weights ups))" and "j < length ups"
  shows "card {t. 0 \<le> t \<and> t < sum_list (weights ups) \<and> random_scan t 0 0 ups = j}
    = nat (weights ups ! j)"
proof -
  let ?S = "\<lambda>j. sum_list (take j (weights ups))"
  have nn: "\<forall>w \<in> set (weights ups). 0 \<le> w" by (auto intro: less_imp_le)
  have lo: "0 \<le> ?S j"
    using take_sum_mono[OF nn, of 0 j] by simp
  have hi: "?S j + weights ups ! j \<le> sum_list (weights ups)"
    using take_sum_mono[OF nn, of "Suc j" "length ups"] assms(2) by (simp add: take_Suc_conv_app_nth)
  have "{t. 0 \<le> t \<and> t < sum_list (weights ups) \<and> random_scan t 0 0 ups = j}
      = {?S j ..< ?S j + weights ups ! j}"
    using random_scan_iff[OF assms(1) _ _ assms(2)] lo hi by fastforce
  then show ?thesis by simp
qed

text \<open>
  C20: weighted random selection has exactly the configured distribution. Of the \<open>W\<close> equally
  likely draws (\<open>W\<close> the sum of the effective weights), each upstream is selected by as many as
  its effective weight.
\<close>

theorem weighted_random_distribution:
  assumes "2 \<le> length ups" and "distinct ups" and "u \<in> set ups"
    and "int_ok (sum_list (weights ups))"
    and "sAlgorithm s = ''weighted_random''"
  shows "card {t. 0 \<le> t \<and> t < sum_list (weights ups) \<and>
      fst (Select (env\<lparr>intn := \<lambda>_. t\<rparr>) s r ups) = Some u} = nat (GetEffectiveWeight u)"
proof -
  let ?W = "sum_list (weights ups)"
  obtain j where j: "j < length ups" "ups ! j = u"
    using assms(3) by (auto simp: in_set_conv_nth)
  have pos: "0 < ?W" if "0 \<le> t" "t < ?W" for t using that by simp
  have sel: "fst (Select (env\<lparr>intn := \<lambda>_. t\<rparr>) s r ups) = Some (ups ! random_scan t 0 0 ups)"
    if "0 \<le> t" "t < ?W" for t
    using assms(5) pos[OF that] total_weight_sum[OF assms(4)]
    by (simp add: Select_many[OF assms(1)] selectWeightedRandom_def)
  have eq: "ups ! random_scan t 0 0 ups = u \<longleftrightarrow> random_scan t 0 0 ups = j" if "0 \<le> t" "t < ?W" for t
    using random_scan_range[of 0 ups t 0] that assms(2,4) j
    by (auto simp: nth_eq_iff_index_eq)
  have "{t. 0 \<le> t \<and> t < ?W \<and> fst (Select (env\<lparr>intn := \<lambda>_. t\<rparr>) s r ups) = Some u}
      = {t. 0 \<le> t \<and> t < ?W \<and> random_scan t 0 0 ups = j}"
    using sel eq by auto
  then show ?thesis
    using random_count[OF assms(4) j(1)] j by simp
qed

definition demo_env :: sel_env where
  "demo_env = \<lparr>sort_ring = sort_ring_ins, intn = \<lambda>_. 0\<rparr>"

definition demo_request :: http_request where
  "demo_request = \<lparr>rMethod = ''GET'', rHost = ''h'', rPath = ''/'', rHeader = \<lambda>_. '''', rRemoteAddr = ''1.2.3.4:5''\<rparr>"

lemma demo_env_ok: "env_ok demo_env"
  by (simp add: env_ok_def demo_env_def sort_ring_ins_ok)

theorem weighted_random_distribution_witness:
  "card {t. 0 \<le> t \<and> t < 4 \<and> fst (Select (demo_env\<lparr>intn := \<lambda>_. t\<rparr>)
      (NewUpstreamSelector ''weighted_random'' '''') demo_request [up ''a'' 3, up ''b'' 0]) = Some (up ''a'' 3)} = 3"
  using weighted_random_distribution[of "[up ''a'' 3, up ''b'' 0]" "up ''a'' 3"
      "NewUpstreamSelector ''weighted_random'' ''''" demo_env demo_request]
  by (simp add: GetEffectiveWeight_def NewUpstreamSelector_def int_ok_def)

end
