(* ===== verification/RoundRobin.thy ===== *)
theory RoundRobin
  imports Selector
begin

section \<open>The two round-robin algorithms\<close>

text \<open>
  The facts about \<open>selectRoundRobin\<close> and \<open>selectWeightedRoundRobin\<close> of matcher/selector.go:
  a plain rotation, and the smooth weighted rotation, whose currents stay in the range of
  \<open>int\<close> and which gives each upstream exactly its weight over a cycle. The smooth rotation is
  proved on an abstract step over unbounded integers (\<open>swrr_step\<close>), which the code's loop
  refines as long as the number of upstreams times the sum of the weights is an \<open>int\<close>.
\<close>

subsection \<open>The abstract smooth rotation\<close>

fun argscan :: "nat \<Rightarrow> int list \<Rightarrow> nat \<Rightarrow> int \<Rightarrow> nat" where
  "argscan i [] m mv = m"
| "argscan i (x # xs) m mv = (if mv < x then argscan (Suc i) xs i x else argscan (Suc i) xs m mv)"

definition swrr_step :: "int list \<Rightarrow> int list \<Rightarrow> nat \<times> int list" where
  "swrr_step ws cs =
     (let cs' = map2 (+) cs ws; m = argscan 0 cs' 0 (cs ! 0)
      in (m, cs'[m := cs' ! m - sum_list ws]))"

fun swrr_run :: "int list \<Rightarrow> nat \<Rightarrow> int list \<Rightarrow> nat list \<times> int list" where
  "swrr_run ws 0 cs = ([], cs)"
| "swrr_run ws (Suc k) cs =
     (let (m, cs1) = swrr_step ws cs; (ms, cs2) = swrr_run ws k cs1 in (m # ms, cs2))"

text \<open>The currents sum to zero and none is as low as minus the total weight.\<close>

definition swrr_inv :: "int list \<Rightarrow> int list \<Rightarrow> bool" where
  "swrr_inv ws cs \<longleftrightarrow> length cs = length ws \<and> sum_list cs = 0 \<and> (\<forall>c \<in> set cs. - sum_list ws < c)"

lemma argscan_result:
  "argscan i xs m mv = m \<and> (\<forall>x \<in> set xs. x \<le> mv) \<or>
   (\<exists>j < length xs. argscan i xs m mv = i + j \<and> mv < xs ! j \<and> (\<forall>x \<in> set xs. x \<le> xs ! j))"
proof (induction i xs m mv rule: argscan.induct)
  case (1 i m mv)
  then show ?case by simp
next
  case (2 i x xs m mv)
  show ?case
  proof (cases "mv < x")
    case True
    from "2.IH"(1)[OF True] show ?thesis
    proof (elim disjE)
      assume "argscan (Suc i) xs i x = i \<and> (\<forall>y \<in> set xs. y \<le> x)"
      with True show ?thesis by (intro disjI2 exI[of _ 0]) simp
    next
      assume "\<exists>j < length xs. argscan (Suc i) xs i x = Suc i + j \<and> x < xs ! j \<and> (\<forall>y \<in> set xs. y \<le> xs ! j)"
      then obtain j where "j < length xs" "argscan (Suc i) xs i x = Suc i + j" "x < xs ! j"
        "\<forall>y \<in> set xs. y \<le> xs ! j" by blast
      with True show ?thesis by (intro disjI2 exI[of _ "Suc j"]) simp
    qed
  next
    case False
    from "2.IH"(2)[OF False] show ?thesis
    proof (elim disjE)
      assume "argscan (Suc i) xs m mv = m \<and> (\<forall>y \<in> set xs. y \<le> mv)"
      with False show ?thesis by simp
    next
      assume "\<exists>j < length xs. argscan (Suc i) xs m mv = Suc i + j \<and> mv < xs ! j \<and> (\<forall>y \<in> set xs. y \<le> xs ! j)"
      then obtain j where "j < length xs" "argscan (Suc i) xs m mv = Suc i + j" "mv < xs ! j"
        "\<forall>y \<in> set xs. y \<le> xs ! j" by blast
      with False show ?thesis by (intro disjI2 exI[of _ "Suc j"]) simp
    qed
  qed
qed

lemma argscan_max:
  assumes "xs \<noteq> []" and "mv < xs ! 0"
  shows "argscan 0 xs 0 mv < length xs \<and> (\<forall>x \<in> set xs. x \<le> xs ! argscan 0 xs 0 mv)"
proof -
  have "xs ! 0 \<in> set xs" using assms(1) by simp
  then have "\<not> (\<forall>x \<in> set xs. x \<le> mv)" using assms(2) by (meson linorder_not_less)
  then show ?thesis using argscan_result[of 0 xs 0 mv] by auto
qed

lemma sum_list_le_max:
  "\<forall>x \<in> set xs. x \<le> (b :: int) \<Longrightarrow> sum_list xs \<le> int (length xs) * b"
proof (induction xs)
  case Nil
  then show ?case by simp
next
  case (Cons x xs)
  then have "x \<le> b" "sum_list xs \<le> int (length xs) * b" by simp_all
  then show ?case by (simp add: distrib_right)
qed

lemma sum_list_zeros: "sum_list (map (\<lambda>_. 0 :: int) xs) = 0"
  by (induction xs) auto

lemma sum_list_pos: "\<forall>w \<in> set ws. (0 :: int) < w \<Longrightarrow> ws \<noteq> [] \<Longrightarrow> 0 < sum_list ws"
proof (induction ws)
  case Nil
  then show ?case by simp
next
  case (Cons w ws)
  then show ?case by (cases "ws = []") auto
qed

lemma swrr_pick:
  assumes inv: "swrr_inv ws cs" and pos: "\<forall>w \<in> set ws. 0 < w" and ne: "ws \<noteq> []"
    and m: "m = argscan 0 (map2 (+) cs ws) 0 (cs ! 0)"
  shows "m < length ws \<and> 0 < map2 (+) cs ws ! m"
proof -
  let ?xs = "map2 (+) cs ws"
  have len: "length cs = length ws" and sum: "sum_list cs = 0" using inv by (simp_all add: swrr_inv_def)
  have w0: "0 < ws ! 0" using pos ne by simp
  have x0: "cs ! 0 < ?xs ! 0" using w0 len ne by (simp add: nth_map)
  have xne: "?xs \<noteq> []" using len ne by (cases cs; cases ws) auto
  have mx: "m < length ?xs" "\<forall>x \<in> set ?xs. x \<le> ?xs ! m"
    using argscan_max[OF _ x0] xne unfolding m by blast+
  have "ws ! 0 \<le> sum_list ws"
    using sum_list_pos_nth[of ws 0] pos ne by (simp add: less_imp_le)
  then have "0 < sum_list ?xs"
    using sum_list_map2_add[OF len] sum w0 by linarith
  moreover have "sum_list ?xs \<le> int (length ?xs) * ?xs ! m"
    by (rule sum_list_le_max[OF mx(2)])
  ultimately have "0 < int (length ?xs) * ?xs ! m" by linarith
  then show ?thesis
    using mx(1) len by (auto simp: zero_less_mult_iff)
qed

lemma swrr_step_props:
  assumes inv: "swrr_inv ws cs" and pos: "\<forall>w \<in> set ws. 0 < w" and ne: "ws \<noteq> []"
    and step: "swrr_step ws cs = (m, cs')"
  shows "m < length ws \<and> swrr_inv ws cs' \<and>
    (\<forall>i < length ws. cs' ! i = cs ! i + ws ! i - (if i = m then sum_list ws else 0))"
proof -
  let ?xs = "map2 (+) cs ws"
  have len: "length cs = length ws" and sum: "sum_list cs = 0"
    and low: "\<And>i. i < length ws \<Longrightarrow> - sum_list ws < cs ! i"
    using inv by (auto simp: swrr_inv_def)
  have m: "m = argscan 0 ?xs 0 (cs ! 0)" and cs': "cs' = ?xs[m := ?xs ! m - sum_list ws]"
    using step by (auto simp: swrr_step_def Let_def)
  have mlt: "m < length ws" and mpos: "0 < ?xs ! m" using swrr_pick[OF inv pos ne m] by simp_all
  have nth: "cs' ! i = cs ! i + ws ! i - (if i = m then sum_list ws else 0)" if "i < length ws" for i
    using that mlt len by (auto simp: cs' nth_list_update)
  have "- sum_list ws < cs' ! i" if i: "i < length ws" for i
  proof (cases "i = m")
    case True
    then show ?thesis using mpos mlt len nth[OF i] by simp
  next
    case False
    have "0 < ws ! i" using pos i by simp
    then show ?thesis using nth[OF i] low[OF i] False by simp
  qed
  moreover have "sum_list cs' = 0"
    using sum_list_update[of m ?xs "?xs ! m - sum_list ws"] sum_list_map2_add[OF len] sum mlt len
    by (simp add: cs')
  ultimately have "swrr_inv ws cs'"
    using len by (auto simp: swrr_inv_def cs' in_set_conv_nth)
  then show ?thesis using nth mlt by blast
qed

lemma swrr_run_props:
  assumes "swrr_inv ws cs" and "\<forall>w \<in> set ws. 0 < w" and "ws \<noteq> []"
    and "swrr_run ws k cs = (ms, cs')"
  shows "length ms = k \<and> set ms \<subseteq> {..<length ws} \<and> swrr_inv ws cs' \<and>
    (\<forall>i < length ws. cs' ! i = cs ! i + int k * ws ! i - sum_list ws * int (count_list ms i))"
  using assms(1,4)
proof (induction k arbitrary: cs ms)
  case 0
  then show ?case by simp
next
  case (Suc k)
  obtain m cs1 where st: "swrr_step ws cs = (m, cs1)" by fastforce
  obtain ns where run: "swrr_run ws k cs1 = (ns, cs')" and ms: "ms = m # ns"
    using Suc.prems(2) st by (auto split: prod.splits)
  note step = swrr_step_props[OF Suc.prems(1) assms(2,3) st]
  have IH: "length ns = k \<and> set ns \<subseteq> {..<length ws} \<and> swrr_inv ws cs' \<and>
    (\<forall>i < length ws. cs' ! i = cs1 ! i + int k * ws ! i - sum_list ws * int (count_list ns i))"
    using Suc.IH[OF _ run] step by blast
  have "cs' ! i = cs ! i + int (Suc k) * ws ! i - sum_list ws * int (count_list ms i)"
    if "i < length ws" for i
    using IH step that by (auto simp: ms distrib_left distrib_right)
  then show ?case using IH step ms by simp
qed

lemma count_list_sum:
  "set ms \<subseteq> {..<(n :: nat)} \<Longrightarrow> (\<Sum>i<n. count_list ms i) = length ms"
  by (rule sum_count_set) simp_all

text \<open>A cycle of as many steps as the total weight.\<close>

lemma swrr_cycle:
  assumes pos: "\<forall>w \<in> set ws. 0 < w" and ne: "ws \<noteq> []"
    and run: "swrr_run ws (nat (sum_list ws)) (map (\<lambda>_. 0) ws) = (ms, cs')"
  shows "(\<forall>i < length ws. int (count_list ms i) = ws ! i) \<and> cs' = map (\<lambda>_. 0) ws"
proof -
  let ?W = "sum_list ws"
  have W: "0 < ?W" by (rule sum_list_pos[OF pos ne])
  have inv: "swrr_inv ws (map (\<lambda>_. 0) ws)" using W sum_list_zeros by (auto simp: swrr_inv_def)
  note p = swrr_run_props[OF inv pos ne run]
  have fin: "cs' ! i = ?W * (ws ! i - int (count_list ms i))" and low: "- ?W < cs' ! i"
    if "i < length ws" for i
  proof -
    show "cs' ! i = ?W * (ws ! i - int (count_list ms i))"
      using p W that by (simp add: right_diff_distrib)
    have "cs' ! i \<in> set cs'" by (rule nth_mem) (use p that in \<open>simp add: swrr_inv_def\<close>)
    then show "- ?W < cs' ! i" using p by (auto simp: swrr_inv_def)
  qed
  have le: "int (count_list ms i) \<le> ws ! i" if "i < length ws" for i
  proof -
    have "?W * (-1) < ?W * (ws ! i - int (count_list ms i))" using fin[OF that] low[OF that] by simp
    then have "-1 < ws ! i - int (count_list ms i)" using W by (simp only: mult_less_cancel_left_pos)
    then show ?thesis by simp
  qed
  have "(\<Sum>i<length ws. count_list ms i) = nat ?W" using count_list_sum[of ms "length ws"] p by simp
  then have "(\<Sum>i<length ws. int (count_list ms i)) = ?W"
    using W by (metis (no_types) int_nat_eq less_imp_le of_nat_sum)
  also have "\<dots> = (\<Sum>i<length ws. ws ! i)" by (simp add: sum_list_sum_nth lessThan_atLeast0)
  finally have eq: "int (count_list ms i) = ws ! i" if "i < length ws" for i
    using sum_mono_inv[of "\<lambda>i. int (count_list ms i)" "{..<length ws}" "\<lambda>i. ws ! i"] le that by auto
  have "cs' = map (\<lambda>_. 0) ws"
    using p fin eq by (intro nth_equalityI) (auto simp: swrr_inv_def)
  then show ?thesis using eq by blast
qed

subsection \<open>The code's loop is the abstract step\<close>

lemma wrr_scan_abs:
  assumes "length cs = length ws" and "\<forall>w \<in> set ws. 0 < w" and "\<forall>i < length ws. int_ok (cs ! i + ws ! i)"
    and "0 \<le> t" and "int_ok (t + sum_list ws)"
  shows "wrr_scan i cs ws t m mv = (map2 (+) cs ws, t + sum_list ws, argscan i (map2 (+) cs ws) m mv)"
  using assms
proof (induction cs ws arbitrary: i t m mv rule: list_induct2)
  case Nil
  then show ?case by simp
next
  case (Cons c cs w ws)
  have ok: "int_ok (c + w)" using Cons.prems(2) by (auto dest: spec[of _ 0])
  have oks: "\<forall>i < length ws. int_ok (cs ! i + ws ! i)" using Cons.prems(2) by auto
  have w: "0 < w" and pos: "\<forall>w \<in> set ws. 0 < w" using Cons.prems(1) by simp_all
  have nn: "0 \<le> sum_list ws" using pos by (auto intro: sum_list_nonneg less_imp_le)
  have tok: "int_ok (t + w)" by (rule int_ok_partial[of t w "sum_list ws"]) (use Cons.prems w nn in auto)
  show ?case
    using Cons.IH[OF pos oks, of "t + w"] Cons.prems(3,4) w
    by (simp add: wrap64_ok[OF ok] wrap64_ok[OF tok] add.assoc Let_def)
qed

lemma swrr_inv_bounds:
  assumes inv: "swrr_inv ws cs" and pos: "\<forall>w \<in> set ws. 0 < w" and i: "i < length ws"
  shows "- sum_list ws < cs ! i + ws ! i \<and> cs ! i + ws ! i \<le> int (length ws) * sum_list ws
    \<and> sum_list ws \<le> int (length ws) * sum_list ws"
proof -
  let ?W = "sum_list ws"
  have len: "length cs = length ws" and sum: "sum_list cs = 0" using inv by (simp_all add: swrr_inv_def)
  have low: "\<forall>c \<in> set cs. - ?W < c" using inv by (simp add: swrr_inv_def)
  have w: "0 < ws ! i" "ws ! i \<le> ?W"
    using sum_list_pos_nth[of ws i] pos i by (simp_all add: less_imp_le)
  have "map (\<lambda>c. c + ?W) cs ! i \<le> sum_list (map (\<lambda>c. c + ?W) cs)"
    using low i len by (intro sum_list_pos_nth) auto
  also have "\<dots> = int (length ws) * ?W"
    using sum len by (simp add: sum_list_addf sum_list_triv)
  finally have "cs ! i + ?W \<le> int (length ws) * ?W" using i len by simp
  moreover have "- ?W < cs ! i" using low i len by simp
  moreover have "1 * ?W \<le> int (length ws) * ?W"
    using i w by (intro mult_right_mono) auto
  ultimately show ?thesis using w by simp
qed

definition wrr_inv :: "UpstreamSelector \<Rightarrow> bool" where
  "wrr_inv s \<longleftrightarrow> wrrWeights s = weights (wrrUpstreams s) \<and>
     swrr_inv (weights (wrrUpstreams s)) (wrrCurrent s)"

definition wrr_currents :: "UpstreamSelector \<Rightarrow> WeightedUpstream list \<Rightarrow> int list" where
  "wrr_currents s ups = (if wrrUpstreams s = ups then wrrCurrent s else map (\<lambda>_. 0) ups)"

definition wrr_set :: "UpstreamSelector \<Rightarrow> WeightedUpstream list \<Rightarrow> int list \<Rightarrow> UpstreamSelector" where
  "wrr_set s ups cs = s\<lparr>wrrUpstreams := ups, wrrWeights := weights ups, wrrCurrent := cs\<rparr>"

abbreviation wrr_room :: "WeightedUpstream list \<Rightarrow> bool" where
  "wrr_room ups \<equiv> int_ok (int (length ups) * sum_list (weights ups))"

lemma wrr_set_simps [simp]:
  "wrrUpstreams (wrr_set s ups cs) = ups" "wrrCurrent (wrr_set s ups cs) = cs"
  "wrrWeights (wrr_set s ups cs) = weights ups" "sAlgorithm (wrr_set s ups cs) = sAlgorithm s"
  "wrr_set (wrr_set s ups cs) ups' cs' = wrr_set s ups' cs'"
  by (simp_all add: wrr_set_def)

lemma swrr_inv_zero:
  assumes "length xs = length ws" and "\<forall>w \<in> set ws. 0 < w"
  shows "swrr_inv ws (map (\<lambda>_. 0) xs)"
  using assms sum_list_pos[of ws] by (cases "ws = []") (auto simp: swrr_inv_def sum_list_zeros)

lemma wrr_currents_inv: "wrr_inv s \<Longrightarrow> swrr_inv (weights ups) (wrr_currents s ups)"
  by (cases "wrrUpstreams s = ups") (auto simp: wrr_inv_def wrr_currents_def intro!: swrr_inv_zero)

lemma wrr_inv_new: "wrr_inv (NewUpstreamSelector a k)"
  by (simp add: wrr_inv_def swrr_inv_def NewUpstreamSelector_def)

lemma wrr_step_abs:
  assumes inv: "wrr_inv s" and ne: "ups \<noteq> []" and room: "wrr_room ups"
    and step: "swrr_step (weights ups) (wrr_currents s ups) = (m, cs)"
  shows "selectWeightedRoundRobin s ups = (ups ! m, wrr_set s ups cs) \<and>
    m < length ups \<and> wrr_inv (wrr_set s ups cs)"
proof -
  let ?ws = "weights ups" and ?cs = "wrr_currents s ups"
  let ?W = "sum_list ?ws"
  have pos: "\<forall>w \<in> set ?ws. 0 < w" by simp
  have sinv: "swrr_inv ?ws ?cs" by (rule wrr_currents_inv[OF inv])
  have len: "length ?cs = length ups" using sinv by (simp add: swrr_inv_def)
  note bnd = swrr_inv_bounds[OF sinv pos]
  have W: "0 \<le> ?W" "?W \<le> int (length ups) * ?W"
    using bnd[of 0] ne weights_nonneg by simp_all
  have "int_ok (?cs ! i + ?ws ! i)" if "i < length ?ws" for i
    using bnd[OF that] room W unfolding int_ok_def length_map by linarith
  then have ok: "\<forall>i < length ?ws. int_ok (?cs ! i + ?ws ! i)" by blast
  have Wok: "int_ok ?W" using room W by (simp add: int_ok_def)
  have scan: "wrr_scan 0 ?cs ?ws 0 0 (?cs ! 0) = (map2 (+) ?cs ?ws, ?W, argscan 0 (map2 (+) ?cs ?ws) 0 (?cs ! 0))"
    using wrr_scan_abs[of ?cs ?ws 0] len pos ok Wok by simp
  have m: "m = argscan 0 (map2 (+) ?cs ?ws) 0 (?cs ! 0)"
    and cs: "cs = (map2 (+) ?cs ?ws)[m := map2 (+) ?cs ?ws ! m - ?W]"
    using step by (auto simp: swrr_step_def Let_def)
  have ml: "m < length ?ws" and mp: "0 < map2 (+) ?cs ?ws ! m"
    using swrr_pick[OF sinv pos _ m] ne by simp_all
  have "int_ok (map2 (+) ?cs ?ws ! m - ?W)"
    using bnd[OF ml] mp room W ml len by (auto simp: int_ok_def)
  then have cs': "(map2 (+) ?cs ?ws)[m := wrap64 (map2 (+) ?cs ?ws ! m - ?W)] = cs"
    using cs by (simp add: wrap64_ok)
  have "selectWeightedRoundRobin s ups = (ups ! m, wrr_set s ups cs)"
    using scan cs' inv m
    by (cases "wrrUpstreams s = ups")
      (simp_all add: selectWeightedRoundRobin_def wrrUpstreamsMatch_iff initWeightedRoundRobin_def
        wrr_currents_def wrr_set_def wrr_inv_def)
  moreover have "wrr_inv (wrr_set s ups cs)"
    using swrr_step_props[OF sinv pos _ step] ne by (simp add: wrr_inv_def)
  ultimately show ?thesis using ml by simp
qed

subsection \<open>Runs of the selector\<close>

lemma Select_wrr:
  assumes "2 \<le> length ups" and "sAlgorithm s = ''weighted_round_robin''" and "wrr_inv s" and "wrr_room ups"
    and "swrr_step (weights ups) (wrr_currents s ups) = (m, cs)"
  shows "Select env s r ups = (Some (ups ! m), wrr_set s ups cs) \<and> wrr_inv (wrr_set s ups cs)"
proof -
  have "ups \<noteq> []" using assms(1) by auto
  from wrr_step_abs[OF assms(3) this assms(4,5)] assms(2) show ?thesis
    by (simp add: Select_many[OF assms(1)])
qed

lemma select_n_wrr:
  assumes "2 \<le> length ups" and "sAlgorithm s = ''weighted_round_robin''" and "wrr_inv s" and "wrr_room ups"
    and "swrr_run (weights ups) (Suc k) (wrr_currents s ups) = (ms, cs)"
  shows "select_n env (Suc k) s r ups = (map (\<lambda>m. Some (ups ! m)) ms, wrr_set s ups cs)
    \<and> wrr_inv (wrr_set s ups cs)"
  using assms(2,3,5)
proof (induction k arbitrary: s ms cs)
  case 0
  then show ?case
    using Select_wrr[OF assms(1) _ _ assms(4)] by (auto split: prod.splits)
next
  case (Suc k)
  obtain m c1 where st: "swrr_step (weights ups) (wrr_currents s ups) = (m, c1)" by fastforce
  obtain ns where run: "swrr_run (weights ups) (Suc k) c1 = (ns, cs)" and ms: "ms = m # ns"
    using Suc.prems(3) st by (auto split: prod.splits)
  note sel = Select_wrr[OF assms(1) Suc.prems(1,2) assms(4) st]
  have run': "swrr_run (weights ups) (Suc k) (wrr_currents (wrr_set s ups c1) ups) = (ns, cs)"
    using run by (simp add: wrr_currents_def)
  have alg: "sAlgorithm (wrr_set s ups c1) = ''weighted_round_robin''" using Suc.prems(1) by simp
  note IH = Suc.IH[OF alg conjunct2[OF sel] run']
  show ?case
    using sel IH by (subst select_n.simps) (simp add: ms)
qed

lemma count_list_map_nth:
  "distinct ups \<Longrightarrow> j < length ups \<Longrightarrow> set ms \<subseteq> {..<length ups} \<Longrightarrow>
     count_list (map (\<lambda>m. Some (ups ! m)) ms) (Some (ups ! j)) = count_list ms j"
  by (induction ms) (auto simp: nth_eq_iff_index_eq)

lemma select_n_rr:
  assumes "2 \<le> length ups" and "sAlgorithm s = ''round_robin''"
  shows "select_n env k s r ups =
     (map (\<lambda>i. Some (ups ! (unat (rrIndex s + of_nat i) mod length ups))) [0..<k],
      s\<lparr>rrIndex := rrIndex s + of_nat k\<rparr>)"
  using assms(2)
proof (induction k arbitrary: s)
  case 0
  then show ?case by simp
next
  case (Suc k)
  have "Select env s r ups = (Some (ups ! (unat (rrIndex s) mod length ups)), s\<lparr>rrIndex := rrIndex s + 1\<rparr>)"
    using Suc.prems by (simp add: Select_many[OF assms(1)] selectRoundRobin_def)
  then show ?case
    using Suc.IH[of "s\<lparr>rrIndex := rrIndex s + 1\<rparr>"] Suc.prems
    by (simp add: upt_conv_Cons map_Suc_upt[symmetric] algebra_simps del: upt_Suc map_Suc_upt)
qed

text \<open>
  Round robin is a rotation. As long as the 64-bit counter does not wrap, as many calls as
  there are upstreams return the list of upstreams rotated by the counter, so each upstream is
  returned exactly once, and the counter has advanced by the number of calls.
\<close>

theorem round_robin_rotation:
  assumes "2 \<le> length ups" and "sAlgorithm s = ''round_robin''"
    and "unat (rrIndex s) + length ups < 18446744073709551616"
  shows "select_n env (length ups) s r ups =
    (map Some (rotate (unat (rrIndex s)) ups), s\<lparr>rrIndex := rrIndex s + of_nat (length ups)\<rparr>)"
proof -
  have "map (\<lambda>i. Some (ups ! (unat (rrIndex s + of_nat i) mod length ups))) [0..<length ups]
      = map Some (rotate (unat (rrIndex s)) ups)"
    using assms(3) by (intro nth_equalityI) (auto simp: nth_rotate unat_plus_of_nat)
  then show ?thesis
    by (simp add: select_n_rr[OF assms(1,2)])
qed

theorem round_robin_rotation_witness:
  "fst (select_n demo_env (Suc (Suc 0)) (NewUpstreamSelector ''round_robin'' ''''\<lparr>rrIndex := 1\<rparr>) demo_request
     [up ''a'' 1, up ''b'' 1]) = [Some (up ''b'' 1), Some (up ''a'' 1)]"
  using round_robin_rotation[where ups = "[up ''a'' 1, up ''b'' 1]" and
      s = "NewUpstreamSelector ''round_robin'' ''''\<lparr>rrIndex := 1\<rparr>" and env = demo_env and r = demo_request]
  by (simp add: NewUpstreamSelector_def del: select_n.simps)

text \<open>
  C5: smooth weighted round robin is exact over a cycle. From a fresh cycle (the selector has
  not seen this list of upstreams, or all its currents are zero) the next \<open>W\<close> calls, with \<open>W\<close>
  the sum of the effective weights, return each upstream exactly as often as its weight, and
  leave all currents zero, so the next cycle starts afresh. No current overflows as long as
  the number of upstreams times \<open>W\<close> fits in an \<open>int\<close>.
\<close>

theorem weighted_round_robin_cycle:
  assumes "2 \<le> length ups" and "distinct ups" and "sAlgorithm s = ''weighted_round_robin''"
    and "wrr_inv s" and "wrrUpstreams s \<noteq> ups \<or> wrrCurrent s = map (\<lambda>_. 0) ups"
    and "int_ok (int (length ups) * sum_list (weights ups))"
    and "(us, s') = select_n env (nat (sum_list (weights ups))) s r ups"
  shows "(\<forall>u \<in> set ups. count_list us (Some u) = nat (GetEffectiveWeight u)) \<and>
    wrrUpstreams s' = ups \<and> wrrCurrent s' = map (\<lambda>_. 0) ups \<and> wrr_inv s'"
proof -
  let ?ws = "weights ups"
  have pos: "\<forall>w \<in> set ?ws. 0 < w" and ne: "?ws \<noteq> []" using assms(1) by auto
  obtain k where k: "nat (sum_list ?ws) = Suc k"
    using sum_list_pos[OF pos ne] by (metis Suc_pred zero_less_nat_eq)
  obtain ms cs where run: "swrr_run ?ws (Suc k) (map (\<lambda>_. 0) ?ws) = (ms, cs)" by fastforce
  have zero: "wrr_currents s ups = map (\<lambda>_. 0) ?ws"
    using assms(5) by (auto simp: wrr_currents_def comp_def)
  have cyc: "(\<forall>i < length ?ws. int (count_list ms i) = ?ws ! i) \<and> cs = map (\<lambda>_. 0) ?ws"
    using swrr_cycle[OF pos ne] run k by simp
  have mset: "set ms \<subseteq> {..<length ups}"
    using swrr_run_props[OF swrr_inv_zero[OF refl pos] pos ne run] by simp
  have out: "us = map (\<lambda>m. Some (ups ! m)) ms" "s' = wrr_set s ups cs" "wrr_inv s'"
    using select_n_wrr[OF assms(1,3,4,6) run[folded zero], of env r] assms(7) k by auto
  have "count_list us (Some u) = nat (GetEffectiveWeight u)" if u: "u \<in> set ups" for u
  proof -
    obtain j where j: "j < length ups" "ups ! j = u" using u by (auto simp: in_set_conv_nth)
    have "int (count_list ms j) = GetEffectiveWeight u" using cyc j by simp
    then show ?thesis
      using count_list_map_nth[OF assms(2) j(1) mset] out(1) j(2) by simp
  qed
  then show ?thesis using out cyc by (simp add: comp_def)
qed

theorem weighted_round_robin_cycle_witness:
  "count_list (fst (select_n demo_env (nat 4) (NewUpstreamSelector ''weighted_round_robin'' '''')
     demo_request [up ''a'' 3, up ''b'' 0])) (Some (up ''a'' 3)) = 3"
proof -
  let ?ups = "[up ''a'' 3, up ''b'' 0]" and ?s = "NewUpstreamSelector ''weighted_round_robin'' ''''"
  have w: "sum_list (weights ?ups) = 4" by (simp add: GetEffectiveWeight_def)
  show ?thesis
    using weighted_round_robin_cycle[where ups = ?ups and s = ?s and env = demo_env and r = demo_request,
        OF _ _ _ wrr_inv_new _ _ surjective_pairing[symmetric], unfolded w]
    by (simp add: GetEffectiveWeight_def NewUpstreamSelector_def int_ok_def del: select_n.simps)
qed

text \<open>
  C12: smooth weighted round robin never runs ahead. At every moment of a run from a fresh
  cycle, an upstream of weight \<open>w\<close> has been returned fewer than \<open>k w / W + 1\<close> times in \<open>k\<close>
  calls, so no upstream receives a burst beyond its share.
\<close>

theorem weighted_round_robin_smooth:
  assumes "2 \<le> length ups" and "distinct ups" and "sAlgorithm s = ''weighted_round_robin''"
    and "wrr_inv s" and "wrrUpstreams s \<noteq> ups"
    and "int_ok (int (length ups) * sum_list (weights ups))"
    and "0 < k" and "u \<in> set ups"
  shows "sum_list (weights ups) * int (count_list (fst (select_n env k s r ups)) (Some u))
    < int k * GetEffectiveWeight u + sum_list (weights ups)"
proof -
  let ?ws = "weights ups"
  have pos: "\<forall>w \<in> set ?ws. 0 < w" and ne: "?ws \<noteq> []" using assms(1) by auto
  obtain k' where k: "k = Suc k'" using assms(7) by (cases k) auto
  obtain ms cs where run: "swrr_run ?ws (Suc k') (map (\<lambda>_. 0) ?ws) = (ms, cs)" by fastforce
  have zero: "wrr_currents s ups = map (\<lambda>_. 0) ?ws"
    using assms(5) by (auto simp: wrr_currents_def comp_def)
  note props = swrr_run_props[OF swrr_inv_zero[OF refl pos] pos ne run]
  have out: "fst (select_n env k s r ups) = map (\<lambda>m. Some (ups ! m)) ms"
    using select_n_wrr[OF assms(1,3,4,6) run[folded zero], of env r] k by simp
  obtain j where j: "j < length ups" "ups ! j = u" using assms(8) by (auto simp: in_set_conv_nth)
  have cnt: "count_list (map (\<lambda>m. Some (ups ! m)) ms) (Some u) = count_list ms j"
    using count_list_map_nth[OF assms(2) j(1)] props j(2) by simp
  have "cs ! j = int k * ?ws ! j - sum_list ?ws * int (count_list ms j)"
    using props j k by simp
  moreover have "cs ! j \<in> set cs" by (rule nth_mem) (use props j in \<open>simp add: swrr_inv_def\<close>)
  ultimately have "- sum_list ?ws < int k * ?ws ! j - sum_list ?ws * int (count_list ms j)"
    using props by (auto simp: swrr_inv_def)
  then show ?thesis using out cnt j by simp
qed

theorem weighted_round_robin_smooth_witness:
  "4 * int (count_list (fst (select_n demo_env 2 (NewUpstreamSelector ''weighted_round_robin'' '''')
     demo_request [up ''a'' 3, up ''b'' 0])) (Some (up ''a'' 3))) < 10"
  using weighted_round_robin_smooth[where ups = "[up ''a'' 3, up ''b'' 0]" and
      s = "NewUpstreamSelector ''weighted_round_robin'' ''''" and k = 2 and u = "up ''a'' 3" and
      env = demo_env and r = demo_request, OF _ _ _ wrr_inv_new]
  by (simp add: GetEffectiveWeight_def NewUpstreamSelector_def int_ok_def del: select_n.simps)

end
