(* ===== verification/SelectResult.thy ===== *)
theory SelectResult
  imports RoundRobin
begin

section \<open>What a selection returns\<close>

text \<open>
  Facts about \<open>Select\<close> of matcher/selector.go over all algorithms: the least-connections scan
  returns a minimum of the load order, and whatever the algorithm, the upstream returned is
  one of the list that the call was given.
\<close>

subsection \<open>Least connections\<close>

text \<open>
  The order of the scan: fewer connections per unit of weight first, the larger weight first
  among equals.
\<close>

definition lighter :: "int \<times> int \<Rightarrow> int \<times> int \<Rightarrow> bool" where
  "lighter a b \<longleftrightarrow> fst a * snd b < fst b * snd a \<or> fst a * snd b = fst b * snd a \<and> snd b \<le> snd a"

definition load :: "(string \<Rightarrow> int) \<Rightarrow> WeightedUpstream \<Rightarrow> int \<times> int" where
  "load conns u = (conns (Address u), GetEffectiveWeight u)"

definition load_ok :: "int \<times> int \<Rightarrow> bool" where
  "load_ok p \<longleftrightarrow> \<bar>fst p\<bar> \<le> 2147483648 \<and> 0 < snd p \<and> snd p \<le> 2147483648"

lemma lighter_refl: "lighter a a"
  by (simp add: lighter_def)

lemma lighter_total: "lighter a b \<or> lighter b a"
  by (auto simp: lighter_def)

lemma lighter_ratio:
  assumes "0 < snd a" and "0 < snd b"
  shows "lighter a b \<longleftrightarrow> real_of_int (fst a) / real_of_int (snd a) < real_of_int (fst b) / real_of_int (snd b) \<or>
    real_of_int (fst a) / real_of_int (snd a) = real_of_int (fst b) / real_of_int (snd b) \<and> snd b \<le> snd a"
proof -
  have "real_of_int (fst a) / real_of_int (snd a) < real_of_int (fst b) / real_of_int (snd b) \<longleftrightarrow>
      real_of_int (fst a * snd b) < real_of_int (fst b * snd a)"
    using assms by (simp add: divide_less_eq less_divide_eq field_simps)
  moreover have "real_of_int (fst a) / real_of_int (snd a) = real_of_int (fst b) / real_of_int (snd b) \<longleftrightarrow>
      real_of_int (fst a * snd b) = real_of_int (fst b * snd a)"
    using assms by (simp add: frac_eq_eq)
  ultimately show ?thesis
    by (simp only: of_int_less_iff of_int_eq_iff lighter_def)
qed

lemma lighter_trans:
  assumes "0 < snd a" and "0 < snd b" and "0 < snd c" and "lighter a b" and "lighter b c"
  shows "lighter a c"
  using assms(4,5) lighter_ratio[OF assms(1,2)] lighter_ratio[OF assms(2,3)] lighter_ratio[OF assms(1,3)]
  by auto

lemma product_ok: "load_ok a \<Longrightarrow> load_ok b \<Longrightarrow> int_ok (fst a * snd b)"
proof -
  assume a: "load_ok a" and b: "load_ok b"
  have "\<bar>fst a * snd b\<bar> \<le> 2147483648 * 2147483648"
    using a b by (subst abs_mult, intro mult_mono) (auto simp: load_ok_def)
  then show ?thesis by (auto simp: int_ok_def abs_le_iff)
qed

lemma least_scan_step:
  assumes "load_ok (load conns u)" and "load_ok (mc, mw)"
  shows "least_scan conns i (u # us) mi mc mw =
    (if lighter (mc, mw) (load conns u) then least_scan conns (Suc i) us mi mc mw
     else least_scan conns (Suc i) us i (fst (load conns u)) (snd (load conns u)))"
proof -
  have w: "wrap64 (conns (Address u) * mw) = conns (Address u) * mw"
    "wrap64 (mc * GetEffectiveWeight u) = mc * GetEffectiveWeight u"
    using product_ok[OF assms] product_ok[OF assms(2,1)] by (simp_all add: wrap64_ok load_def)
  have "\<not> lighter (mc, mw) (load conns u) \<longleftrightarrow> conns (Address u) * mw < mc * GetEffectiveWeight u \<or>
      conns (Address u) * mw = mc * GetEffectiveWeight u \<and> mw < GetEffectiveWeight u"
    by (auto simp: lighter_def load_def)
  then show ?thesis
    by (auto simp: Let_def w load_def)
qed

lemma least_scan_min:
  assumes "\<forall>u \<in> set us. load_ok (load conns u)" and "load_ok p"
    and "r = least_scan conns i us mi (fst p) (snd p)"
  shows "(r = mi \<and> (\<forall>u \<in> set us. lighter p (load conns u))) \<or>
    (\<exists>j < length us. r = i + j \<and> lighter (load conns (us ! j)) p \<and>
       (\<forall>u \<in> set us. lighter (load conns (us ! j)) (load conns u)))"
  using assms
proof (induction us arbitrary: i mi p)
  case Nil
  then show ?case by simp
next
  case (Cons u us)
  have oku: "load_ok (load conns u)" and oks: "\<forall>v \<in> set us. load_ok (load conns v)"
    using Cons.prems(1) by simp_all
  have pos: "0 < snd (load conns u)" "0 < snd p" and poss: "\<forall>v \<in> set us. 0 < snd (load conns v)"
    using oku oks Cons.prems(2) by (auto simp: load_ok_def)
  have r: "r = (if lighter p (load conns u) then least_scan conns (Suc i) us mi (fst p) (snd p)
     else least_scan conns (Suc i) us i (fst (load conns u)) (snd (load conns u)))"
    using least_scan_step[OF oku, of "fst p" "snd p"] Cons.prems(2,3) by simp
  show ?case
  proof (cases "lighter p (load conns u)")
    case True
    then have "r = least_scan conns (Suc i) us mi (fst p) (snd p)" using r by simp
    from Cons.IH[OF oks Cons.prems(2) this] show ?thesis
    proof (elim disjE exE conjE)
      assume "r = mi" "\<forall>v \<in> set us. lighter p (load conns v)"
      then show ?thesis using True by simp
    next
      fix j assume j: "j < length us" "r = Suc i + j" "lighter (load conns (us ! j)) p"
        "\<forall>v \<in> set us. lighter (load conns (us ! j)) (load conns v)"
      have "lighter (load conns (us ! j)) (load conns u)"
        by (rule lighter_trans[OF _ pos(2,1) j(3) True]) (use poss j(1) in simp)
      then show ?thesis using j by (intro disjI2 exI[of _ "Suc j"]) simp
    qed
  next
    case False
    then have r': "r = least_scan conns (Suc i) us i (fst (load conns u)) (snd (load conns u))" using r by simp
    have up: "lighter (load conns u) p" using False lighter_total by blast
    from Cons.IH[OF oks oku r'] show ?thesis
    proof (elim disjE exE conjE)
      assume "r = i" "\<forall>v \<in> set us. lighter (load conns u) (load conns v)"
      then show ?thesis using up by (intro disjI2 exI[of _ 0]) (simp add: lighter_refl)
    next
      fix j assume j: "j < length us" "r = Suc i + j" "lighter (load conns (us ! j)) (load conns u)"
        "\<forall>v \<in> set us. lighter (load conns (us ! j)) (load conns v)"
      have "lighter (load conns (us ! j)) p"
        by (rule lighter_trans[OF _ pos(1,2) j(3) up]) (use poss j(1) in simp)
      then show ?thesis using j by (intro disjI2 exI[of _ "Suc j"]) simp
    qed
  qed
qed

lemma selectLeastConn_min:
  assumes "ups \<noteq> []" and "\<forall>u \<in> set ups. load_ok (load (getConnCount s) u)"
  shows "selectLeastConn s ups \<in> set ups \<and>
    (\<forall>v \<in> set ups. lighter (load (getConnCount s) (selectLeastConn s ups)) (load (getConnCount s) v))"
proof -
  let ?l = "load (getConnCount s)"
  obtain a us where ups: "ups = a # us" using assms(1) by (cases ups) auto
  obtain r where r: "r = least_scan (getConnCount s) 1 us 0 (fst (?l a)) (snd (?l a))" by simp
  have sel: "selectLeastConn s (a # us) = (a # us) ! r"
    using r by (simp add: selectLeastConn_def load_def)
  have oks: "\<forall>u \<in> set us. load_ok (?l u)" and oka: "load_ok (?l a)" using assms(2) ups by simp_all
  from least_scan_min[OF oks oka r] show ?thesis
    unfolding ups sel by (auto simp: lighter_refl)
qed

text \<open>
  C21: least-connections selection returns a least loaded upstream. With counts and weights up
  to \<open>2^31\<close> (so that no product wraps), the result has the smallest number of connections per
  unit of weight, and the largest weight among those that tie.
\<close>

theorem least_conn_minimal:
  assumes "2 \<le> length ups" and "sAlgorithm s = ''least_conn''"
    and "\<forall>u \<in> set ups. \<bar>getConnCount s (Address u)\<bar> \<le> 2147483648 \<and> GetEffectiveWeight u \<le> 2147483648"
  shows "\<exists>u \<in> set ups. Select env s r ups = (Some u, s) \<and>
    (\<forall>v \<in> set ups. getConnCount s (Address u) * GetEffectiveWeight v < getConnCount s (Address v) * GetEffectiveWeight u \<or>
       getConnCount s (Address u) * GetEffectiveWeight v = getConnCount s (Address v) * GetEffectiveWeight u \<and>
       GetEffectiveWeight v \<le> GetEffectiveWeight u)"
proof -
  have "ups \<noteq> []" using assms(1) by auto
  moreover have "\<forall>u \<in> set ups. load_ok (load (getConnCount s) u)"
    using assms(3) by (simp add: load_ok_def load_def)
  ultimately have "selectLeastConn s ups \<in> set ups \<and>
    (\<forall>v \<in> set ups. lighter (load (getConnCount s) (selectLeastConn s ups)) (load (getConnCount s) v))"
    by (rule selectLeastConn_min)
  then show ?thesis
    using assms(2) by (auto simp: Select_many[OF assms(1)] lighter_def load_def)
qed

theorem least_conn_minimal_witness:
  "\<exists>u \<in> {up ''a'' 1, up ''b'' 2}. Select demo_env
     (IncrementConn (NewUpstreamSelector ''least_conn'' '''') ''a'') demo_request [up ''a'' 1, up ''b'' 2] =
     (Some u, IncrementConn (NewUpstreamSelector ''least_conn'' '''') ''a'')"
  using least_conn_minimal[where ups = "[up ''a'' 1, up ''b'' 2]" and
      s = "IncrementConn (NewUpstreamSelector ''least_conn'' '''') ''a''" and env = demo_env and r = demo_request]
  by (auto simp: IncrementConn_def NewUpstreamSelector_def getConnCount_def GetEffectiveWeight_def wrap64_def)

subsection \<open>Every algorithm returns one of the upstreams\<close>

text \<open>
  The invariant of a selector: its weighted round-robin state is coherent and its ring was
  built by the constructor.
\<close>

definition sel_inv :: "sel_env \<Rightarrow> UpstreamSelector \<Rightarrow> bool" where
  "sel_inv env s \<longleftrightarrow> wrr_inv s \<and>
     (\<forall>rg. hashRing s = Some rg \<longrightarrow> rg = NewConsistentHashRing (sort_ring env) (ringUpstreams rg) 150)"

definition ring_faithful :: "UpstreamSelector \<Rightarrow> WeightedUpstream list \<Rightarrow> bool" where
  "ring_faithful s ups \<longleftrightarrow>
     (\<forall>rg. hashRing s = Some rg \<and> ring_Matches rg ups \<longrightarrow> set (ringUpstreams rg) = set ups)"

lemma sel_inv_new: "sel_inv env (NewUpstreamSelector a k)"
  by (simp add: sel_inv_def wrr_inv_new) (simp add: NewUpstreamSelector_def)

lemma hashToIndex_range: "0 < n \<Longrightarrow> int_ok n \<Longrightarrow> 0 \<le> hashToIndex x n \<and> hashToIndex x n < n"
proof -
  assume n: "0 < n" "int_ok n"
  have "int (unat (hashString x)) mod n < n" "0 \<le> int (unat (hashString x)) mod n"
    using n by simp_all
  then show ?thesis
    using n by (auto simp: hashToIndex_def Let_def)
qed

lemma nth_int_in: "0 \<le> i \<Longrightarrow> i < int (length xs) \<Longrightarrow> nth_int xs i \<in> set xs"
  by (simp add: nth_int_def nat_less_iff)

lemma selectWeightedRandom_in:
  assumes "env_ok env" and "ups \<noteq> []" and "int_ok (sum_list (weights ups))"
  shows "selectWeightedRandom env ups \<in> set ups"
proof -
  have tw: "total_weight ups = sum_list (weights ups)" by (rule total_weight_sum[OF assms(3)])
  have pos: "0 < sum_list (weights ups)" using assms(2) by (intro sum_list_pos) auto
  let ?t = "intn env (sum_list (weights ups))"
  have "0 \<le> ?t \<and> ?t < sum_list (weights ups)" using assms(1) pos by (simp add: env_ok_def)
  then obtain j where "j < length ups" "random_scan ?t 0 0 ups = j"
    using random_scan_range[of 0 ups ?t 0] assms(3) by auto
  then show ?thesis using pos by (simp add: selectWeightedRandom_def tw)
qed

lemma least_scan_range: "least_scan conns i us mi mc mw = mi \<or> (\<exists>j < length us. least_scan conns i us mi mc mw = i + j)"
proof (induction us arbitrary: i mi mc mw)
  case Nil
  then show ?case by simp
next
  case (Cons u us)
  have "least_scan conns i (u # us) mi mc mw = mi \<or> least_scan conns i (u # us) mi mc mw = i \<or>
      (\<exists>j < length us. least_scan conns i (u # us) mi mc mw = Suc i + j)"
    using Cons.IH[of "Suc i" i "conns (Address u)" "GetEffectiveWeight u"] Cons.IH[of "Suc i" mi mc mw]
    by (simp only: least_scan.simps Let_def split: if_split) blast
  then show ?case by (auto intro: exI[of _ 0] exI[of _ "Suc _"])
qed

lemma selectLeastConn_in: "ups \<noteq> [] \<Longrightarrow> selectLeastConn s ups \<in> set ups"
  using least_scan_range[of "getConnCount s" 1 "tl ups" 0 "getConnCount s (Address (ups ! 0))"
      "GetEffectiveWeight (ups ! 0)"]
  by (cases ups) (auto simp: selectLeastConn_def)

lemma selectConsistentHash_in:
  assumes "slice_sort_ok node_less (sort_ring env)" and "sel_inv env s" and "ups \<noteq> []" and "ring_faithful s ups"
  shows "(\<exists>v \<in> set ups. fst (selectConsistentHash env s r ups) = Some v) \<and>
    sel_inv env (snd (selectConsistentHash env s r ups))"
proof -
  define rg where "rg = (case hashRing s of
      None \<Rightarrow> NewConsistentHashRing (sort_ring env) ups 150
    | Some old \<Rightarrow> if ring_Matches old ups then old else NewConsistentHashRing (sort_ring env) ups 150)"
  have new: "ringUpstreams (NewConsistentHashRing (sort_ring env) ups 150) = ups"
    by (simp add: NewConsistentHashRing_def)
  have rg: "rg = NewConsistentHashRing (sort_ring env) (ringUpstreams rg) 150 \<and> set (ringUpstreams rg) = set ups"
    using assms(2,4) by (auto simp: rg_def sel_inv_def ring_faithful_def new split: option.splits)
  have ne: "ringUpstreams rg \<noteq> []" using rg assms(3) by auto
  have get: "\<exists>v \<in> set ups. ring_Get rg key = Some v" for key
    using ring_Get_in[OF assms(1) ne, of 150 key] rg by metis
  have "sel_inv env (s\<lparr>hashRing := Some rg\<rparr>)"
    using assms(2) rg by (simp add: sel_inv_def wrr_inv_def)
  then show ?thesis
    using get by (simp add: selectConsistentHash_def rg_def[symmetric] Let_def)
qed

lemma select_returns_any:
  assumes "env_ok env" and "sel_inv env s" and "ups \<noteq> []" and "ring_faithful s ups"
    and "int_ok (int (length ups) * sum_list (weights ups))"
    and "Select env s r ups = (u, s')"
  shows "(\<exists>v \<in> set ups. u = Some v) \<and> sel_inv env s'"
proof (cases "2 \<le> length ups")
  case False
  then obtain v where "ups = [v]" using assms(3) by (cases ups; cases "tl ups") auto
  then show ?thesis using assms(2,6) by (simp add: Select_def)
next
  case True
  have len: "1 \<le> int (length ups)" using True by simp
  have W: "0 < sum_list (weights ups)" using assms(3) by (intro sum_list_pos) auto
  have Wle: "1 * sum_list (weights ups) \<le> int (length ups) * sum_list (weights ups)"
    and lenle: "int (length ups) * 1 \<le> int (length ups) * sum_list (weights ups)"
    using len W by (intro mult_right_mono mult_left_mono; simp)+
  have Wok: "int_ok (sum_list (weights ups))" and lenok: "int_ok (int (length ups))"
    using assms(5) W Wle lenle len unfolding int_ok_def by linarith+
  have hash: "nth_int ups (hashToIndex x (int (length ups))) \<in> set ups" for x
    using hashToIndex_range[OF _ lenok, of x] len assms(3) by (intro nth_int_in) auto
  have rnd: "selectWeightedRandom env ups \<in> set ups"
    by (rule selectWeightedRandom_in[OF assms(1,3) Wok])
  have lst: "selectLeastConn s ups \<in> set ups"
    by (rule selectLeastConn_in[OF assms(3)])
  have srt: "slice_sort_ok node_less (sort_ring env)" using assms(1) by (simp add: env_ok_def)
  consider "sAlgorithm s = ''weighted_round_robin''" | "sAlgorithm s = ''consistent_hash''"
    | "sAlgorithm s \<noteq> ''weighted_round_robin''" "sAlgorithm s \<noteq> ''consistent_hash''" by blast
  then show ?thesis
  proof cases
    case 1
    obtain m cs where st: "swrr_step (weights ups) (wrr_currents s ups) = (m, cs)" by fastforce
    have "wrr_inv s" using assms(2) by (simp add: sel_inv_def)
    from wrr_step_abs[OF this assms(3,5) st] show ?thesis
      using assms(2,6) 1 by (auto simp: Select_many[OF True] sel_inv_def wrr_set_def)
  next
    case 2
    from selectConsistentHash_in[OF srt assms(2,3,4), of r] show ?thesis
      using assms(6) 2 by (auto simp: Select_many[OF True])
  next
    case 3
    then show ?thesis
      using assms(2,3,6) hash rnd lst
      by (auto simp: Select_many[OF True] selectRoundRobin_def selectIPHash_def selectURIHash_def
          selectHeaderHash_def selectFirst_def sel_inv_def wrr_inv_def Let_def split: if_splits)
  qed
qed



end
