(* ===== verification/Lru.thy ===== *)
theory Lru
  imports Prelude
begin

section \<open>The interface of hashicorp/golang-lru\<close>

text \<open>
  \<open>github.com/hashicorp/golang-lru\<close> is a third-party package. Its \<open>Cache\<close> is a parameter: a
  record of operations on an unknown state type, with the documented behaviour as the
  assumptions of the locale \<open>lru\<close>: a bounded map from keys to values in which \<open>Add\<close> may evict
  one other key, and only when the cache is full. The lemmas of the clients (the route
  cache, the regex and selector caches, the route statistics) are proved inside the locale.
  A list kept in recency order satisfies the interface; it is the instance of the witnesses.
\<close>

record ('c, 'v) lru_ops =
  lru_new :: "int \<Rightarrow> 'c"
  lru_get :: "'c \<Rightarrow> string \<Rightarrow> 'v option \<times> 'c"
  lru_peek :: "'c \<Rightarrow> string \<Rightarrow> 'v option"
  lru_add :: "'c \<Rightarrow> string \<Rightarrow> 'v \<Rightarrow> 'c"
  lru_remove :: "'c \<Rightarrow> string \<Rightarrow> 'c"
  lru_purge :: "'c \<Rightarrow> 'c"
  lru_keys :: "'c \<Rightarrow> string list"

definition lru_len :: "('c, 'v) lru_ops \<Rightarrow> 'c \<Rightarrow> nat" where
  "lru_len ops c = length (lru_keys ops c)"

locale lru =
  fixes ops :: "('c, 'v) lru_ops"
    and cap :: "'c \<Rightarrow> nat"
    and ok :: "'c \<Rightarrow> bool"
  assumes new_ok: "0 < n \<Longrightarrow> ok (lru_new ops n)"
    and new_cap: "0 < n \<Longrightarrow> cap (lru_new ops n) = nat n"
    and new_keys: "0 < n \<Longrightarrow> lru_keys ops (lru_new ops n) = []"
    and peek_keys: "ok c \<Longrightarrow> lru_peek ops c k = None \<longleftrightarrow> k \<notin> set (lru_keys ops c)"
    and keys_distinct: "ok c \<Longrightarrow> distinct (lru_keys ops c)"
    and len_cap: "ok c \<Longrightarrow> length (lru_keys ops c) \<le> cap c"
    and get_fst: "ok c \<Longrightarrow> fst (lru_get ops c k) = lru_peek ops c k"
    and get_peek: "ok c \<Longrightarrow> lru_peek ops (snd (lru_get ops c k)) = lru_peek ops c"
    and get_ok: "ok c \<Longrightarrow> ok (snd (lru_get ops c k))"
    and get_cap: "ok c \<Longrightarrow> cap (snd (lru_get ops c k)) = cap c"
    and add_same: "ok c \<Longrightarrow> lru_peek ops (lru_add ops c k v) k = Some v"
    and add_other: "ok c \<Longrightarrow> k' \<noteq> k \<Longrightarrow>
       lru_peek ops (lru_add ops c k v) k' = None \<or>
       lru_peek ops (lru_add ops c k v) k' = lru_peek ops c k'"
    and add_room: "ok c \<Longrightarrow> k' \<noteq> k \<Longrightarrow> k \<in> set (lru_keys ops c) \<or> length (lru_keys ops c) < cap c \<Longrightarrow>
       lru_peek ops (lru_add ops c k v) k' = lru_peek ops c k'"
    and add_ok: "ok c \<Longrightarrow> ok (lru_add ops c k v)"
    and add_cap: "ok c \<Longrightarrow> cap (lru_add ops c k v) = cap c"
    and remove_peek: "ok c \<Longrightarrow> lru_peek ops (lru_remove ops c k) = (lru_peek ops c)(k := None)"
    and remove_ok: "ok c \<Longrightarrow> ok (lru_remove ops c k)"
    and remove_cap: "ok c \<Longrightarrow> cap (lru_remove ops c k) = cap c"
    and purge_keys: "ok c \<Longrightarrow> lru_keys ops (lru_purge ops c) = []"
    and purge_ok: "ok c \<Longrightarrow> ok (lru_purge ops c)"
    and purge_cap: "ok c \<Longrightarrow> cap (lru_purge ops c) = cap c"
begin

lemmas lru_simps = new_ok new_cap new_keys get_fst get_peek get_ok get_cap add_same add_ok add_cap
  remove_peek remove_ok remove_cap purge_keys purge_ok purge_cap

lemma new_peek: "0 < n \<Longrightarrow> lru_peek ops (lru_new ops n) k = None"
  by (simp add: peek_keys new_ok new_keys)

lemma purge_peek: "ok c \<Longrightarrow> lru_peek ops (lru_purge ops c) k = None"
  by (simp add: peek_keys purge_ok purge_keys)

lemma get_pair: "lru_get ops c k = (v, c') \<Longrightarrow> ok c \<Longrightarrow>
    v = lru_peek ops c k \<and> ok c' \<and> lru_peek ops c' = lru_peek ops c \<and> cap c' = cap c"
  using get_fst get_peek get_ok get_cap by (metis fst_conv snd_conv)

lemma dom_peek: "ok c \<Longrightarrow> dom (lru_peek ops c) = set (lru_keys ops c)"
proof -
  assume c: "ok c"
  have "x \<in> dom (lru_peek ops c) \<longleftrightarrow> x \<in> set (lru_keys ops c)" for x
    using peek_keys[OF c, of x] by (simp only: domIff) blast
  then show ?thesis by blast
qed

lemma add_sub:
  assumes "ok c" and "lru_peek ops (lru_add ops c k v) j = Some w"
  shows "j = k \<and> w = v \<or> j \<noteq> k \<and> lru_peek ops c j = Some w"
  using add_other[OF assms(1), of j k v] add_same[OF assms(1), of k v] assms(2)
  by (cases "j = k") auto

end

subsection \<open>A list in recency order\<close>

record 'v list_lru =
  ll_cap :: nat
  ll_items :: "(string \<times> 'v) list"

definition ll_new :: "int \<Rightarrow> 'v list_lru" where
  "ll_new n = \<lparr>ll_cap = nat n, ll_items = []\<rparr>"

definition ll_peek :: "'v list_lru \<Rightarrow> string \<Rightarrow> 'v option" where
  "ll_peek c k = map_of (ll_items c) k"

definition ll_del :: "string \<Rightarrow> (string \<times> 'v) list \<Rightarrow> (string \<times> 'v) list" where
  "ll_del k xs = filter (\<lambda>p. fst p \<noteq> k) xs"

definition ll_get :: "'v list_lru \<Rightarrow> string \<Rightarrow> 'v option \<times> 'v list_lru" where
  "ll_get c k =
     (case map_of (ll_items c) k of
        None \<Rightarrow> (None, c)
      | Some v \<Rightarrow> (Some v, c\<lparr>ll_items := (k, v) # ll_del k (ll_items c)\<rparr>))"

definition ll_add :: "'v list_lru \<Rightarrow> string \<Rightarrow> 'v \<Rightarrow> 'v list_lru" where
  "ll_add c k v = c\<lparr>ll_items := take (ll_cap c) ((k, v) # ll_del k (ll_items c))\<rparr>"

definition ll_remove :: "'v list_lru \<Rightarrow> string \<Rightarrow> 'v list_lru" where
  "ll_remove c k = c\<lparr>ll_items := ll_del k (ll_items c)\<rparr>"

definition ll_purge :: "'v list_lru \<Rightarrow> 'v list_lru" where
  "ll_purge c = c\<lparr>ll_items := []\<rparr>"

definition ll_keys :: "'v list_lru \<Rightarrow> string list" where
  "ll_keys c = rev (map fst (ll_items c))"

definition list_lru_ops :: "('v list_lru, 'v) lru_ops" where
  "list_lru_ops = \<lparr>lru_new = ll_new, lru_get = ll_get, lru_peek = ll_peek, lru_add = ll_add,
     lru_remove = ll_remove, lru_purge = ll_purge, lru_keys = ll_keys\<rparr>"

definition ll_ok :: "'v list_lru \<Rightarrow> bool" where
  "ll_ok c \<longleftrightarrow> 0 < ll_cap c \<and> distinct (map fst (ll_items c)) \<and> length (ll_items c) \<le> ll_cap c"

lemmas ll_defs = list_lru_ops_def ll_new_def ll_get_def ll_peek_def ll_add_def ll_remove_def
  ll_purge_def ll_keys_def ll_ok_def

lemma ll_del_fst: "map fst (ll_del k xs) = filter (\<lambda>j. j \<noteq> k) (map fst xs)"
  by (induction xs) (auto simp: ll_del_def)

lemma ll_del_fst_set [simp]: "fst ` set (ll_del k xs) = fst ` set xs - {k}"
  by (auto simp: ll_del_def)

lemma ll_del_map_of: "map_of (ll_del k xs) = (map_of xs)(k := None)"
  by (induction xs) (auto simp: ll_del_def)

lemma ll_del_distinct: "distinct (map fst xs) \<Longrightarrow> distinct (map fst (ll_del k xs))"
  by (simp add: ll_del_fst)

lemma ll_del_length: "length (ll_del k xs) \<le> length xs"
  by (simp add: ll_del_def)

lemma ll_del_length_hit: "k \<in> fst ` set xs \<Longrightarrow> length (ll_del k xs) < length xs"
  unfolding ll_del_def by (rule length_filter_less[where x = "(k, SOME v. (k, v) \<in> set xs)"])
    (auto intro: someI)

lemma map_of_take: "map_of (take n xs) k = None \<or> map_of (take n xs) k = map_of xs k"
proof -
  have "map_of xs = map_of (drop n xs) ++ map_of (take n xs)"
    by (metis append_take_drop_id map_of_append)
  then show ?thesis by (auto simp: map_add_def split: option.splits)
qed

lemma ll_get_length: "map_of xs k = Some v \<Longrightarrow> length ((k, v) # ll_del k xs) \<le> length xs"
  using ll_del_length_hit[of k xs] by (force dest: map_of_SomeD)

interpretation list_lru: lru "list_lru_ops" ll_cap ll_ok
proof (unfold_locales, goal_cases)
  case (9 c k)
  then show ?case
    using ll_get_length[of "ll_items c" k]
    by (auto simp: ll_defs ll_del_distinct simp del: map_of_eq_Some_iff split: option.splits
        intro: order_trans)
next
  case (11 c k v)
  then show ?case by (cases "ll_cap c") (auto simp: ll_defs)
next
  case (12 c k' k v)
  then show ?case
    using map_of_take[of "ll_cap c" "(k, v) # ll_del k (ll_items c)" k']
    by (auto simp: ll_defs ll_del_map_of)
next
  case (13 c k' k v)
  have "length ((k, v) # ll_del k (ll_items c)) \<le> ll_cap c"
    using 13 ll_del_length_hit[of k "ll_items c"] ll_del_length[of k "ll_items c"]
    by (cases "k \<in> fst ` set (ll_items c)") (auto simp: ll_defs)
  then show ?case using 13 by (simp add: ll_defs ll_del_map_of)
next
  case (14 c k v)
  have "distinct (map fst ((k, v) # ll_del k (ll_items c)))"
    using 14 by (simp add: ll_defs ll_del_distinct)
  then have "distinct (map fst (take (ll_cap c) ((k, v) # ll_del k (ll_items c))))"
    by (simp only: take_map[symmetric] distinct_take)
  then show ?case using 14 by (simp add: ll_defs)
qed (auto simp: ll_defs ll_del_map_of ll_del_distinct fun_eq_iff
      intro: le_trans[OF ll_del_length] iffD2[OF map_of_eq_None_iff] split: option.splits)

end
