(* ===== verification/RuleMatcher.thy ===== *)
theory RuleMatcher
  imports SelectResult Lru
begin

section \<open>Rule matching: matcher/matcher.go\<close>

text \<open>
  \<open>RuleMatcher\<close> with its two LRU caches. The caches and the regular expression engine are the
  fields of the parameter \<open>match_env\<close>: \<open>re_compile\<close> is \<open>regexp.Compile\<close> and \<open>re_match\<close> is
  \<open>MatchString\<close>. The selector cache holds pointers, because a cached selector is mutated by
  every selection; \<open>selectors\<close> is the store they point into. A nil cache is \<open>None\<close>. The
  replacer of the request is \<open>repl\<close>, a partial function (\<open>GetString\<close>), \<open>None\<close> when nil. The
  conditions of a rule are an association list in the order in which the loop meets them.
\<close>

type_synonym replacer = "(string \<Rightarrow> string option) option"

record ('rc, 'sc, 're) match_env =
  regex_lru :: "('rc, 're) lru_ops"
  selector_lru :: "('sc, nat) lru_ops"
  re_compile :: "string \<Rightarrow> 're res"
  re_match :: "'re \<Rightarrow> string \<Rightarrow> bool"
  select_env :: sel_env

record ('rc, 'sc) RuleMatcher =
  regexCache :: "'rc option"
  selectorCache :: "'sc option"
  selectors :: "UpstreamSelector list"

record MatchResult =
  mUpstreams :: "WeightedUpstream list"
  mAlgorithm :: string
  mAlgorithmKey :: string
  mMatchedSimple :: bool

definition NewRuleMatcherWithCacheSizes ::
    "('rc, 'sc, 're) match_env \<Rightarrow> int \<Rightarrow> int \<Rightarrow> ('rc, 'sc) RuleMatcher" where
  "NewRuleMatcherWithCacheSizes env regexCacheSize selectorCacheSize =
     (let rs = (if regexCacheSize \<le> 0 then 1024 else regexCacheSize);
          ss = (if selectorCacheSize \<le> 0 then 1024 else selectorCacheSize)
      in \<lparr>regexCache = Some (lru_new (regex_lru env) rs),
          selectorCache = Some (lru_new (selector_lru env) ss), selectors = []\<rparr>)"

definition NewRuleMatcher :: "('rc, 'sc, 're) match_env \<Rightarrow> ('rc, 'sc) RuleMatcher" where
  "NewRuleMatcher env = NewRuleMatcherWithCacheSizes env 1024 1024"

definition getRegex :: "('rc, 'sc, 're) match_env \<Rightarrow> ('rc, 'sc) RuleMatcher \<Rightarrow> string \<Rightarrow>
    're res \<times> ('rc, 'sc) RuleMatcher" where
  "getRegex env m pattern =
     (case regexCache m of
        None \<Rightarrow> (re_compile env pattern, m)
      | Some c \<Rightarrow>
          let (cached, c') = lru_get (regex_lru env) c pattern; m' = m\<lparr>regexCache := Some c'\<rparr> in
          case cached of
            Some re \<Rightarrow> (Inr re, m')
          | None \<Rightarrow>
              case re_compile env pattern of
                Inl e \<Rightarrow> (Inl e, m')
              | Inr re \<Rightarrow> (Inr re, m\<lparr>regexCache := Some (lru_add (regex_lru env) c' pattern re)\<rparr>))"

text \<open>\<open>getSelector\<close> returns the pointer of the selector; a new one is stored at a fresh pointer.\<close>

definition selector_key :: "string \<Rightarrow> string \<Rightarrow> string" where
  "selector_key algorithm algorithmKey = algorithm @ '':'' @ algorithmKey"

definition getSelector :: "('rc, 'sc, 're) match_env \<Rightarrow> ('rc, 'sc) RuleMatcher \<Rightarrow> string \<Rightarrow> string \<Rightarrow>
    nat \<times> ('rc, 'sc) RuleMatcher" where
  "getSelector env m algorithm algorithmKey =
     (let cacheKey = selector_key algorithm algorithmKey;
          fresh = length (selectors m);
          grown = selectors m @ [NewUpstreamSelector algorithm algorithmKey]
      in case selectorCache m of
           None \<Rightarrow> (fresh, m\<lparr>selectors := grown\<rparr>)
         | Some c \<Rightarrow>
             let (cached, c') = lru_get (selector_lru env) c cacheKey in
             case cached of
               Some p \<Rightarrow> (p, m\<lparr>selectorCache := Some c'\<rparr>)
             | None \<Rightarrow> (fresh, m\<lparr>selectorCache := Some (lru_add (selector_lru env) c' cacheKey fresh),
                               selectors := grown\<rparr>))"

definition selectUpstream :: "('rc, 'sc, 're) match_env \<Rightarrow> ('rc, 'sc) RuleMatcher \<Rightarrow> http_request \<Rightarrow>
    WeightedUpstream list \<Rightarrow> string \<Rightarrow> string \<Rightarrow> WeightedUpstream option \<times> ('rc, 'sc) RuleMatcher" where
  "selectUpstream env m r upstreams algorithm algorithmKey =
     (case upstreams of
        [] \<Rightarrow> (None, m)
      | [u] \<Rightarrow> (Some u, m)
      | _ \<Rightarrow>
          let (p, m') = getSelector env m algorithm algorithmKey;
              (u, s) = Select (select_env env) (selectors m' ! p) r upstreams
          in (u, m'\<lparr>selectors := (selectors m')[p := s]\<rparr>))"

definition SelectFromUpstreams :: "('rc, 'sc, 're) match_env \<Rightarrow> ('rc, 'sc) RuleMatcher \<Rightarrow> http_request \<Rightarrow>
    WeightedUpstream list \<Rightarrow> string \<Rightarrow> string \<Rightarrow> WeightedUpstream option \<times> ('rc, 'sc) RuleMatcher" where
  "SelectFromUpstreams env m r upstreams algorithm algorithmKey =
     selectUpstream env m r upstreams algorithm algorithmKey"

definition resolvePlaceholder :: "http_request option \<Rightarrow> replacer \<Rightarrow> string \<Rightarrow> string" where
  "resolvePlaceholder req repl placeholder =
     (let key = Trim placeholder ''{}'' in
      case (case repl of Some f \<Rightarrow> f key | None \<Rightarrow> None) of
        Some val \<Rightarrow> val
      | None \<Rightarrow>
          case req of
            None \<Rightarrow> ''''
          | Some r \<Rightarrow>
              if key = ''http.request.method'' then rMethod r
              else if key = ''http.request.host'' then rHost r
              else if key = ''http.request.uri.path'' then rPath r
              else if HasPrefix key ''http.request.header.'' then
                (let h = TrimPrefix key ''http.request.header.'' in if h = [] then '''' else rHeader r h)
              else '''')"

definition matchRegex :: "('rc, 'sc, 're) match_env \<Rightarrow> ('rc, 'sc) RuleMatcher \<Rightarrow> string \<Rightarrow> string \<Rightarrow>
    bool \<times> ('rc, 'sc) RuleMatcher" where
  "matchRegex env m actual expected =
     (let pattern = TrimPrefix expected ''~''; (re, m') = getRegex env m pattern in
      case re of Inl e \<Rightarrow> (False, m') | Inr x \<Rightarrow> (re_match env x actual, m'))"

definition matchValue :: "('rc, 'sc, 're) match_env \<Rightarrow> ('rc, 'sc) RuleMatcher \<Rightarrow> string \<Rightarrow> string \<Rightarrow>
    bool \<times> ('rc, 'sc) RuleMatcher" where
  "matchValue env m actual expected =
     (if expected = [] then (actual = [], m)
      else if HasPrefix expected ''~'' then
        (let pattern = TrimPrefix expected ''~''; (re, m') = getRegex env m pattern in
         case re of Inl e \<Rightarrow> (False, m') | Inr x \<Rightarrow> (re_match env x actual, m'))
      else (actual = expected, m))"

text \<open>
  The first pass over the conditions collects those with a regular expression, and returns
  \<open>None\<close> at the first exact condition that fails; the second pass tries the collected ones.
\<close>

fun exact_pass :: "(string \<Rightarrow> string) \<Rightarrow> (string \<times> string) list \<Rightarrow> (string \<times> string) list \<Rightarrow>
    (string \<times> string) list option" where
  "exact_pass resolve regexConditions [] = Some regexConditions"
| "exact_pass resolve regexConditions ((placeholder, expected) # cs) =
     (if HasPrefix expected ''~'' then exact_pass resolve (regexConditions @ [(placeholder, expected)]) cs
      else if resolve placeholder \<noteq> expected then None
      else exact_pass resolve regexConditions cs)"

fun regex_pass :: "('rc, 'sc, 're) match_env \<Rightarrow> (string \<Rightarrow> string) \<Rightarrow> ('rc, 'sc) RuleMatcher \<Rightarrow>
    (string \<times> string) list \<Rightarrow> bool \<times> ('rc, 'sc) RuleMatcher" where
  "regex_pass env resolve m [] = (True, m)"
| "regex_pass env resolve m ((placeholder, expected) # cs) =
     (case matchRegex env m (resolve placeholder) expected of
        (True, m') \<Rightarrow> regex_pass env resolve m' cs
      | (False, m') \<Rightarrow> (False, m'))"

definition matchConditions :: "('rc, 'sc, 're) match_env \<Rightarrow> ('rc, 'sc) RuleMatcher \<Rightarrow> http_request option \<Rightarrow>
    replacer \<Rightarrow> (string \<times> string) list \<Rightarrow> bool \<times> ('rc, 'sc) RuleMatcher" where
  "matchConditions env m r repl conditions =
     (if conditions = [] then (True, m)
      else case exact_pass (resolvePlaceholder r repl) [] conditions of
        None \<Rightarrow> (False, m)
      | Some regexConditions \<Rightarrow> regex_pass env (resolvePlaceholder r repl) m regexConditions)"

fun match_rules :: "('rc, 'sc, 're) match_env \<Rightarrow> ('rc, 'sc) RuleMatcher \<Rightarrow> http_request option \<Rightarrow>
    replacer \<Rightarrow> string \<Rightarrow> string \<Rightarrow> Rule list \<Rightarrow> MatchResult option \<times> ('rc, 'sc) RuleMatcher" where
  "match_rules env m r repl defaultAlgorithm defaultAlgorithmKey [] = (None, m)"
| "match_rules env m r repl defaultAlgorithm defaultAlgorithmKey (rule # rules) =
     (case matchConditions env m r repl (rMatch rule) of
        (True, m') \<Rightarrow>
          (Some \<lparr>mUpstreams = rUpstreams rule,
             mAlgorithm = (if rAlgorithm rule = [] then defaultAlgorithm else rAlgorithm rule),
             mAlgorithmKey = (if rAlgorithmKey rule = [] then defaultAlgorithmKey else rAlgorithmKey rule),
             mMatchedSimple = False\<rparr>, m')
      | (False, m') \<Rightarrow> match_rules env m' r repl defaultAlgorithm defaultAlgorithmKey rules)"

definition matcher_MatchResult :: "('rc, 'sc, 're) match_env \<Rightarrow> ('rc, 'sc) RuleMatcher \<Rightarrow> http_request option \<Rightarrow>
    replacer \<Rightarrow> RouteConfig option \<Rightarrow> MatchResult option \<times> ('rc, 'sc) RuleMatcher" where
  "matcher_MatchResult env m r repl config =
     (case config of
        None \<Rightarrow> (None, m)
      | Some c \<Rightarrow>
          let defaultAlgorithm = (if cAlgorithm c = [] then ''weighted_random'' else cAlgorithm c);
              defaultAlgorithmKey = cAlgorithmKey c in
          if cUpstream c \<noteq> [] \<and> cRules c = [] then
            (Some \<lparr>mUpstreams = [\<lparr>Address = cUpstream c, Weight = 1\<rparr>], mAlgorithm = defaultAlgorithm,
               mAlgorithmKey = defaultAlgorithmKey, mMatchedSimple = True\<rparr>, m)
          else match_rules env m r repl defaultAlgorithm defaultAlgorithmKey (cRules c))"

definition Match :: "('rc, 'sc, 're) match_env \<Rightarrow> ('rc, 'sc) RuleMatcher \<Rightarrow> http_request \<Rightarrow>
    replacer \<Rightarrow> RouteConfig option \<Rightarrow> WeightedUpstream option \<times> ('rc, 'sc) RuleMatcher" where
  "Match env m r repl config =
     (case matcher_MatchResult env m (Some r) repl config of
        (None, m') \<Rightarrow> (None, m')
      | (Some res, m') \<Rightarrow> selectUpstream env m' r (mUpstreams res) (mAlgorithm res) (mAlgorithmKey res))"

subsection \<open>What the caches hold\<close>

definition cond_holds :: "('rc, 'sc, 're) match_env \<Rightarrow> (string \<Rightarrow> string) \<Rightarrow> string \<times> string \<Rightarrow> bool" where
  "cond_holds env resolve pe =
     (if HasPrefix (snd pe) ''~''
      then (case re_compile env (TrimPrefix (snd pe) ''~'') of
              Inl e \<Rightarrow> False | Inr x \<Rightarrow> re_match env x (resolve (fst pe)))
      else resolve (fst pe) = snd pe)"

definition rule_holds :: "('rc, 'sc, 're) match_env \<Rightarrow> http_request option \<Rightarrow> replacer \<Rightarrow> Rule \<Rightarrow> bool" where
  "rule_holds env r repl rule \<longleftrightarrow> list_all (cond_holds env (resolvePlaceholder r repl)) (rMatch rule)"

definition regex_sound :: "('rc, 'sc, 're) match_env \<Rightarrow> ('rc \<Rightarrow> bool) \<Rightarrow> ('rc, 'sc) RuleMatcher \<Rightarrow> bool" where
  "regex_sound env rok m \<longleftrightarrow> (\<forall>c. regexCache m = Some c \<longrightarrow>
     rok c \<and> (\<forall>k x. lru_peek (regex_lru env) c k = Some x \<longrightarrow> re_compile env k = Inr x))"

definition selectors_sound :: "('rc, 'sc, 're) match_env \<Rightarrow> ('sc \<Rightarrow> bool) \<Rightarrow> ('rc, 'sc) RuleMatcher \<Rightarrow> bool" where
  "selectors_sound env sok m \<longleftrightarrow> (\<forall>s \<in> set (selectors m). sel_inv (select_env env) s) \<and>
     (\<forall>c. selectorCache m = Some c \<longrightarrow> sok c \<and>
        (\<forall>k p. lru_peek (selector_lru env) c k = Some p \<longrightarrow> p < length (selectors m) \<and>
           k = selector_key (sAlgorithm (selectors m ! p)) (sHashKey (selectors m ! p))))"

definition rm_inv :: "('rc, 'sc, 're) match_env \<Rightarrow> ('rc \<Rightarrow> bool) \<Rightarrow> ('sc \<Rightarrow> bool) \<Rightarrow> ('rc, 'sc) RuleMatcher \<Rightarrow> bool" where
  "rm_inv env rok sok m \<longleftrightarrow> regex_sound env rok m \<and> selectors_sound env sok m"

lemma exact_pass_result:
  "exact_pass resolve acc cs =
     (if \<forall>c \<in> set cs. HasPrefix (snd c) ''~'' \<or> resolve (fst c) = snd c
      then Some (acc @ filter (\<lambda>c. HasPrefix (snd c) ''~'') cs) else None)"
  by (induction resolve acc cs rule: exact_pass.induct) auto

lemma selector_key_inj:
  "CHR '':'' \<notin> set a \<Longrightarrow> CHR '':'' \<notin> set b \<Longrightarrow> selector_key a k = selector_key b l \<Longrightarrow> a = b \<and> k = l"
proof (induction a arbitrary: b)
  case Nil
  then show ?case by (cases b) (auto simp: selector_key_def)
next
  case (Cons c a)
  then show ?case by (cases b) (auto simp: selector_key_def)
qed

locale rule_matcher = rx: lru "regex_lru env" rcap rok + sx: lru "selector_lru env" scap sok
  for env :: "('rc, 'sc, 're) match_env" and rcap rok scap sok
begin

lemma new_inv [inv_intros]: "rm_inv env rok sok (NewRuleMatcherWithCacheSizes env n k)"
  by (auto simp: rm_inv_def regex_sound_def selectors_sound_def NewRuleMatcherWithCacheSizes_def Let_def
      rx.new_ok sx.new_ok rx.new_peek sx.new_peek)

lemma getRegex_props:
  assumes sound: "regex_sound env rok m"
  shows "fst (getRegex env m p) = re_compile env p \<and> regex_sound env rok (snd (getRegex env m p))"
proof (cases "regexCache m")
  case None
  then show ?thesis using sound by (simp add: getRegex_def)
next
  case (Some c)
  have okc: "rok c" and kept: "\<And>k x. lru_peek (regex_lru env) c k = Some x \<Longrightarrow> re_compile env k = Inr x"
    using sound Some by (simp_all add: regex_sound_def)
  obtain v c' where g: "lru_get (regex_lru env) c p = (v, c')" by fastforce
  note c' = rx.get_pair[OF g okc]
  show ?thesis
  proof (cases v)
    case (Some x)
    then show ?thesis
      using g c' kept \<open>regexCache m = Some c\<close> by (simp add: getRegex_def regex_sound_def)
  next
    case None
    show ?thesis
    proof (cases "re_compile env p")
      case (Inl e)
      then show ?thesis
        using g c' kept None \<open>regexCache m = Some c\<close> by (simp add: getRegex_def regex_sound_def)
    next
      case (Inr x)
      have "re_compile env k = Inr y" if "lru_peek (regex_lru env) (lru_add (regex_lru env) c' p x) k = Some y" for k y
        using rx.add_sub[OF _ that] c' kept Inr by auto
      then show ?thesis
        using g c' None Inr \<open>regexCache m = Some c\<close> by (simp add: getRegex_def regex_sound_def rx.add_ok)
    qed
  qed
qed

lemma getRegex_frame [simp]:
  "selectors (snd (getRegex env m p)) = selectors m \<and> selectorCache (snd (getRegex env m p)) = selectorCache m"
  by (simp add: getRegex_def Let_def split: option.splits prod.splits sum.splits)

lemma matchRegex_props:
  assumes "regex_sound env rok m" and "matchRegex env m a e = (b, m')"
  shows "b = (case re_compile env (TrimPrefix e ''~'') of Inl e \<Rightarrow> False | Inr x \<Rightarrow> re_match env x a) \<and>
    regex_sound env rok m' \<and> selectors m' = selectors m \<and> selectorCache m' = selectorCache m"
proof -
  obtain re m1 where g: "getRegex env m (TrimPrefix e ''~'') = (re, m1)" by fastforce
  then show ?thesis
    using assms(2) getRegex_props[OF assms(1), of "TrimPrefix e ''~''"]
      getRegex_frame[of m "TrimPrefix e ''~''"]
    by (auto simp: matchRegex_def Let_def split: sum.splits)
qed

lemma regex_pass_props:
  assumes "regex_sound env rok m" and "\<forall>c \<in> set cs. HasPrefix (snd c) ''~''"
    and "regex_pass env resolve m cs = (b, m')"
  shows "b = list_all (cond_holds env resolve) cs \<and>
    regex_sound env rok m' \<and> selectors m' = selectors m \<and> selectorCache m' = selectorCache m"
  using assms
proof (induction cs arbitrary: m)
  case Nil
  then show ?case by simp
next
  case (Cons c cs)
  obtain p e where c: "c = (p, e)" by (cases c)
  obtain b1 m1 where g: "matchRegex env m (resolve p) e = (b1, m1)" by fastforce
  have pre: "HasPrefix e ''~''" using Cons.prems(2) c by simp
  note props = matchRegex_props[OF Cons.prems(1) g]
  have b1: "b1 = cond_holds env resolve c"
    using props pre by (simp add: cond_holds_def c split: sum.splits)
  show ?case
  proof (cases b1)
    case True
    then have "regex_pass env resolve m1 cs = (b, m')" using Cons.prems(3) g c by simp
    then show ?thesis using Cons.IH[of m1] Cons.prems(2) props b1 True by simp
  next
    case False
    then show ?thesis using Cons.prems(3) g c props b1 by simp
  qed
qed

lemma matchConditions_props:
  assumes "regex_sound env rok m" and "matchConditions env m r repl cs = (b, m')"
  shows "b = list_all (cond_holds env (resolvePlaceholder r repl)) cs \<and>
    regex_sound env rok m' \<and> selectors m' = selectors m \<and> selectorCache m' = selectorCache m"
proof (cases "\<forall>c \<in> set cs. HasPrefix (snd c) ''~'' \<or> resolvePlaceholder r repl (fst c) = snd c")
  case True
  let ?rs = "filter (\<lambda>c. HasPrefix (snd c) ''~'') cs"
  have "regex_pass env (resolvePlaceholder r repl) m ?rs = (b, m')"
    using assms(2) True by (auto simp: matchConditions_def exact_pass_result split: if_splits)
  from regex_pass_props[OF assms(1) _ this]
  have "b = list_all (cond_holds env (resolvePlaceholder r repl)) ?rs \<and>
    regex_sound env rok m' \<and> selectors m' = selectors m \<and> selectorCache m' = selectorCache m" by simp
  moreover have "list_all (cond_holds env (resolvePlaceholder r repl)) ?rs =
      list_all (cond_holds env (resolvePlaceholder r repl)) cs"
    using True by (auto simp: list_all_iff cond_holds_def)
  ultimately show ?thesis by simp
next
  case False
  then have "cs \<noteq> []" and "\<not> list_all (cond_holds env (resolvePlaceholder r repl)) cs"
    by (auto simp: list_all_iff cond_holds_def)
  then show ?thesis
    using assms False by (simp add: matchConditions_def exact_pass_result)
qed

lemma match_rules_props:
  assumes "regex_sound env rok m" and "match_rules env m r repl da dk rules = (res, m')"
  shows "res = map_option (\<lambda>rule. \<lparr>mUpstreams = rUpstreams rule,
             mAlgorithm = (if rAlgorithm rule = [] then da else rAlgorithm rule),
             mAlgorithmKey = (if rAlgorithmKey rule = [] then dk else rAlgorithmKey rule),
             mMatchedSimple = False\<rparr>) (List.find (rule_holds env r repl) rules) \<and>
    regex_sound env rok m' \<and> selectors m' = selectors m \<and> selectorCache m' = selectorCache m"
  using assms
proof (induction rules arbitrary: m)
  case Nil
  then show ?case by simp
next
  case (Cons rule rules)
  obtain b m1 where g: "matchConditions env m r repl (rMatch rule) = (b, m1)" by fastforce
  note props = matchConditions_props[OF Cons.prems(1) g]
  show ?case
  proof (cases b)
    case True
    then show ?thesis using Cons.prems(2) g props by (auto simp: rule_holds_def)
  next
    case False
    then have "match_rules env m1 r repl da dk rules = (res, m')" using Cons.prems(2) g by simp
    then show ?thesis using Cons.IH[of m1] props False by (simp add: rule_holds_def)
  qed
qed

lemma MatchResult_props:
  assumes "regex_sound env rok m" and "matcher_MatchResult env m r repl (Some c) = (res, m')"
  shows "res = (let da = (if cAlgorithm c = [] then ''weighted_random'' else cAlgorithm c) in
      if cUpstream c \<noteq> [] \<and> cRules c = [] then
        Some \<lparr>mUpstreams = [\<lparr>Address = cUpstream c, Weight = 1\<rparr>], mAlgorithm = da,
               mAlgorithmKey = cAlgorithmKey c, mMatchedSimple = True\<rparr>
      else map_option (\<lambda>rule. \<lparr>mUpstreams = rUpstreams rule,
             mAlgorithm = (if rAlgorithm rule = [] then da else rAlgorithm rule),
             mAlgorithmKey = (if rAlgorithmKey rule = [] then cAlgorithmKey c else rAlgorithmKey rule),
             mMatchedSimple = False\<rparr>) (List.find (rule_holds env r repl) (cRules c))) \<and>
    regex_sound env rok m' \<and> selectors m' = selectors m \<and> selectorCache m' = selectorCache m"
proof (cases "cUpstream c \<noteq> [] \<and> cRules c = []")
  case True
  then show ?thesis using assms by (auto simp: matcher_MatchResult_def Let_def)
next
  case False
  then have "match_rules env m r repl (if cAlgorithm c = [] then ''weighted_random'' else cAlgorithm c)
      (cAlgorithmKey c) (cRules c) = (res, m')"
    using assms(2) by (auto simp: matcher_MatchResult_def Let_def split: if_splits)
  from match_rules_props[OF assms(1) this] False show ?thesis by (simp add: Let_def)
qed

lemma getSelector_props:
  assumes "selectors_sound env sok m" and "getSelector env m alg key = (p, m')"
  shows "p < length (selectors m') \<and> selectors_sound env sok m' \<and> regexCache m' = regexCache m \<and>
    selector_key (sAlgorithm (selectors m' ! p)) (sHashKey (selectors m' ! p)) = selector_key alg key \<and>
    take (length (selectors m)) (selectors m') = selectors m"
proof -
  let ?n = "NewUpstreamSelector alg key" and ?k = "selector_key alg key"
  have new: "sAlgorithm ?n = alg \<and> sHashKey ?n = key \<and> sel_inv (select_env env) ?n"
    by (simp add: sel_inv_new) (simp add: NewUpstreamSelector_def)
  show ?thesis
  proof (cases "selectorCache m")
    case None
    then have "p = length (selectors m)" "m' = m\<lparr>selectors := selectors m @ [?n]\<rparr>"
      using assms(2) by (simp_all add: getSelector_def)
    then show ?thesis using assms(1) None new by (simp add: selectors_sound_def)
  next
    case (Some c)
    have okc: "sok c" and kept: "\<And>k p. lru_peek (selector_lru env) c k = Some p \<Longrightarrow> p < length (selectors m) \<and>
        k = selector_key (sAlgorithm (selectors m ! p)) (sHashKey (selectors m ! p))"
      using assms(1) Some by (simp_all add: selectors_sound_def)
    obtain v c' where g: "lru_get (selector_lru env) c ?k = (v, c')" by fastforce
    note c' = sx.get_pair[OF g okc]
    show ?thesis
    proof (cases v)
      case (Some q)
      then have "p = q" "m' = m\<lparr>selectorCache := Some c'\<rparr>"
        using assms(2) g Some \<open>selectorCache m = Some c\<close> by (simp_all add: getSelector_def Let_def)
      moreover have "q < length (selectors m)"
        "?k = selector_key (sAlgorithm (selectors m ! q)) (sHashKey (selectors m ! q))"
        using kept[of ?k q] c' Some by simp_all
      ultimately show ?thesis using assms(1) c' kept by (simp add: selectors_sound_def)
    next
      case None
      let ?p = "length (selectors m)"
      have m': "p = ?p" "m' = m\<lparr>selectorCache := Some (lru_add (selector_lru env) c' ?k ?p),
          selectors := selectors m @ [?n]\<rparr>"
        using assms(2) g None \<open>selectorCache m = Some c\<close> by (auto simp: getSelector_def Let_def)
      have "q < Suc ?p \<and> k = selector_key (sAlgorithm ((selectors m @ [?n]) ! q)) (sHashKey ((selectors m @ [?n]) ! q))"
        if "lru_peek (selector_lru env) (lru_add (selector_lru env) c' ?k ?p) k = Some q" for k q
        using sx.add_sub[OF _ that] c' kept[of k q] new by (auto simp: nth_append)
      then have "selectors_sound env sok m'"
        using assms(1) c' new m' by (simp add: selectors_sound_def sx.add_ok)
      then show ?thesis using m' new by simp
    qed
  qed
qed

end

text \<open>An environment over the list caches, for any regular expression engine.\<close>

definition list_match_env :: "(string \<Rightarrow> 're res) \<Rightarrow> ('re \<Rightarrow> string \<Rightarrow> bool) \<Rightarrow> sel_env \<Rightarrow>
    ('re list_lru, nat list_lru, 're) match_env" where
  "list_match_env compile matches senv =
     \<lparr>regex_lru = list_lru_ops, selector_lru = list_lru_ops, re_compile = compile, re_match = matches,
      select_env = senv\<rparr>"

interpretation list_rm: rule_matcher "list_match_env compile matches senv" ll_cap ll_ok ll_cap ll_ok
  for compile matches senv
proof -
  show "rule_matcher (list_match_env compile matches senv) ll_cap ll_ok ll_cap ll_ok"
    by (simp add: rule_matcher_def list_match_env_def list_lru.lru_axioms)
qed

subsection \<open>Properties of the matcher\<close>

text \<open>
  C4: the matched rule is the best one. On a configuration as the parser returns it,
  \<open>MatchResult\<close> returns the upstreams of a rule whose conditions all hold and whose priority is
  the greatest among the rules whose conditions hold, with the rule's algorithm or else the
  configuration's; it returns nothing exactly when no rule holds.
\<close>

theorem match_highest_priority:
  assumes "codec_ok cd" and "rule_matcher env rcap rok scap sok" and "regex_sound env rok m"
    and "c = normalizeConfig cd c0" and "cRules c0 \<noteq> []"
    and "(res, m') = matcher_MatchResult env m r repl (Some c)"
  shows "case res of
      None \<Rightarrow> \<forall>rule \<in> set (cRules c). \<not> rule_holds env r repl rule
    | Some mr \<Rightarrow> \<exists>rule \<in> set (cRules c). rule_holds env r repl rule \<and> mUpstreams mr = rUpstreams rule \<and>
        mAlgorithm mr = (if rAlgorithm rule \<noteq> [] then rAlgorithm rule
                         else if cAlgorithm c \<noteq> [] then cAlgorithm c else ''weighted_random'') \<and>
        (\<forall>other \<in> set (cRules c). rule_holds env r repl other \<longrightarrow> rPriority other \<le> rPriority rule)"
proof -
  have sorted: "sorted_wrt (\<lambda>a b. rPriority b \<le> rPriority a) (cRules c)"
    using normalize_rules_sorted[OF assms(1)] assms(4) by simp
  have "mset (cRules c) \<noteq> {#}" using normalize_rules_mset[OF assms(1), of c0] assms(4,5) by simp
  then have ne: "cRules c \<noteq> []" by simp
  note res = rule_matcher.MatchResult_props[OF assms(2,3) assms(6)[symmetric]]
  show ?thesis
  proof (cases "List.find (rule_holds env r repl) (cRules c)")
    case None
    then have "res = None" using res ne by (simp add: Let_def)
    moreover have "\<forall>rule \<in> set (cRules c). \<not> rule_holds env r repl rule"
      using None by (simp add: find_None_iff)
    ultimately show ?thesis by simp
  next
    case (Some rule)
    then obtain us vs where split: "cRules c = us @ rule # vs" "rule_holds env r repl rule"
      "\<forall>u \<in> set us. \<not> rule_holds env r repl u"
      using find_Some_split by metis
    have "rPriority other \<le> rPriority rule" if "other \<in> set (cRules c)" "rule_holds env r repl other" for other
      using sorted that split by (auto simp: sorted_wrt_append)
    then show ?thesis
      using res ne Some split by (auto simp: Let_def)
  qed
qed

definition demo_rule :: "(string \<times> string) list \<Rightarrow> int \<Rightarrow> string \<Rightarrow> Rule" where
  "demo_rule conds p a = \<lparr>rMatch = conds, rUpstreams = [\<lparr>Address = a, Weight = 1\<rparr>], rPriority = p,
     rAlgorithm = '''', rAlgorithmKey = ''''\<rparr>"

definition demo_codec :: codec where
  "demo_codec = \<lparr>json_string = Inl, json_config = Inl, yaml_config = Inl,
     sort_rules = insertion_sort priority_less\<rparr>"

lemma demo_codec_ok: "codec_ok demo_codec"
  by (simp add: codec_ok_def demo_codec_def slice_sort_ok_desc)

abbreviation demo_match_env :: "(string list_lru, nat list_lru, string) match_env" where
  "demo_match_env \<equiv> list_match_env Inr (=) demo_env"

lemma demo_rm: "rule_matcher demo_match_env ll_cap ll_ok ll_cap ll_ok"
  by (rule list_rm.rule_matcher_axioms)

lemma demo_rm_inv: "rm_inv demo_match_env ll_ok ll_ok (NewRuleMatcher demo_match_env)"
  unfolding NewRuleMatcher_def by (rule list_rm.new_inv)

lemma demo_rm_sound: "regex_sound demo_match_env ll_ok (NewRuleMatcher demo_match_env)"
  using demo_rm_inv by (simp add: rm_inv_def)

theorem match_highest_priority_witness:
  "case fst (matcher_MatchResult demo_match_env (NewRuleMatcher demo_match_env) None None
     (Some (normalizeConfig demo_codec (empty_config\<lparr>cRules := [demo_rule [] 1 ''a'']\<rparr>)))) of
     None \<Rightarrow> False | Some mr \<Rightarrow> mUpstreams mr = [\<lparr>Address = ''a'', Weight = 1\<rparr>]"
  using match_highest_priority[OF demo_codec_ok demo_rm demo_rm_sound refl _ surjective_pairing[symmetric],
      where ?c0.0 = "empty_config\<lparr>cRules := [demo_rule [] 1 ''a'']\<rparr>" and r = None and repl = None]
  by (simp add: normalizeConfig_def demo_codec_def demo_rule_def default_weight_def rule_holds_def split: option.splits)

text \<open>
  C23: the conditions of a rule are a conjunction. The answer of \<open>matchConditions\<close> does not
  depend on the random order in which the loop visits the map, on the split into two passes,
  or on what the regular expression cache holds, and it leaves a sound cache.
\<close>

theorem match_conditions_conjunction:
  assumes "rule_matcher env rcap rok scap sok" and "regex_sound env rok m"
    and "mset conds = mset conditions"
  shows "fst (matchConditions env m r repl conds) =
      (\<forall>c \<in> set conditions. cond_holds env (resolvePlaceholder r repl) c) \<and>
    regex_sound env rok (snd (matchConditions env m r repl conds))"
  using rule_matcher.matchConditions_props[OF assms(1,2) surjective_pairing, where r = r and repl = repl and cs = conds]
    mset_eq_setD[OF assms(3)]
  by (simp add: list_all_iff)

theorem match_conditions_conjunction_witness:
  "fst (matchConditions demo_match_env (NewRuleMatcher demo_match_env) (Some demo_request) None
     [(''{http.request.method}'', ''GET''), (''http.request.host'', ''~h'')])"
  using match_conditions_conjunction[OF demo_rm demo_rm_sound, where r = "Some demo_request" and repl = None
      and conds = "[(''{http.request.method}'', ''GET''), (''http.request.host'', ''~h'')]"
      and conditions = "[(''{http.request.method}'', ''GET''), (''http.request.host'', ''~h'')]"]
  by (simp add: cond_holds_def resolvePlaceholder_def demo_request_def Trim_def list_match_env_def
      TrimPrefix_def HasPrefix_def)

lemma Select_alg:
  "sAlgorithm (snd (Select env s r ups)) = sAlgorithm s \<and> sHashKey (snd (Select env s r ups)) = sHashKey s"
  by (auto simp: Select_def selectRoundRobin_def selectWeightedRoundRobin_def selectConsistentHash_def
      initWeightedRoundRobin_def Let_def split: list.splits prod.splits)

lemma selectUpstream_in:
  assumes "rule_matcher env rcap rok scap sok" and "rm_inv env rok sok m" and "env_ok (select_env env)"
    and "ups \<noteq> []" and "int_ok (int (length ups) * sum_list (weights ups))"
    and "\<forall>s \<in> set (selectors m). ring_faithful s ups"
    and "(u, m') = selectUpstream env m r ups algorithm key"
  shows "(\<exists>v \<in> set ups. u = Some v) \<and> rm_inv env rok sok m'"
proof (cases "2 \<le> length ups")
  case False
  then obtain v where "ups = [v]" using assms(4) by (cases ups; cases "tl ups") auto
  then show ?thesis using assms(2,7) by (simp add: selectUpstream_def)
next
  case True
  have rs: "regex_sound env rok m" and ss: "selectors_sound env sok m" using assms(2) by (simp_all add: rm_inv_def)
  obtain p m1 where g: "getSelector env m algorithm key = (p, m1)" by fastforce
  note m1 = rule_matcher.getSelector_props[OF assms(1) ss g]
  have new: "ring_faithful (NewUpstreamSelector algorithm key) ups"
    by (simp add: ring_faithful_def NewUpstreamSelector_def)
  have pin: "selectors m1 ! p \<in> set (selectors m1)" using m1 by simp
  have sub: "set (selectors m1) \<subseteq> insert (NewUpstreamSelector algorithm key) (set (selectors m))"
    using g by (auto simp: getSelector_def Let_def split: option.splits prod.splits)
  have faithful: "ring_faithful (selectors m1 ! p) ups" using assms(6) new subsetD[OF sub pin] by auto
  obtain w s where sel: "Select (select_env env) (selectors m1 ! p) r ups = (w, s)" by fastforce
  have inv: "sel_inv (select_env env) (selectors m1 ! p)" using m1 by (simp add: selectors_sound_def)
  note out = select_returns_any[OF assms(3) inv assms(4) faithful assms(5) sel]
  have alg: "sAlgorithm s = sAlgorithm (selectors m1 ! p) \<and> sHashKey s = sHashKey (selectors m1 ! p)"
    using Select_alg[of "select_env env" "selectors m1 ! p" r ups] sel by simp
  have m': "u = w" "m' = m1\<lparr>selectors := (selectors m1)[p := s]\<rparr>"
    using assms(7) g sel True by (cases ups; cases "tl ups"; simp add: selectUpstream_def)+
  have "selectors_sound env sok m'"
    unfolding selectors_sound_def m'
    using m1 out alg by (auto simp: selectors_sound_def nth_list_update dest!: set_update_subset_insert[THEN subsetD])
  then show ?thesis
    using m1 rs out m' by (simp add: rm_inv_def regex_sound_def)
qed



subsection \<open>Shared selectors\<close>

definition restart_pick :: "WeightedUpstream list \<Rightarrow> nat \<times> int list" where
  "restart_pick ups =
     (let (cur, tot, m) = wrr_scan 0 (map (\<lambda>_. 0) ups) (weights ups) 0 0 (map (\<lambda>_. 0) ups ! 0)
      in (m, cur[m := wrap64 (cur ! m - tot)]))"

lemma Select_restart:
  assumes "2 \<le> length ups" and "sAlgorithm s = ''weighted_round_robin''" and "wrrUpstreams s \<noteq> ups"
  shows "Select env s r ups = (Some (ups ! fst (restart_pick ups)), wrr_set s ups (snd (restart_pick ups)))"
  using assms(2,3)
  by (simp add: Select_many[OF assms(1)] selectWeightedRoundRobin_def wrrUpstreamsMatch_iff
      initWeightedRoundRobin_def restart_pick_def wrr_set_def Let_def split: prod.splits)

text \<open>
  Smooth weighted round robin keeps its state for one list of upstreams only. A selector
  that two routes share (same algorithm and key) and that serves them alternately starts a
  fresh cycle on every call, so each route is always given the same first pick.
\<close>

theorem shared_wrr_selector_restarts:
  assumes "2 \<le> length a" and "2 \<le> length b" and "a \<noteq> b" and "sAlgorithm s = ''weighted_round_robin''"
    and "wrrUpstreams s \<noteq> a"
  shows "let (u1, s1) = Select env s r a; (_, s2) = Select env s1 r' b; (u2, s3) = Select env s2 r a
    in u2 = u1 \<and> s3 = s1"
proof -
  let ?a = "wrr_set s a (snd (restart_pick a))" and ?b = "wrr_set s b (snd (restart_pick b))"
  have "Select env s r a = (Some (a ! fst (restart_pick a)), ?a)"
    using Select_restart[OF assms(1,4,5)] .
  moreover have "Select env ?a r' b = (Some (b ! fst (restart_pick b)), ?b)"
    using Select_restart[OF assms(2), of ?a] assms(3,4) by simp
  moreover have "Select env ?b r a = (Some (a ! fst (restart_pick a)), ?a)"
    using Select_restart[OF assms(1), of ?b] assms(3,4) by simp
  ultimately show ?thesis by simp
qed

theorem shared_wrr_selector_restarts_witness:
  "let s = NewUpstreamSelector ''weighted_round_robin'' ''''; a = [up ''a'' 1, up ''b'' 1]; b = [up ''c'' 1, up ''d'' 1];
       (u1, s1) = Select demo_env s demo_request a; (_, s2) = Select demo_env s1 demo_request b
   in fst (Select demo_env s2 demo_request a) = u1"
  using shared_wrr_selector_restarts[where a = "[up ''a'' 1, up ''b'' 1]" and b = "[up ''c'' 1, up ''d'' 1]" and
      s = "NewUpstreamSelector ''weighted_round_robin'' ''''" and env = demo_env and r = demo_request and r' = demo_request]
  by (auto simp: NewUpstreamSelector_def Let_def split: prod.splits)

end
