(* ===== verification/Extractor.thy ===== *)
theory Extractor
  imports GoStrings
begin

section \<open>Key extraction: extractor/extractor.go\<close>

text \<open>
  \<open>PlaceholderExtractor\<close>: the expansion of shortcut placeholders, the parser of an expression
  into literal and placeholder parts, and the extraction of a routing key. The loop of
  \<open>expandShortcuts\<close> ranges over a map, so its order is an argument. The regular expression
  \<open>\{[^}]+\}\<close> is fixed, so its leftmost matches are written out (\<open>placeholder_at\<close>,
  \<open>find_all\<close>). The replacer of the request is an argument; a nil extractor is \<open>None\<close>.
\<close>

record expressionPart =
  isPlaceholder :: bool
  pValue :: string

record PlaceholderExtractor =
  Expression :: string
  parts :: "expressionPart list"

definition shortcuts :: "(string \<times> string) list" where
  "shortcuts =
     [(''{header.'', ''{http.request.header.''),
      (''{cookie.'', ''{http.request.cookie.''),
      (''{query.'', ''{http.request.uri.query.''),
      (''{path.'', ''{http.request.uri.path.''),
      (''{path}'', ''{http.request.uri.path}''),
      (''{host}'', ''{http.request.host}''),
      (''{method}'', ''{http.request.method}''),
      (''{remote}'', ''{http.request.remote}''),
      (''{scheme}'', ''{http.request.scheme}'')]"

definition expandShortcuts :: "(string \<times> string) list \<Rightarrow> string \<Rightarrow> string" where
  "expandShortcuts order expr = foldl (\<lambda>result (shortcut, full). ReplaceAll result shortcut full) expr order"

text \<open>The length of the placeholder at the start of the string, if there is one there.\<close>

fun placeholder_at :: "string \<Rightarrow> nat option" where
  "placeholder_at [] = None"
| "placeholder_at (c # s) =
     (let body = takeWhile (\<lambda>d. d \<noteq> CHR ''}'') s in
      if c = CHR ''{'' \<and> body \<noteq> [] \<and> length body < length s then Some (length body + 2) else None)"

lemma placeholder_at_le: "placeholder_at s = Some n \<Longrightarrow> 3 \<le> n \<and> n \<le> length s"
  by (cases s) (auto simp: Let_def Suc_le_eq split: if_splits)

text \<open>\<open>FindAllStringIndex\<close> from the position \<open>pos\<close> of the expression on.\<close>

function find_all :: "string \<Rightarrow> nat \<Rightarrow> (nat \<times> nat) list" where
  "find_all [] pos = []"
| "find_all (c # s) pos =
     (case placeholder_at (c # s) of
        Some n \<Rightarrow> (pos, pos + n) # find_all (drop n (c # s)) (pos + n)
      | None \<Rightarrow> find_all s (Suc pos))"
  by pat_completeness auto
termination
  by (relation "measure (\<lambda>(s, _). length s)") (auto dest!: placeholder_at_le simp del: placeholder_at.simps)

fun parse_matches :: "string \<Rightarrow> nat \<Rightarrow> (nat \<times> nat) list \<Rightarrow> expressionPart list" where
  "parse_matches expr lastEnd [] =
     (if lastEnd < length expr then [\<lparr>isPlaceholder = False, pValue = drop lastEnd expr\<rparr>] else [])"
| "parse_matches expr lastEnd ((a, b) # matches) =
     (if lastEnd < a then [\<lparr>isPlaceholder = False, pValue = take (a - lastEnd) (drop lastEnd expr)\<rparr>] else [])
     @ \<lparr>isPlaceholder = True, pValue = take (b - a) (drop a expr)\<rparr> # parse_matches expr b matches"

definition parseExpression :: "string \<Rightarrow> expressionPart list" where
  "parseExpression expr = parse_matches expr 0 (find_all expr 0)"

definition NewFromExpression :: "(string \<times> string) list \<Rightarrow> string \<Rightarrow> PlaceholderExtractor option" where
  "NewFromExpression order expr =
     (if expr = [] then None
      else let expanded = expandShortcuts order expr in
        Some \<lparr>Expression = expanded, parts = parseExpression expanded\<rparr>)"

fun extract_parts :: "(string \<Rightarrow> string option) \<Rightarrow> string \<Rightarrow> expressionPart list \<Rightarrow> string" where
  "extract_parts repl result [] = result"
| "extract_parts repl result (part # ps) =
     (if isPlaceholder part then
        (case repl (Trim (pValue part) ''{}'') of
           None \<Rightarrow> ''''
         | Some val \<Rightarrow> if val = [] then '''' else extract_parts repl (result @ val) ps)
      else extract_parts repl (result @ pValue part) ps)"

definition Extract :: "PlaceholderExtractor \<Rightarrow> (string \<Rightarrow> string option) option \<Rightarrow> string" where
  "Extract e repl =
     (case repl of
        None \<Rightarrow> ''''
      | Some f \<Rightarrow> if parts e = [] then '''' else extract_parts f '''' (parts e))"

definition String :: "PlaceholderExtractor \<Rightarrow> string" where
  "String e = Expression e"

subsection \<open>The parts are the expression\<close>

fun matches_ok :: "nat \<Rightarrow> nat \<Rightarrow> (nat \<times> nat) list \<Rightarrow> bool" where
  "matches_ok lo hi [] \<longleftrightarrow> lo \<le> hi"
| "matches_ok lo hi ((a, b) # ms) \<longleftrightarrow> lo \<le> a \<and> a < b \<and> matches_ok b hi ms"

lemma matches_ok_le: "matches_ok lo hi ms \<Longrightarrow> lo \<le> hi"
  by (induction lo hi ms rule: matches_ok.induct) auto

lemma matches_ok_weaken: "matches_ok lo hi ms \<Longrightarrow> lo' \<le> lo \<Longrightarrow> matches_ok lo' hi ms"
  by (cases ms) auto

lemma find_all_ok: "matches_ok pos (pos + length s) (find_all s pos)"
proof (induction s pos rule: find_all.induct)
  case (1 pos)
  then show ?case by simp
next
  case (2 c s pos)
  show ?case
  proof (cases "placeholder_at (c # s)")
    case None
    then show ?thesis using 2(1)[OF None] by (auto intro: matches_ok_weaken simp del: placeholder_at.simps)
  next
    case (Some n)
    then show ?thesis
      using 2(2)[OF Some] placeholder_at_le[OF Some] by (simp del: placeholder_at.simps)
  qed
qed

lemma parse_matches_concat:
  "matches_ok lo (length expr) ms \<Longrightarrow> concat (map pValue (parse_matches expr lo ms)) = drop lo expr"
proof (induction expr lo ms rule: parse_matches.induct)
  case (1 expr lo)
  then show ?case by simp
next
  case (2 expr lo a b ms)
  then have le: "lo \<le> a" "a < b" "b \<le> length expr" and ok: "matches_ok b (length expr) ms"
    by (auto dest: matches_ok_le)
  have "take (a - lo) (drop lo expr) @ take (b - a) (drop a expr) @ drop b expr = drop lo expr"
    using le by (metis append_take_drop_id drop_drop le_add_diff_inverse2 less_imp_le)
  then show ?case using "2.IH"[OF ok] le by auto
qed

lemma parse_concat: "concat (map pValue (parseExpression expr)) = expr"
  using parse_matches_concat[of 0 expr "find_all expr 0"] find_all_ok[of 0 expr]
  by (simp add: parseExpression_def)

subsection \<open>The order of the shortcuts does not matter\<close>

text \<open>
  Every shortcut and every full form starts with a brace and has no other. Seen as the pieces
  between braces, one replacement rewrites a prefix of each piece (\<open>rep1\<close>).
\<close>

definition join_braces :: "string list \<Rightarrow> string" where
  "join_braces ps = hd ps @ concat (map (\<lambda>p. CHR ''{'' # p) (tl ps))"

definition rep1 :: "string \<times> string \<Rightarrow> string \<Rightarrow> string" where
  "rep1 pf q = (if HasPrefix q (fst pf) then snd pf @ drop (length (fst pf)) q else q)"

lemma Split_join: "join_braces (Split s (CHR ''{'')) = s"
proof (induction s)
  case Nil
  then show ?case by (simp add: join_braces_def)
next
  case (Cons d s)
  then show ?case by (cases "Split s (CHR ''{'')") (auto simp: join_braces_def)
qed

lemma Split_of_join:
  "ps \<noteq> [] \<Longrightarrow> \<forall>p \<in> set ps. CHR ''{'' \<notin> set p \<Longrightarrow> Split (join_braces ps) (CHR ''{'') = ps"
proof (induction ps)
  case Nil
  then show ?case by simp
next
  case (Cons p ps)
  show ?case
  proof (cases ps)
    case Nil
    then show ?thesis using Cons.prems by (simp add: join_braces_def Split_no_sep)
  next
    case (Cons q qs)
    then have "join_braces (p # ps) = p @ CHR ''{'' # join_braces ps" by (simp add: join_braces_def)
    then show ?thesis using Cons.IH Cons.prems Cons by (simp add: Split_append_sep)
  qed
qed

lemma ReplaceAll_pieces:
  assumes "\<forall>q \<in> set qs. CHR ''{'' \<notin> set q" and brace: "CHR ''{'' \<notin> set p"
  shows "ReplaceAll (concat (map (\<lambda>q. CHR ''{'' # q) qs)) (CHR ''{'' # p) (CHR ''{'' # f) =
    concat (map (\<lambda>q. CHR ''{'' # rep1 (p, f) q) qs)"
  using assms(1)
proof (induction qs)
  case Nil
  then show ?case by simp
next
  case (Cons q qs)
  let ?rest = "concat (map (\<lambda>q. CHR ''{'' # q) qs)"
  have q: "CHR ''{'' \<notin> set q" and IH: "ReplaceAll ?rest (CHR ''{'' # p) (CHR ''{'' # f) =
      concat (map (\<lambda>q. CHR ''{'' # rep1 (p, f) q) qs)" using Cons by simp_all
  show ?case
  proof (cases "HasPrefix q p")
    case True
    then obtain t where t: "q = p @ t" by (auto simp: HasPrefix_iff)
    then have "CHR ''{'' \<notin> set t" using q by simp
    then have "ReplaceAll ((CHR ''{'' # p) @ t @ ?rest) (CHR ''{'' # p) (CHR ''{'' # f) =
        (CHR ''{'' # f) @ t @ ReplaceAll ?rest (CHR ''{'' # p) (CHR ''{'' # f)"
      by (simp only: ReplaceAll_hit list.distinct ReplaceAll_skip not_False_eq_True)
    then show ?thesis using IH t by (simp add: rep1_def)
  next
    case False
    have "\<not> HasPrefix (q @ ?rest) p"
    proof
      assume "HasPrefix (q @ ?rest) p"
      then obtain t where t: "q @ ?rest = p @ t" by (auto simp: HasPrefix_iff)
      with False obtain u where u: "p = q @ u" "?rest = u @ t" "u \<noteq> []"
        by (auto simp: append_eq_append_conv2 HasPrefix_iff)
      then have "hd u = CHR ''{''" by (cases qs; cases u) auto
      then have "CHR ''{'' \<in> set p" using u by (cases u) auto
      with brace show False by simp
    qed
    then have "ReplaceAll (CHR ''{'' # q @ ?rest) (CHR ''{'' # p) (CHR ''{'' # f) =
        CHR ''{'' # q @ ReplaceAll ?rest (CHR ''{'' # p) (CHR ''{'' # f)"
      using q by (simp add: ReplaceAll_miss ReplaceAll_skip)
    then show ?thesis using IH False by (simp add: rep1_def)
  qed
qed

lemma ReplaceAll_Split:
  assumes "CHR ''{'' \<notin> set p" and "CHR ''{'' \<notin> set f"
  shows "Split (ReplaceAll s (CHR ''{'' # p) (CHR ''{'' # f)) (CHR ''{'') =
    hd (Split s (CHR ''{'')) # map (rep1 (p, f)) (tl (Split s (CHR ''{'')))"
proof -
  let ?ps = "Split s (CHR ''{'')"
  have nob: "\<forall>q \<in> set ?ps. CHR ''{'' \<notin> set q" using Split_pieces_no_sep by blast
  obtain h qs where ps: "?ps = h # qs" by (cases ?ps) auto
  have "ReplaceAll s (CHR ''{'' # p) (CHR ''{'' # f) =
      ReplaceAll (h @ concat (map (\<lambda>q. CHR ''{'' # q) qs)) (CHR ''{'' # p) (CHR ''{'' # f)"
    using Split_join[of s] ps by (simp add: join_braces_def)
  also have "\<dots> = h @ concat (map (\<lambda>q. CHR ''{'' # rep1 (p, f) q) qs)"
    using nob ps ReplaceAll_pieces[OF _ assms(1), of qs f] by (simp add: ReplaceAll_skip)
  also have "\<dots> = join_braces (h # map (rep1 (p, f)) qs)" by (simp add: join_braces_def comp_def)
  finally have out: "ReplaceAll s (CHR ''{'' # p) (CHR ''{'' # f) = join_braces (h # map (rep1 (p, f)) qs)" .
  have "\<forall>q \<in> set (h # map (rep1 (p, f)) qs). CHR ''{'' \<notin> set q"
    using nob ps assms by (auto simp: rep1_def) (metis in_set_dropD)
  from Split_of_join[OF _ this] show ?thesis by (simp add: out ps)
qed

definition apart :: "string \<Rightarrow> string \<Rightarrow> bool" where
  "apart a b \<longleftrightarrow> \<not> HasPrefix a b \<and> \<not> HasPrefix b a"

lemma apart_prefix: "apart a b \<Longrightarrow> HasPrefix q a \<Longrightarrow> \<not> HasPrefix q b"
  by (auto simp: apart_def HasPrefix_iff append_eq_append_conv2)

text \<open>The rules without their braces, pairwise apart, and apart from every full form.\<close>

definition rules_ok :: "(string \<times> string) list \<Rightarrow> bool" where
  "rules_ok R \<longleftrightarrow> (\<forall>a \<in> set R. \<forall>b \<in> set R. (a \<noteq> b \<longrightarrow> apart (fst a) (fst b)) \<and> apart (snd a) (fst b))"


lemma fold_rep1_none: "\<forall>a \<in> set R. \<not> HasPrefix q (fst a) \<Longrightarrow> foldl (\<lambda>q a. rep1 a q) q R = q"
  by (induction R) (auto simp: rep1_def)

lemma rep1_after:
  "rules_ok R \<Longrightarrow> a \<in> set R \<Longrightarrow> HasPrefix q (fst a) \<Longrightarrow> b \<in> set R \<Longrightarrow> \<not> HasPrefix (rep1 a q) (fst b)"
  by (rule apart_prefix[of "snd a"]) (auto simp: rules_ok_def rep1_def)

lemma fold_rep1_some:
  assumes "rules_ok R" and "a \<in> set R" and "HasPrefix q (fst a)" and "distinct R"
  shows "foldl (\<lambda>q a. rep1 a q) q R = rep1 a q"
proof -
  obtain us vs where R: "R = us @ a # vs" "a \<notin> set us" using assms(2) by (metis split_list_first)
  have "\<forall>b \<in> set us. \<not> HasPrefix q (fst b)"
  proof
    fix b assume "b \<in> set us"
    then have "apart (fst a) (fst b)" using assms(1,2) R by (auto simp: rules_ok_def)
    then show "\<not> HasPrefix q (fst b)" by (rule apart_prefix[OF _ assms(3)])
  qed
  moreover have "\<forall>b \<in> set vs. \<not> HasPrefix (rep1 a q) (fst b)"
    using rep1_after[OF assms(1,2,3)] R by simp
  ultimately show ?thesis by (simp add: R fold_rep1_none)
qed

lemma fold_rep1_perm:
  assumes "rules_ok R" and "distinct R" and "mset R = mset R'"
  shows "foldl (\<lambda>q a. rep1 a q) q R = foldl (\<lambda>q a. rep1 a q) q R'"
proof -
  have set: "set R = set R'" and dist: "distinct R'"
    using assms(2,3) mset_eq_setD mset_eq_imp_distinct_iff by blast+
  have ok: "rules_ok R'" using assms(1) set by (simp add: rules_ok_def)
  show ?thesis
  proof (cases "\<exists>a \<in> set R. HasPrefix q (fst a)")
    case True
    then obtain a where a: "a \<in> set R" "HasPrefix q (fst a)" by blast
    then show ?thesis using fold_rep1_some[OF assms(1) a assms(2)] fold_rep1_some[OF ok _ a(2) dist] set by simp
  next
    case False
    then show ?thesis using fold_rep1_none[of R q] fold_rep1_none[of R' q] set by auto
  qed
qed

lemma fold_rep1_idem:
  assumes "rules_ok R" and "distinct R"
  shows "foldl (\<lambda>q a. rep1 a q) (foldl (\<lambda>q a. rep1 a q) q R) R = foldl (\<lambda>q a. rep1 a q) q R"
proof (cases "\<exists>a \<in> set R. HasPrefix q (fst a)")
  case True
  then obtain a where a: "a \<in> set R" "HasPrefix q (fst a)" by blast
  have "\<forall>b \<in> set R. \<not> HasPrefix (rep1 a q) (fst b)" using rep1_after[OF assms(1) a] by blast
  then show ?thesis using fold_rep1_some[OF assms(1) a assms(2)] by (simp add: fold_rep1_none)
next
  case False
  then show ?thesis by (simp add: fold_rep1_none)
qed

definition unbrace :: "string \<times> string \<Rightarrow> string \<times> string" where
  "unbrace a = (tl (fst a), tl (snd a))"

definition braced :: "string \<times> string \<Rightarrow> bool" where
  "braced a \<longleftrightarrow> fst a \<noteq> [] \<and> snd a \<noteq> [] \<and> hd (fst a) = CHR ''{'' \<and> hd (snd a) = CHR ''{'' \<and>
     CHR ''{'' \<notin> set (tl (fst a)) \<and> CHR ''{'' \<notin> set (tl (snd a))"

lemma expand_Split:
  assumes "\<forall>a \<in> set order. braced a"
  shows "Split (expandShortcuts order s) (CHR ''{'') =
    hd (Split s (CHR ''{'')) # map (\<lambda>q. foldl (\<lambda>q a. rep1 a q) q (map unbrace order)) (tl (Split s (CHR ''{'')))"
  using assms
proof (induction order arbitrary: s)
  case Nil
  then show ?case by (cases "Split s (CHR ''{'')") (auto simp: expandShortcuts_def)
next
  case (Cons a order)
  obtain p f where a: "a = (CHR ''{'' # p, CHR ''{'' # f)" "CHR ''{'' \<notin> set p" "CHR ''{'' \<notin> set f"
    using Cons.prems by (cases a; cases "fst a"; cases "snd a") (auto simp: braced_def)
  have "expandShortcuts (a # order) s = expandShortcuts order (ReplaceAll s (CHR ''{'' # p) (CHR ''{'' # f))"
    by (simp add: expandShortcuts_def a)
  then show ?case
    using Cons.IH[of "ReplaceAll s (CHR ''{'' # p) (CHR ''{'' # f)"] Cons.prems ReplaceAll_Split[OF a(2,3), of s]
    by (simp add: a(1) unbrace_def comp_def)
qed

lemma shortcuts_ok: "rules_ok (map unbrace shortcuts)" "distinct (map unbrace shortcuts)" "\<forall>a \<in> set shortcuts. braced a"
  by code_simp+

lemma expand_eqI:
  "Split a (CHR ''{'') = Split b (CHR ''{'') \<Longrightarrow> a = b"
  by (metis Split_join)

text \<open>
  C15: the expansion of shortcuts is well defined and stable. The result of \<open>expandShortcuts\<close>
  does not depend on the random order in which the loop visits the map of shortcuts, and
  expanding an expanded expression, in any order, changes nothing.
\<close>

theorem expand_shortcuts_canonical:
  assumes "mset order = mset shortcuts" and "mset order' = mset shortcuts"
  shows "expandShortcuts order expr = expandShortcuts order' expr \<and>
    expandShortcuts order (expandShortcuts order' expr) = expandShortcuts order' expr"
proof -
  have ok: "rules_ok (map unbrace order)" "distinct (map unbrace order)" "\<forall>a \<in> set order. braced a"
    and eq: "mset (map unbrace order) = mset (map unbrace order')"
    if "mset order = mset shortcuts" "mset order' = mset shortcuts" for order order'
  proof -
    have m: "mset (map unbrace order) = mset (map unbrace shortcuts)" using that(1) by (simp add: mset_map)
    show "rules_ok (map unbrace order)"
      using shortcuts_ok(1) mset_eq_setD[OF m] by (simp add: rules_ok_def)
    show "distinct (map unbrace order)"
      using shortcuts_ok(2) mset_eq_imp_distinct_iff[OF m] by simp
    show "\<forall>a \<in> set order. braced a" using shortcuts_ok(3) mset_eq_setD[OF that(1)] by simp
    show "mset (map unbrace order) = mset (map unbrace order')" using that by (simp add: mset_map)
  qed
  note o = ok[OF assms] and o' = ok[OF assms(2) assms(1)]
  note perm = fold_rep1_perm[OF o(1,2) eq[OF assms]]
  have "expandShortcuts order expr = expandShortcuts order' expr"
    by (rule expand_eqI) (simp add: expand_Split o(3) o'(3) perm)
  moreover have "expandShortcuts order (expandShortcuts order' expr) = expandShortcuts order' expr"
    by (rule expand_eqI) (simp add: expand_Split o(3) o'(3) perm fold_rep1_idem[OF o'(1,2)])
  ultimately show ?thesis by simp
qed

theorem expand_shortcuts_canonical_witness:
  "expandShortcuts (rev shortcuts) ''{header.X-Org}-{path}'' = expandShortcuts shortcuts ''{header.X-Org}-{path}''"
  using expand_shortcuts_canonical[of "rev shortcuts" shortcuts] by simp

subsection \<open>Extraction\<close>

definition part_value :: "(string \<Rightarrow> string option) \<Rightarrow> expressionPart \<Rightarrow> string" where
  "part_value repl p =
     (if isPlaceholder p then (case repl (Trim (pValue p) ''{}'') of Some v \<Rightarrow> v | None \<Rightarrow> []) else pValue p)"

lemma extract_parts_step:
  "extract_parts repl acc (p # ps) =
     (if isPlaceholder p \<and> part_value repl p = [] then [] else extract_parts repl (acc @ part_value repl p) ps)"
  by (auto simp: part_value_def split: option.splits)

lemma extract_parts_result:
  "extract_parts repl acc ps =
     (if \<forall>p \<in> set ps. isPlaceholder p \<longrightarrow> part_value repl p \<noteq> []
      then acc @ concat (map (part_value repl) ps) else [])"
  by (induction ps arbitrary: acc) (auto simp: extract_parts_step simp del: extract_parts.simps(2))

text \<open>
  Extraction is all or nothing. The parts of an extractor put together are its expanded
  expression, so no byte of it is lost or duplicated; and the key is the concatenation of the
  literals and the resolved placeholders when each placeholder resolves to a non-empty string,
  and empty otherwise.
\<close>

theorem extract_all_or_nothing:
  assumes "NewFromExpression order expr = Some e"
  shows "concat (map pValue (parts e)) = expandShortcuts order expr \<and>
    Extract e (Some repl) =
      (if \<forall>p \<in> set (parts e). isPlaceholder p \<longrightarrow> part_value repl p \<noteq> []
       then concat (map (part_value repl) (parts e)) else '''')"
proof -
  have e: "parts e = parseExpression (expandShortcuts order expr)"
    using assms by (auto simp: NewFromExpression_def Let_def split: if_splits)
  have "concat (map pValue (parts e)) = expandShortcuts order expr"
    by (simp only: e parse_concat)
  moreover have "Extract e (Some repl) = extract_parts repl [] (parts e)" by (simp add: Extract_def)
  ultimately show ?thesis by (simp only: extract_parts_result append_Nil)
qed

theorem extract_all_or_nothing_witness:
  "Extract (the (NewFromExpression shortcuts ''{host}/x'')) (Some (\<lambda>_. None)) = ''''"
proof -
  have new: "NewFromExpression shortcuts ''{host}/x'' =
      Some \<lparr>Expression = ''{http.request.host}/x'',
        parts = [\<lparr>isPlaceholder = True, pValue = ''{http.request.host}''\<rparr>, \<lparr>isPlaceholder = False, pValue = ''/x''\<rparr>]\<rparr>"
    by code_simp
  show ?thesis
    unfolding new option.sel using conjunct2[OF extract_all_or_nothing[OF new, of "\<lambda>_. None"]]
    by (simp add: part_value_def)
qed

end
