(* ===== verification/AdminRegistry.thy ===== *)
theory AdminRegistry
  imports RouteTypes
begin

section \<open>The registries: datasource/admin_registry.go and selection_admin_registry.go\<close>

text \<open>
  The two process-wide registries that the Admin API lists: the data sources, named by their
  type and a counter of that type, and the selection policies, named by one counter. A map is
  an association list, whose order is the order in which a loop over it meets the entries.
  Counters are \<open>uint64\<close>. A registered data source is a value of an arbitrary type; what the
  registry asks of it, its admin type and its module id, are arguments. The facts shown: names
  identify their entries for as long as no counter wraps.
\<close>

record 'd AdminEntry =
  eName :: string
  eType :: string
  eDS :: 'd

record 'd adminRegistry =
  sources :: "(string \<times> 'd AdminEntry) list"
  counters :: "string \<Rightarrow> uint64"

definition globalAdminRegistry :: "'d adminRegistry" where
  "globalAdminRegistry = \<lparr>sources = [], counters = (\<lambda>_. 0)\<rparr>"

definition moduleTypeFromID :: "string \<Rightarrow> string" where
  "moduleTypeFromID i = after_last (CHR ''.'') i"

definition source_type :: "string \<Rightarrow> string \<Rightarrow> string" where
  "source_type adminType moduleID =
     (if adminType \<noteq> [] then adminType
      else if moduleTypeFromID moduleID \<noteq> [] then moduleTypeFromID moduleID else ''unknown'')"

definition numbered :: "string \<Rightarrow> uint64 \<Rightarrow> string" where
  "numbered name n = name @ ''#'' @ itoa (int (unat n))"

definition RegisterAdminSource :: "'d adminRegistry \<Rightarrow> 'd option \<Rightarrow> string \<Rightarrow> string \<Rightarrow> string \<times> 'd adminRegistry" where
  "RegisterAdminSource g ds adminType moduleID =
     (case ds of
        None \<Rightarrow> ('''', g)
      | Some d \<Rightarrow>
          let typeName = source_type adminType moduleID;
              n = counters g typeName + 1;
              name = numbered typeName n
          in (name, g\<lparr>counters := (counters g)(typeName := n),
                sources := AList.update name \<lparr>eName = name, eType = typeName, eDS = d\<rparr> (sources g)\<rparr>))"

definition UnregisterAdminSource :: "'d adminRegistry \<Rightarrow> string \<Rightarrow> 'd adminRegistry" where
  "UnregisterAdminSource g name =
     (if name = [] then g else g\<lparr>sources := AList.delete name (sources g)\<rparr>)"

definition ListAdminEntries :: "'d adminRegistry \<Rightarrow> 'd AdminEntry list" where
  "ListAdminEntries g = map snd (sources g)"

subsection \<open>Selection policies\<close>

record SelectionPolicyInfo =
  pName :: string
  pModuleID :: string
  pKey :: string
  pInstanceKey :: string
  pVersionKey :: string
  pDataSourceType :: string
  pDataSourceModuleID :: string
  pFallbackPolicy :: string

record selectionPolicyRegistry =
  entries :: "(string \<times> SelectionPolicyInfo) list"
  counter :: uint64

definition registerSelectionPolicy ::
    "selectionPolicyRegistry \<Rightarrow> SelectionPolicyInfo \<Rightarrow> string \<times> selectionPolicyRegistry" where
  "registerSelectionPolicy g info =
     (let n = counter g + 1; name = numbered ''dynamic'' n
      in (name, g\<lparr>counter := n, entries := AList.update name (info\<lparr>pName := name\<rparr>) (entries g)\<rparr>))"

definition unregisterSelectionPolicy :: "selectionPolicyRegistry \<Rightarrow> string \<Rightarrow> selectionPolicyRegistry" where
  "unregisterSelectionPolicy g name =
     (if name = [] then g else g\<lparr>entries := AList.delete name (entries g)\<rparr>)"

text \<open>The names are distinct, so sorting by name leaves no choice to the unstable sort.\<close>

definition listSelectionPolicies :: "selectionPolicyRegistry \<Rightarrow> SelectionPolicyInfo list" where
  "listSelectionPolicies g = sort_key pName (map snd (entries g))"

subsection \<open>Names identify entries\<close>

lemma numbered_inj: "numbered a m = numbered b n \<Longrightarrow> a = b \<and> m = n"
  using numeral_suffix_inj[of a "CHR ''#''" "unat m" b "unat n"]
  by (auto simp: numbered_def is_digit_def word_unat_eq_iff)

lemma numbered_nonempty [simp]: "numbered a n \<noteq> []"
  by (simp add: numbered_def)

text \<open>
  The invariant of the registry of sources: keys are distinct, each is the name of its entry,
  and was given out by its type's counter.
\<close>

definition reg_inv :: "'d adminRegistry \<Rightarrow> bool" where
  "reg_inv g \<longleftrightarrow> distinct (map fst (sources g)) \<and>
     (\<forall>(k, e) \<in> set (sources g). \<exists>n. k = numbered (eType e) n \<and> eName e = k \<and> unat n \<le> unat (counters g (eType e)))"

lemma set_alist_update: "set (AList.update k v al) \<subseteq> insert (k, v) (set al)"
  by (induction al) auto

lemma set_alist_delete: "set (AList.delete k al) \<subseteq> set al"
  by (auto simp: AList.delete_eq)

lemma reg_inv_empty: "reg_inv globalAdminRegistry"
  by (simp add: reg_inv_def globalAdminRegistry_def)

lemma Register_fresh:
  assumes "reg_inv g" and "unat (counters g t) + 1 < 18446744073709551616"
  shows "numbered t (counters g t + 1) \<notin> fst ` set (sources g)"
proof
  assume "numbered t (counters g t + 1) \<in> fst ` set (sources g)"
  then obtain e n where "(numbered t (counters g t + 1), e) \<in> set (sources g)"
    "numbered t (counters g t + 1) = numbered (eType e) n" "unat n \<le> unat (counters g (eType e))"
    using assms(1) by (auto simp: reg_inv_def)
  then have "unat (counters g t + 1) \<le> unat (counters g t)" using numbered_inj by metis
  then show False using unat_plus_of_nat[of "counters g t" 1] assms(2) by simp
qed

lemma alist_update_fresh: "k \<notin> fst ` set al \<Longrightarrow> AList.update k v al = al @ [(k, v)]"
  by (induction al) auto

lemma alist_delete_last: "k \<notin> fst ` set al \<Longrightarrow> AList.delete k (al @ [(k, v)]) = al"
  by (induction al) (auto simp: AList.delete_eq)

lemma reg_inv_Unregister [inv_intros]: "reg_inv g \<Longrightarrow> reg_inv (UnregisterAdminSource g name)"
  using set_alist_delete by (fastforce simp: reg_inv_def UnregisterAdminSource_def intro: distinct_delete)

text \<open>
  A registered data source gets a name of its own. Until a counter wraps, the name that
  \<open>RegisterAdminSource\<close> returns is in use by no other source, whatever was registered and
  unregistered before; the new entry overwrites none, and unregistering that name removes that
  entry and nothing else.
\<close>

theorem register_unregister_roundtrip:
  assumes "reg_inv g" and "unat (counters g (source_type adminType moduleID)) + 1 < 18446744073709551616"
    and "(name, g') = RegisterAdminSource g (Some d) adminType moduleID"
  shows "name \<notin> eName ` set (ListAdminEntries g) \<and> reg_inv g' \<and>
    ListAdminEntries g' = ListAdminEntries g @ [\<lparr>eName = name, eType = source_type adminType moduleID, eDS = d\<rparr>] \<and>
    ListAdminEntries (UnregisterAdminSource g' name) = ListAdminEntries g"
proof -
  let ?t = "source_type adminType moduleID"
  let ?n = "counters g ?t + 1"
  let ?e = "\<lparr>eName = numbered ?t ?n, eType = ?t, eDS = d\<rparr>"
  have fresh: "numbered ?t ?n \<notin> fst ` set (sources g)" by (rule Register_fresh[OF assms(1,2)])
  have name: "name = numbered ?t ?n"
    and g': "g' = g\<lparr>counters := (counters g)(?t := ?n), sources := sources g @ [(numbered ?t ?n, ?e)]\<rparr>"
    using assms(3) by (simp_all add: RegisterAdminSource_def Let_def alist_update_fresh[OF fresh])
  have "unat n \<le> unat (((counters g)(?t := ?n)) u)" if "unat n \<le> unat (counters g u)" for n :: uint64 and u
    using that unat_plus_of_nat[of "counters g ?t" 1] assms(2) by (auto simp: fun_upd_def)
  then have "reg_inv g'"
    using assms(1) fresh unfolding g' reg_inv_def by fastforce
  moreover have "numbered ?t ?n \<notin> eName ` set (ListAdminEntries g)"
  proof -
    have "eName ` snd ` set (sources g) = fst ` set (sources g)"
      unfolding image_image using assms(1) by (intro image_cong) (auto simp: reg_inv_def)
    then show ?thesis using fresh by (simp add: ListAdminEntries_def)
  qed
  ultimately show ?thesis
    by (simp add: name g' ListAdminEntries_def UnregisterAdminSource_def alist_delete_last[OF fresh])
qed

theorem register_unregister_roundtrip_witness:
  "ListAdminEntries (UnregisterAdminSource (snd (RegisterAdminSource globalAdminRegistry (Some ()) ''etcd'' ''''))
     (fst (RegisterAdminSource globalAdminRegistry (Some ()) ''etcd'' ''''))) = []"
  using register_unregister_roundtrip[OF reg_inv_empty _ surjective_pairing[symmetric],
      where adminType = "''etcd''" and moduleID = "''''" and d = "()"]
  by (simp add: globalAdminRegistry_def ListAdminEntries_def)

end
