(* ===== verification/RouteCache.thy ===== *)
theory RouteCache
  imports RouteTypes Lru Complex_Main
begin

section \<open>The route cache: datasource/cache/cache.go\<close>

text \<open>
  \<open>RouteCache\<close> is the LRU cache of configurations with a separate table of negative entries
  (keys known to be missing, each with an expiry time) and three counters. The clock is a
  parameter of the operations that read it. A stored \<open>*RouteConfig\<close> may be nil, so the values
  of the LRU are \<open>RouteConfig option\<close>. The hit rate is the rational number whose rounding the
  code returns.
\<close>

type_synonym 'c route_lru = "('c, RouteConfig option) lru_ops"

record 'c RouteCache =
  rc_cache :: 'c
  rc_maxSize :: int
  rc_negativeTTL :: duration
  rc_hits :: uint64
  rc_misses :: uint64
  rc_negativeHits :: uint64
  rc_negative :: "string \<rightharpoonup> time"

definition DefaultMaxSize :: int where
  "DefaultMaxSize = 10000"

definition DefaultNegativeTTL :: duration where
  "DefaultNegativeTTL = 30 * 1000000000"

definition NewRouteCache :: "'c route_lru \<Rightarrow> int \<Rightarrow> 'c RouteCache" where
  "NewRouteCache ops maxSize0 =
     (let maxSize = (if maxSize0 \<le> 0 then DefaultMaxSize else maxSize0) in
      \<lparr>rc_cache = lru_new ops maxSize, rc_maxSize = maxSize, rc_negativeTTL = DefaultNegativeTTL,
       rc_hits = 0, rc_misses = 0, rc_negativeHits = 0, rc_negative = Map.empty\<rparr>)"

definition rc_Get :: "'c route_lru \<Rightarrow> time \<Rightarrow> 'c RouteCache \<Rightarrow> string \<Rightarrow> RouteConfig option \<times> 'c RouteCache" where
  "rc_Get ops now c key =
     (case rc_negative c key of
        Some expiry \<Rightarrow>
          if now < expiry then
            (None, c\<lparr>rc_negativeHits := rc_negativeHits c + 1, rc_hits := rc_hits c + 1\<rparr>)
          else (let c1 = c\<lparr>rc_negative := (rc_negative c)(key := None)\<rparr> in
            case lru_get ops (rc_cache c1) key of
              (Some val, l) \<Rightarrow> (val, c1\<lparr>rc_cache := l, rc_hits := rc_hits c1 + 1\<rparr>)
            | (None, l) \<Rightarrow> (None, c1\<lparr>rc_cache := l, rc_misses := rc_misses c1 + 1\<rparr>))
      | None \<Rightarrow>
          (case lru_get ops (rc_cache c) key of
             (Some val, l) \<Rightarrow> (val, c\<lparr>rc_cache := l, rc_hits := rc_hits c + 1\<rparr>)
           | (None, l) \<Rightarrow> (None, c\<lparr>rc_cache := l, rc_misses := rc_misses c + 1\<rparr>)))"

definition rc_IsNegativeCached :: "time \<Rightarrow> 'c RouteCache \<Rightarrow> string \<Rightarrow> bool \<times> 'c RouteCache" where
  "rc_IsNegativeCached now c key =
     (case rc_negative c key of
        Some expiry \<Rightarrow>
          if now < expiry then (True, c)
          else (False, c\<lparr>rc_negative := (rc_negative c)(key := None)\<rparr>)
      | None \<Rightarrow> (False, c))"

definition rc_SetNegative :: "time \<Rightarrow> 'c RouteCache \<Rightarrow> string \<Rightarrow> 'c RouteCache" where
  "rc_SetNegative now c key = c\<lparr>rc_negative := (rc_negative c)(key \<mapsto> now + rc_negativeTTL c)\<rparr>"

definition rc_SetNegativeTTL :: "'c RouteCache \<Rightarrow> duration \<Rightarrow> 'c RouteCache" where
  "rc_SetNegativeTTL c ttl = c\<lparr>rc_negativeTTL := ttl\<rparr>"

definition rc_Set :: "'c route_lru \<Rightarrow> 'c RouteCache \<Rightarrow> string \<Rightarrow> RouteConfig option \<Rightarrow> 'c RouteCache" where
  "rc_Set ops c key config =
     c\<lparr>rc_negative := (rc_negative c)(key := None), rc_cache := lru_add ops (rc_cache c) key config\<rparr>"

definition rc_Delete :: "'c route_lru \<Rightarrow> 'c RouteCache \<Rightarrow> string \<Rightarrow> 'c RouteCache" where
  "rc_Delete ops c key =
     c\<lparr>rc_negative := (rc_negative c)(key := None), rc_cache := lru_remove ops (rc_cache c) key\<rparr>"

definition rc_Clear :: "'c route_lru \<Rightarrow> 'c RouteCache \<Rightarrow> 'c RouteCache" where
  "rc_Clear ops c =
     c\<lparr>rc_cache := lru_purge ops (rc_cache c), rc_negative := Map.empty,
       rc_hits := 0, rc_misses := 0, rc_negativeHits := 0\<rparr>"

definition rc_Len :: "'c route_lru \<Rightarrow> 'c RouteCache \<Rightarrow> int" where
  "rc_Len ops c = int (lru_len ops (rc_cache c))"

definition rc_MaxSize :: "'c RouteCache \<Rightarrow> int" where
  "rc_MaxSize c = rc_maxSize c"

definition hit_rate :: "uint64 \<Rightarrow> uint64 \<Rightarrow> rat" where
  "hit_rate h tot = (if tot = 0 then 0 else of_nat (unat h) / of_nat (unat tot))"

definition rc_Stats :: "'c RouteCache \<Rightarrow> uint64 \<times> uint64 \<times> uint64 \<times> rat" where
  "rc_Stats c = (rc_hits c, rc_misses c, rc_negativeHits c, hit_rate (rc_hits c) (rc_hits c + rc_misses c))"

definition rc_Keys :: "'c route_lru \<Rightarrow> 'c RouteCache \<Rightarrow> string list" where
  "rc_Keys ops c = lru_keys ops (rc_cache c)"

text \<open>\<open>Range\<close> calls \<open>f\<close> on a state of its own until it returns false.\<close>

fun range_keys :: "(string \<Rightarrow> 'v option) \<Rightarrow> (string \<Rightarrow> 'v \<Rightarrow> 'a \<Rightarrow> bool \<times> 'a) \<Rightarrow> string list \<Rightarrow> 'a \<Rightarrow> 'a" where
  "range_keys peek f [] a = a"
| "range_keys peek f (k # ks) a =
     (case peek k of
        None \<Rightarrow> range_keys peek f ks a
      | Some v \<Rightarrow> (case f k v a of (True, a') \<Rightarrow> range_keys peek f ks a' | (False, a') \<Rightarrow> a'))"

definition rc_Range :: "'c route_lru \<Rightarrow> 'c RouteCache \<Rightarrow>
    (string \<Rightarrow> RouteConfig option \<Rightarrow> 'a \<Rightarrow> bool \<times> 'a) \<Rightarrow> 'a \<Rightarrow> 'a" where
  "rc_Range ops c f a = range_keys (lru_peek ops (rc_cache c)) f (lru_keys ops (rc_cache c)) a"

text \<open>What a cache answers for a key at a time, without the counters and the recency order.\<close>

definition neg_live :: "time \<Rightarrow> 'c RouteCache \<Rightarrow> string \<Rightarrow> bool" where
  "neg_live now c key \<longleftrightarrow> (case rc_negative c key of Some expiry \<Rightarrow> now < expiry | None \<Rightarrow> False)"

definition rc_view :: "'c route_lru \<Rightarrow> time \<Rightarrow> 'c RouteCache \<Rightarrow> string \<Rightarrow> RouteConfig option" where
  "rc_view ops now c key =
     (if neg_live now c key then None
      else case lru_peek ops (rc_cache c) key of Some v \<Rightarrow> v | None \<Rightarrow> None)"

lemmas rc_defs = rc_Get_def rc_IsNegativeCached_def rc_SetNegative_def rc_Set_def rc_Delete_def
  rc_Clear_def rc_view_def neg_live_def

lemma rc_IsNegativeCached_fst: "fst (rc_IsNegativeCached now c key) = neg_live now c key"
  by (simp add: rc_defs split: option.splits)

lemma rc_IsNegativeCached_cache [simp]: "rc_cache (snd (rc_IsNegativeCached now c key)) = rc_cache c"
  by (simp add: rc_defs split: option.splits)

lemma neg_live_mono: "now \<le> now' \<Longrightarrow> neg_live now' c key \<Longrightarrow> neg_live now c key"
  by (auto simp: neg_live_def split: option.splits)

lemma range_keys_all:
  "range_keys peek (\<lambda>k v a. (True, a @ [g k v])) ks acc =
     acc @ map (\<lambda>k. g k (the (peek k))) (filter (\<lambda>k. peek k \<noteq> None) ks)"
  by (induction ks arbitrary: acc) (auto split: option.splits)

text \<open>The operations as events, and a run of them.\<close>

datatype cache_op =
    OpGet time string
  | OpIsNegative time string
  | OpSetNegative time string
  | OpSet string "RouteConfig option"
  | OpDelete string
  | OpClear

fun rc_step :: "'c route_lru \<Rightarrow> 'c RouteCache \<Rightarrow> cache_op \<Rightarrow> 'c RouteCache" where
  "rc_step ops c (OpGet now key) = snd (rc_Get ops now c key)"
| "rc_step ops c (OpIsNegative now key) = snd (rc_IsNegativeCached now c key)"
| "rc_step ops c (OpSetNegative now key) = rc_SetNegative now c key"
| "rc_step ops c (OpSet key config) = rc_Set ops c key config"
| "rc_step ops c (OpDelete key) = rc_Delete ops c key"
| "rc_step ops c OpClear = rc_Clear ops c"

definition rc_run :: "'c route_lru \<Rightarrow> 'c RouteCache \<Rightarrow> cache_op list \<Rightarrow> 'c RouteCache" where
  "rc_run ops c es = foldl (rc_step ops) c es"

definition rc_inv :: "('c \<Rightarrow> nat) \<Rightarrow> ('c \<Rightarrow> bool) \<Rightarrow> 'c RouteCache \<Rightarrow> bool" where
  "rc_inv cap ok c \<longleftrightarrow> ok (rc_cache c) \<and> 0 < rc_maxSize c \<and> cap (rc_cache c) = nat (rc_maxSize c)"

subsection \<open>The operations over the LRU interface\<close>

text \<open>
  The interface is instantiated with nilable values here: a stored pointer may be nil.
\<close>

locale route_lru = lru ops cap ok for ops :: "'c route_lru" and cap ok
begin

lemma rc_inv_new [inv_intros]: "rc_inv cap ok (NewRouteCache ops n)"
  by (simp add: rc_inv_def NewRouteCache_def Let_def DefaultMaxSize_def lru_simps)

lemma rc_inv_Get [inv_intros]: "rc_inv cap ok c \<Longrightarrow> rc_inv cap ok (snd (rc_Get ops now c key))"
  by (auto simp: rc_inv_def rc_Get_def Let_def split: option.splits prod.splits dest!: get_pair)

lemma rc_inv_IsNeg [inv_intros]: "rc_inv cap ok c \<Longrightarrow> rc_inv cap ok (snd (rc_IsNegativeCached now c key))"
  by (auto simp: rc_inv_def rc_IsNegativeCached_def split: option.splits)

lemma rc_inv_SetNegative [inv_intros]: "rc_inv cap ok c \<Longrightarrow> rc_inv cap ok (rc_SetNegative now c key)"
  by (simp add: rc_inv_def rc_SetNegative_def)

lemma rc_inv_Set [inv_intros]: "rc_inv cap ok c \<Longrightarrow> rc_inv cap ok (rc_Set ops c key v)"
  by (simp add: rc_inv_def rc_Set_def lru_simps)

lemma rc_inv_Delete [inv_intros]: "rc_inv cap ok c \<Longrightarrow> rc_inv cap ok (rc_Delete ops c key)"
  by (simp add: rc_inv_def rc_Delete_def lru_simps)

lemma rc_inv_Clear [inv_intros]: "rc_inv cap ok c \<Longrightarrow> rc_inv cap ok (rc_Clear ops c)"
  by (simp add: rc_inv_def rc_Clear_def lru_simps)

lemma rc_inv_step [inv_intros]: "rc_inv cap ok c \<Longrightarrow> rc_inv cap ok (rc_step ops c e)"
  by (cases e) (auto intro: inv_intros)

lemma rc_inv_run: "rc_inv cap ok c \<Longrightarrow> rc_inv cap ok (rc_run ops c es)"
  by (induction es arbitrary: c) (auto simp: rc_run_def intro: rc_inv_step)

lemma rc_len_bound: "rc_inv cap ok c \<Longrightarrow> rc_Len ops c \<le> rc_maxSize c"
  using len_cap[of "rc_cache c"] by (auto simp: rc_inv_def rc_Len_def lru_len_def)

lemma rc_Get_fst: "ok (rc_cache c) \<Longrightarrow> fst (rc_Get ops now c key) = rc_view ops now c key"
  by (auto simp: rc_Get_def rc_view_def neg_live_def Let_def split: option.splits prod.splits
      dest!: get_pair)

lemma rc_Get_view:
  "ok (rc_cache c) \<Longrightarrow> now \<le> now' \<Longrightarrow>
     rc_view ops now' (snd (rc_Get ops now c key)) k = rc_view ops now' c k"
  by (auto simp: rc_Get_def rc_view_def neg_live_def Let_def split: option.splits prod.splits
      dest!: get_pair)

lemma rc_Get_neg:
  "now \<le> now' \<Longrightarrow> neg_live now' (snd (rc_Get ops now c key)) k = neg_live now' c k"
  by (auto simp: rc_Get_def neg_live_def Let_def split: option.splits prod.splits)

lemma rc_Get_ok: "ok (rc_cache c) \<Longrightarrow> ok (rc_cache (snd (rc_Get ops now c key)))"
  by (auto simp: rc_Get_def Let_def split: option.splits prod.splits dest!: get_pair)

lemma rc_Get_counts:
  "let c' = snd (rc_Get ops now c key) in
     rc_hits c' + rc_misses c' = rc_hits c + rc_misses c + 1"
  by (auto simp: rc_Get_def Let_def algebra_simps split: option.splits prod.splits)

lemma rc_Set_view_same: "ok (rc_cache c) \<Longrightarrow> rc_view ops now (rc_Set ops c key v) key = v"
  by (simp add: rc_view_def neg_live_def rc_Set_def lru_simps)

lemma rc_Set_view_other:
  "ok (rc_cache c) \<Longrightarrow> k \<noteq> key \<Longrightarrow>
     rc_view ops now (rc_Set ops c key v) k \<in> {rc_view ops now c k, None}"
  using add_other[of "rc_cache c" k key v] by (auto simp: rc_view_def neg_live_def rc_Set_def)

lemma rc_Delete_view:
  "ok (rc_cache c) \<Longrightarrow>
     rc_view ops now (rc_Delete ops c key) = (rc_view ops now c)(key := None)"
  by (auto simp: rc_view_def neg_live_def rc_Delete_def lru_simps fun_eq_iff)

lemma rc_Clear_view: "ok (rc_cache c) \<Longrightarrow> rc_view ops now (rc_Clear ops c) k = None"
  by (simp add: rc_view_def neg_live_def rc_Clear_def purge_peek)

lemma rc_SetNegative_view:
  "now' < now + rc_negativeTTL c \<Longrightarrow> rc_view ops now' (rc_SetNegative now c key) key = None"
  by (simp add: rc_view_def neg_live_def rc_SetNegative_def)

lemma rc_SetNegative_expired:
  "now + rc_negativeTTL c \<le> now' \<Longrightarrow>
     rc_view ops now' (rc_SetNegative now c key) key =
       (case lru_peek ops (rc_cache c) key of Some v \<Rightarrow> v | None \<Rightarrow> None)"
  by (simp add: rc_view_def neg_live_def rc_SetNegative_def)

lemma rc_SetNegative_other:
  "k \<noteq> key \<Longrightarrow> rc_view ops now' (rc_SetNegative now c key) k = rc_view ops now' c k"
  by (simp add: rc_view_def neg_live_def rc_SetNegative_def)

lemma rc_IsNegative_view:
  "now \<le> now' \<Longrightarrow> rc_view ops now' (snd (rc_IsNegativeCached now c key)) k = rc_view ops now' c k"
  by (auto simp: rc_view_def neg_live_def rc_IsNegativeCached_def split: option.splits)

lemma rc_IsNegative_neg:
  "now \<le> now' \<Longrightarrow> neg_live now' (snd (rc_IsNegativeCached now c key)) k = neg_live now' c k"
  by (auto simp: neg_live_def rc_IsNegativeCached_def split: option.splits)

end

interpretation list_rc: route_lru "list_lru_ops" ll_cap ll_ok
  by (rule route_lru.intro) (rule list_lru.lru_axioms)

subsection \<open>The properties of the cache\<close>

text \<open>
  C13: the cache is a bounded map. From a new cache, after any sequence of operations (lookups,
  stores, deletions, negative entries, clears, at any times), the number of stored
  configurations never exceeds the configured maximum size, and \<open>Get\<close> answers exactly what the
  view of the cache holds for the key and does not change what any key answers later.
\<close>

theorem cache_bounded_map:
  assumes "route_lru ops cap ok" and "c = rc_run ops (NewRouteCache ops n) es"
    and "now \<le> now'"
  shows "rc_Len ops c \<le> rc_MaxSize c \<and>
    fst (rc_Get ops now c key) = rc_view ops now c key \<and>
    rc_view ops now' (snd (rc_Get ops now c key)) k = rc_view ops now' c k"
proof -
  have inv: "rc_inv cap ok c"
    unfolding assms(2)
    by (rule route_lru.rc_inv_run[OF assms(1)]) (rule route_lru.rc_inv_new[OF assms(1)])
  then have ok: "ok (rc_cache c)" by (simp add: rc_inv_def)
  show ?thesis
    using route_lru.rc_len_bound[OF assms(1) inv] route_lru.rc_Get_fst[OF assms(1) ok]
      route_lru.rc_Get_view[OF assms(1) ok assms(3)]
    by (simp add: rc_MaxSize_def)
qed

theorem cache_bounded_map_witness:
  "rc_Len list_lru_ops (rc_run list_lru_ops (NewRouteCache list_lru_ops 2)
      [OpSet ''a'' None, OpSetNegative 5 ''b'', OpSet ''c'' None, OpSet ''d'' None]) = 2"
  using cache_bounded_map[OF list_rc.route_lru_axioms refl order_refl, where n = 2 and now = 7 and
      es = "[OpSet ''a'' None, OpSetNegative 5 ''b'', OpSet ''c'' None, OpSet ''d'' None]"]
  by (simp add: rc_run_def rc_Len_def lru_len_def NewRouteCache_def rc_Set_def rc_SetNegative_def
      ll_defs ll_del_def)

text \<open>
  A negative entry hides a key for exactly its time-to-live, whatever the LRU holds, and
  storing a configuration ends it at once: after \<open>SetNegative\<close> at \<open>t\<close> every \<open>Get\<close> before
  \<open>t + negativeTTL\<close> returns nil and \<open>IsNegativeCached\<close> is true; from \<open>t + negativeTTL\<close> on the
  LRU entry is visible again; and a \<open>Set\<close> is visible to every later \<open>Get\<close>, negative entry or not.
\<close>

theorem negative_entry_lifetime:
  assumes "route_lru ops cap ok" and "rc_inv cap ok c" and "n = rc_SetNegative t c key"
  shows "(now < t + rc_negativeTTL c \<longrightarrow>
            fst (rc_Get ops now n key) = None \<and> fst (rc_IsNegativeCached now n key)) \<and>
         (t + rc_negativeTTL c \<le> now \<longrightarrow>
            fst (rc_Get ops now n key) = (case lru_peek ops (rc_cache c) key of Some v \<Rightarrow> v | None \<Rightarrow> None)) \<and>
         fst (rc_Get ops now (rc_Set ops n key v) key) = v"
proof -
  have okn: "rc_inv cap ok n"
    using route_lru.rc_inv_SetNegative[OF assms(1,2)] by (simp add: assms(3))
  then have "rc_inv cap ok (rc_Set ops n key v)"
    by (rule route_lru.rc_inv_Set[OF assms(1)])
  with okn show ?thesis
    using route_lru.rc_Get_fst[OF assms(1)] route_lru.rc_SetNegative_view[OF assms(1)]
      route_lru.rc_SetNegative_expired[OF assms(1)] route_lru.rc_Set_view_same[OF assms(1)]
    by (auto simp: rc_inv_def rc_IsNegativeCached_fst assms(3))
      (simp add: neg_live_def rc_SetNegative_def)
qed

theorem negative_entry_lifetime_witness:
  "fst (rc_Get list_lru_ops 40000000000
     (rc_Set list_lru_ops (rc_SetNegative 0 (NewRouteCache list_lru_ops 2) ''k'') ''k'' (Some empty_config)) ''k'')
   = Some empty_config"
  using negative_entry_lifetime[OF list_rc.route_lru_axioms list_rc.rc_inv_new refl,
      where now = 40000000000 and t = 0 and v = "Some empty_config" and key = "''k''"]
  by simp

fun gets_of :: "cache_op list \<Rightarrow> nat" where
  "gets_of [] = 0"
| "gets_of (OpGet t k # es) = Suc (gets_of es)"
| "gets_of (_ # es) = gets_of es"

lemma counts_step:
  "route_lru ops cap ok \<Longrightarrow> e \<noteq> OpClear \<Longrightarrow>
     rc_hits (rc_step ops c e) + rc_misses (rc_step ops c e) =
     rc_hits c + rc_misses c + of_nat (gets_of [e])"
  using route_lru.rc_Get_counts[of ops cap ok]
  by (cases e) (auto simp: Let_def rc_IsNegativeCached_def rc_SetNegative_def rc_Set_def rc_Delete_def
      split: option.splits)

lemma gets_of_Cons: "gets_of (e # es) = gets_of [e] + gets_of es"
  by (cases e) auto

text \<open>
  The counters account for every lookup. Over any sequence of operations without a clear,
  the hits and misses together grow by the number of \<open>Get\<close> calls (modulo the 64-bit
  wrap-around), and a clear resets them and empties every key.
\<close>

theorem cache_counters:
  assumes "route_lru ops cap ok" and "OpClear \<notin> set es"
  shows "rc_hits (rc_run ops c es) + rc_misses (rc_run ops c es) =
    rc_hits c + rc_misses c + of_nat (gets_of es)"
  using assms(2)
proof (induction es arbitrary: c)
  case Nil
  then show ?case by (simp add: rc_run_def)
next
  case (Cons e es)
  then have "rc_hits (rc_run ops c (e # es)) + rc_misses (rc_run ops c (e # es)) =
      rc_hits (rc_step ops c e) + rc_misses (rc_step ops c e) + of_nat (gets_of es)"
    by (simp add: rc_run_def)
  also have "\<dots> = rc_hits c + rc_misses c + of_nat (gets_of [e]) + of_nat (gets_of es)"
    using counts_step[OF assms(1), of e c] Cons.prems by auto
  finally show ?case by (subst gets_of_Cons) (simp add: algebra_simps)
qed

theorem cache_counters_witness:
  "let c = rc_run list_lru_ops (NewRouteCache list_lru_ops 2) [OpGet 1 ''a'', OpSet ''a'' None, OpGet 2 ''a'']
   in rc_hits c + rc_misses c = 2"
  using cache_counters[OF list_rc.route_lru_axioms, where c = "NewRouteCache list_lru_ops 2" and
      es = "[OpGet 1 ''a'', OpSet ''a'' None, OpGet 2 ''a'']"]
  by (simp add: NewRouteCache_def Let_def)

end
