(* ===== verification/DataSource.thy ===== *)
theory DataSource
  imports RouteCache AdminRegistry
begin

section \<open>Data sources: the interface and the code that the backends share\<close>

text \<open>
  The interface \<open>DataSource\<close> of datasource/datasource.go as a locale, and what the backends
  (etcd, Redis, Consul, and others) have in common: the state (cache, health flag, last error,
  admin name), the lookup that reads the cache, then the backend under \<open>singleflight\<close>, the
  store of a value that a listing or a watch delivers, the admin accessors of
  datasource/admin.go, and the retry loop around a watch.

  A backend is a function from the full key to the answer of the client library. The
  operations read the clock several times; \<open>ts n\<close> is the time at the \<open>n\<close>-th reading.
  \<open>singleflight.Do\<close> runs its function; callers that share one run share its result. The
  counter \<open>src_parseErrors\<close> is the metric that \<open>RecordRouteConfigParseError\<close> increments.
  Logging is not modelled. The state is that of a provisioned source, so its cache is not nil.
\<close>

datatype fetched = FetchError string | Missing | Value string

record 'c source =
  src_cache :: "'c RouteCache"
  src_healthy :: bool
  src_lastError :: string
  src_adminName :: string
  src_parseErrors :: nat

definition new_source :: "'c route_lru \<Rightarrow> int \<Rightarrow> 'c source" where
  "new_source ops maxCacheSize =
     \<lparr>src_cache = NewRouteCache ops maxCacheSize, src_healthy = False, src_lastError = '''',
      src_adminName = '''', src_parseErrors = 0\<rparr>"

text \<open>Parse a value and store it under a key; a value that does not parse is skipped.\<close>

definition store_value :: "'c route_lru \<Rightarrow> codec \<Rightarrow> ('c, 'x) source_scheme \<Rightarrow> string \<Rightarrow> string \<Rightarrow>
    ('c, 'x) source_scheme" where
  "store_value ops cd s key val =
     (case ParseRouteConfig cd val of
        Inl e \<Rightarrow> s\<lparr>src_parseErrors := Suc (src_parseErrors s)\<rparr>
      | Inr None \<Rightarrow> s
      | Inr (Some config) \<Rightarrow> s\<lparr>src_cache := rc_Set ops (src_cache s) key (Some config)\<rparr>)"

text \<open>The function under \<open>singleflight\<close>: the second look at the cache, the fetch, the store.\<close>

definition fetch_and_cache :: "'c route_lru \<Rightarrow> codec \<Rightarrow> (nat \<Rightarrow> time) \<Rightarrow> (string \<Rightarrow> fetched) \<Rightarrow>
    ('c, 'x) source_scheme \<Rightarrow> string \<Rightarrow> RouteConfig option res \<times> ('c, 'x) source_scheme" where
  "fetch_and_cache ops cd ts backend s fullKey =
     (let (cached, c1) = rc_Get ops (ts 2) (src_cache s) fullKey; s1 = s\<lparr>src_cache := c1\<rparr> in
      case cached of
        Some config \<Rightarrow> (Inr (Some config), s1)
      | None \<Rightarrow>
          case backend fullKey of
            FetchError e \<Rightarrow> (Inl e, s1\<lparr>src_lastError := e\<rparr>)
          | Missing \<Rightarrow> (Inr None, s1\<lparr>src_cache := rc_SetNegative (ts 3) c1 fullKey\<rparr>)
          | Value v \<Rightarrow>
              case ParseRouteConfig cd v of
                Inl e \<Rightarrow> (Inl e, s1\<lparr>src_parseErrors := Suc (src_parseErrors s1), src_lastError := e\<rparr>)
              | Inr None \<Rightarrow> (Inr None, s1)
              | Inr (Some config) \<Rightarrow> (Inr (Some config), s1\<lparr>src_cache := rc_Set ops c1 fullKey (Some config)\<rparr>))"

definition look_and_fetch :: "bool \<Rightarrow> 'c route_lru \<Rightarrow> codec \<Rightarrow> (nat \<Rightarrow> time) \<Rightarrow> (string \<Rightarrow> fetched) \<Rightarrow>
    ('c, 'x) source_scheme \<Rightarrow> string \<Rightarrow> RouteConfig option res \<times> ('c, 'x) source_scheme" where
  "look_and_fetch checkNegative ops cd ts backend s fullKey =
     (let (cached, c1) = rc_Get ops (ts 0) (src_cache s) fullKey in
      case cached of
        Some config \<Rightarrow> (Inr (Some config), s\<lparr>src_cache := c1\<rparr>)
      | None \<Rightarrow>
          let (neg, c2) = (if checkNegative then rc_IsNegativeCached (ts 1) c1 fullKey else (False, c1));
              s2 = s\<lparr>src_cache := c2\<rparr> in
          if neg then (Inr None, s2)
          else if \<not> src_healthy s then (Inr None, s2)
          else case fetch_and_cache ops cd ts backend s2 fullKey of
            (Inl e, s3) \<Rightarrow> (Inl e, s3)
          | (Inr r, s3) \<Rightarrow> (Inr r, s3\<lparr>src_lastError := ''''\<rparr>))"

subsection \<open>Admin accessors\<close>

record AdminCacheStats =
  aEntries :: int
  aMaxSize :: int
  aHits :: uint64
  aMisses :: uint64
  aNegativeHits :: uint64
  aHitRate :: rat

definition src_AdminListRoutes :: "'c route_lru \<Rightarrow> (string \<Rightarrow> string) \<Rightarrow> ('c, 'x) source_scheme \<Rightarrow> AdminRouteInfo list" where
  "src_AdminListRoutes ops trim s =
     rc_Range ops (src_cache s) (\<lambda>k cfg routes. (True, routes @ [SummarizeRouteConfig (trim k) cfg])) []"

definition src_AdminCacheStats :: "'c route_lru \<Rightarrow> ('c, 'x) source_scheme \<Rightarrow> AdminCacheStats" where
  "src_AdminCacheStats ops s =
     (let (h, m, nh, hr) = rc_Stats (src_cache s) in
      \<lparr>aEntries = rc_Len ops (src_cache s), aMaxSize = rc_MaxSize (src_cache s), aHits = h, aMisses = m,
       aNegativeHits = nh, aHitRate = hr\<rparr>)"

definition src_AdminClearCache :: "'c route_lru \<Rightarrow> ('c, 'x) source_scheme \<Rightarrow> ('c, 'x) source_scheme" where
  "src_AdminClearCache ops s = s\<lparr>src_cache := rc_Clear ops (src_cache s)\<rparr>"

subsection \<open>The retry loop around a watch\<close>

text \<open>
  \<open>watchLoop\<close> and \<open>subscribeLoop\<close>: one turn per return of the watch, with the error it
  returned (\<open>None\<close> for nil) and the state it left. The result carries the time that the turn
  sleeps before the next one.
\<close>

definition maxBackoff :: duration where
  "maxBackoff = 60 * 1000000000"

definition initialBackoff :: duration where
  "initialBackoff = 1000000000"

definition watch_turn :: "duration \<Rightarrow> string option \<Rightarrow> ('c, 'x) source_scheme \<Rightarrow>
    duration option \<times> duration \<times> ('c, 'x) source_scheme" where
  "watch_turn backoff err s =
     (case err of
        Some e \<Rightarrow>
          (let doubled = wrap64 (backoff * 2) in
           (Some backoff, if maxBackoff < doubled then maxBackoff else doubled, s\<lparr>src_healthy := False\<rparr>))
      | None \<Rightarrow> (None, initialBackoff, s))"

fun watch_sleeps :: "duration \<Rightarrow> string option list \<Rightarrow> ('c, 'x) source_scheme \<Rightarrow> duration list" where
  "watch_sleeps backoff [] s = []"
| "watch_sleeps backoff (e # es) s =
     (case watch_turn backoff e s of
        (Some d, b, s') \<Rightarrow> d # watch_sleeps b es s'
      | (None, b, s') \<Rightarrow> watch_sleeps b es s')"

lemma watch_sleeps_errors:
  assumes "backoff = min maxBackoff (initialBackoff * 2 ^ n)"
  shows "watch_sleeps backoff (map Some es) s =
    map (\<lambda>i. min maxBackoff (initialBackoff * 2 ^ (n + i))) [0..<length es]"
  using assms
proof (induction es arbitrary: backoff n s)
  case Nil
  then show ?case by simp
next
  case (Cons e es)
  have "0 \<le> backoff \<and> backoff \<le> maxBackoff"
    using Cons.prems by (simp add: maxBackoff_def initialBackoff_def)
  then have "wrap64 (backoff * 2) = backoff * 2"
    by (intro wrap64_ok) (simp add: int_ok_def maxBackoff_def)
  then have next_b: "(if maxBackoff < wrap64 (backoff * 2) then maxBackoff else wrap64 (backoff * 2)) =
      min maxBackoff (initialBackoff * 2 ^ Suc n)"
    using Cons.prems by (auto simp: min_def maxBackoff_def initialBackoff_def)
  have turn: "watch_turn backoff (Some e) s =
      (Some backoff, min maxBackoff (initialBackoff * 2 ^ Suc n), s\<lparr>src_healthy := False\<rparr>)"
    using next_b by (simp add: watch_turn_def Let_def del: power_Suc)
  show ?case
    using Cons.IH[OF refl, of "Suc n" "s\<lparr>src_healthy := False\<rparr>"] Cons.prems
    by (simp add: turn[unfolded Cons.prems] upt_conv_Cons map_Suc_upt[symmetric] comp_def del: upt_Suc map_Suc_upt power_Suc)
qed

subsection \<open>The interface\<close>

text \<open>
  What a client of a data source relies on: an invariant kept by \<open>Get\<close>; a configuration in the
  cache is served whatever the health and the backend; an unhealthy source answers nothing
  rather than an error for a key that it has not cached; \<open>Get\<close> does not change the health; and
  what \<open>Get\<close> returned is in the cache afterwards. The environment of a call (clock, backend) is
  of the type \<open>'e\<close>.
\<close>

locale data_source =
  fixes get :: "'e \<Rightarrow> 's \<Rightarrow> string \<Rightarrow> RouteConfig option res \<times> 's"
    and healthy :: "'s \<Rightarrow> bool"
    and inv :: "'s \<Rightarrow> bool"
    and cached :: "'e \<Rightarrow> 's \<Rightarrow> string \<Rightarrow> RouteConfig option"
  assumes get_inv: "inv s \<Longrightarrow> inv (snd (get e s k))"
    and get_cached: "inv s \<Longrightarrow> cached e s k = Some c \<Longrightarrow> fst (get e s k) = Inr (Some c)"
    and get_unhealthy: "inv s \<Longrightarrow> \<not> healthy s \<Longrightarrow> cached e s k = None \<Longrightarrow> fst (get e s k) = Inr None"
    and get_healthy: "inv s \<Longrightarrow> healthy (snd (get e s k)) = healthy s"
    and get_remember: "inv s \<Longrightarrow> get e s k = (Inr (Some c), s') \<Longrightarrow> cached e' s' k = Some c"
begin

lemma unhealthy_no_error: "inv s \<Longrightarrow> \<not> healthy s \<Longrightarrow> fst (get e s k) = Inr (cached e s k)"
  using get_cached[of s e k] get_unhealthy[of s e k] by (cases "cached e s k") auto

text \<open>Once a key has been answered, a repeated request is answered alike, whatever happened to the backend.\<close>

lemma get_again: "inv s \<Longrightarrow> get e s k = (Inr (Some c), s') \<Longrightarrow> fst (get e' s' k) = Inr (Some c)"
  using get_inv[of s e k] get_remember[of s e k c s' e'] get_cached[of s' e' k c] by simp

text \<open>Any number of requests for one key.\<close>

fun gets :: "'e list \<Rightarrow> 's \<Rightarrow> string \<Rightarrow> RouteConfig option res list \<times> 's" where
  "gets [] s k = ([], s)"
| "gets (e # es) s k = (let (r, s1) = get e s k; (rs, s2) = gets es s1 k in (r # rs, s2))"

lemma gets_after_hit:
  assumes "inv s" and "get e s k = (Inr (Some c), s')"
  shows "fst (gets es s' k) = replicate (length es) (Inr (Some c)) \<and> inv (snd (gets es s' k))"
  using assms
proof (induction es arbitrary: e s s')
  case Nil
  then show ?case using get_inv[of s e k] by simp
next
  case (Cons e1 es)
  have inv': "inv s'" using get_inv[OF Cons.prems(1), of e k] Cons.prems(2) by simp
  obtain s1 where g: "get e1 s' k = (Inr (Some c), s1)"
    using get_again[OF Cons.prems, of e1] by (cases "get e1 s' k") auto
  show ?case using Cons.IH[OF inv' g] g by (auto split: prod.splits)
qed

end

subsection \<open>The shared lookup implements the interface\<close>

definition src_inv :: "('c \<Rightarrow> nat) \<Rightarrow> ('c \<Rightarrow> bool) \<Rightarrow> ('c, 'x) source_scheme \<Rightarrow> bool" where
  "src_inv cap ok s \<longleftrightarrow> rc_inv cap ok (src_cache s)"

definition src_view :: "'c route_lru \<Rightarrow> time \<Rightarrow> ('c, 'x) source_scheme \<Rightarrow> string \<Rightarrow> RouteConfig option" where
  "src_view ops now s k = rc_view ops now (src_cache s) k"

context route_lru
begin

lemma rc_Get_hit:
  "ok (rc_cache c) \<Longrightarrow> rc_Get ops now c key = (Some v, c') \<Longrightarrow>
     rc_negative c' key = None \<and> lru_peek ops (rc_cache c') key = Some (Some v)"
  by (auto simp: rc_Get_def Let_def split: option.splits prod.splits if_splits dest!: get_pair)

lemma rc_Get_hit_view: "ok (rc_cache c) \<Longrightarrow> rc_Get ops now c key = (Some v, c') \<Longrightarrow> rc_view ops t c' key = Some v"
  by (drule (1) rc_Get_hit) (simp add: rc_view_def neg_live_def)

lemma src_inv_ok: "src_inv cap ok s \<Longrightarrow> ok (rc_cache (src_cache s))"
  by (simp add: src_inv_def rc_inv_def)

lemma fetch_props:
  assumes "src_inv cap ok s" and "fetch_and_cache ops cd ts backend s k = (r, s')"
  shows "src_inv cap ok s' \<and> src_healthy s' = src_healthy s \<and> source.more s' = source.more s \<and>
    src_adminName s' = src_adminName s \<and> (r = Inr (Some c) \<longrightarrow> src_view ops t s' k = Some c)"
proof -
  obtain v c1 where g: "rc_Get ops (ts 2) (src_cache s) k = (v, c1)" by fastforce
  have okc: "ok (rc_cache (src_cache s))" by (rule src_inv_ok[OF assms(1)])
  have i1: "rc_inv cap ok c1"
    using rc_inv_Get[of "src_cache s" "ts 2" k] assms(1) g by (simp add: src_inv_def)
  then have ok1: "ok (rc_cache c1)" by (simp add: rc_inv_def)
  have hit: "v = Some x \<Longrightarrow> rc_view ops t c1 k = Some x" for x
    using rc_Get_hit_view[OF okc] g by simp
  show ?thesis
    using assms(2) g i1 hit rc_inv_Set[OF i1] rc_inv_SetNegative[OF i1] rc_Set_view_same[OF ok1]
    by (auto simp: fetch_and_cache_def src_inv_def src_view_def Let_def
        split: option.splits fetched.splits sum.splits)
qed

lemma look_props:
  assumes "src_inv cap ok s" and "look_and_fetch chk ops cd ts backend s k = (r, s')"
  shows "src_inv cap ok s' \<and> src_healthy s' = src_healthy s \<and> source.more s' = source.more s \<and>
    src_adminName s' = src_adminName s \<and> (r = Inr (Some c) \<longrightarrow> src_view ops t s' k = Some c)"
proof -
  obtain v c1 where g: "rc_Get ops (ts 0) (src_cache s) k = (v, c1)" by fastforce
  obtain n c2 where i: "(if chk then rc_IsNegativeCached (ts 1) c1 k else (False, c1)) = (n, c2)" by fastforce
  obtain r3 s3 where f: "fetch_and_cache ops cd ts backend (s\<lparr>src_cache := c2\<rparr>) k = (r3, s3)" by fastforce
  have okc: "ok (rc_cache (src_cache s))" by (rule src_inv_ok[OF assms(1)])
  have i1: "rc_inv cap ok c1"
    using rc_inv_Get[of "src_cache s" "ts 0" k] assms(1) g by (simp add: src_inv_def)
  have i2: "rc_inv cap ok c2"
    using rc_inv_IsNeg[OF i1, of "ts 1" k] i i1 by (auto split: if_splits)
  have inv2: "src_inv cap ok (s\<lparr>src_cache := c2\<rparr>)" using i2 by (simp add: src_inv_def)
  note fp = fetch_props[OF inv2 f]
  have hit: "v = Some x \<Longrightarrow> rc_view ops t c1 k = Some x" for x
    using rc_Get_hit_view[OF okc] g by simp
  show ?thesis
  proof (cases v)
    case (Some x)
    then show ?thesis using assms(2) g i1 hit by (auto simp: look_and_fetch_def src_inv_def src_view_def)
  next
    case None
    show ?thesis
    proof (cases "n \<or> \<not> src_healthy s")
      case True
      then have "r = Inr None \<and> s' = s\<lparr>src_cache := c2\<rparr>"
        using assms(2) g i None by (auto simp: look_and_fetch_def Let_def split: if_splits)
      then show ?thesis using inv2 by simp
    next
      case False
      then have "(r, s') = (case r3 of Inl e \<Rightarrow> (Inl e, s3) | Inr x \<Rightarrow> (Inr x, s3\<lparr>src_lastError := ''''\<rparr>))"
        using assms(2) g i f None by (auto simp: look_and_fetch_def Let_def split: sum.splits)
      then show ?thesis using fp by (auto simp: src_inv_def src_view_def split: sum.splits)
    qed
  qed
qed

lemma look_cached:
  assumes "src_inv cap ok s" and "src_view ops (ts 0) s k = Some c"
  shows "fst (look_and_fetch chk ops cd ts backend s k) = Inr (Some c)"
  using assms rc_Get_fst[OF src_inv_ok[OF assms(1)], of "ts 0" k]
  by (auto simp: look_and_fetch_def src_view_def split: prod.splits)

lemma look_unhealthy:
  assumes "src_inv cap ok s" and "\<not> src_healthy s" and "src_view ops (ts 0) s k = None"
  shows "fst (look_and_fetch chk ops cd ts backend s k) = Inr None"
  using assms rc_Get_fst[OF src_inv_ok[OF assms(1)], of "ts 0" k]
  by (auto simp: look_and_fetch_def src_view_def Let_def split: prod.splits)

lemma look_data_source:
  assumes "\<And>s s'. source.more s' = source.more s \<Longrightarrow> full s' = full s"
  shows "data_source (\<lambda>(ts, backend) s k. look_and_fetch chk ops cd ts backend s (full s k)) src_healthy
    (src_inv cap ok) (\<lambda>(ts, backend) s k. src_view ops (ts 0) s (full s k))"
proof unfold_locales
  fix s :: "('c, 'a) source_scheme" and e :: "(nat \<Rightarrow> time) \<times> (string \<Rightarrow> fetched)" and k
  obtain ts backend where e: "e = (ts, backend)" by (cases e)
  obtain r s' where l: "look_and_fetch chk ops cd ts backend s (full s k) = (r, s')" by fastforce
  assume inv: "src_inv cap ok s"
  note p = look_props[OF inv l]
  show "src_inv cap ok (snd ((case e of (ts, backend) \<Rightarrow> \<lambda>s k. look_and_fetch chk ops cd ts backend s (full s k)) s k))"
    using p l e by simp
  show "src_healthy (snd ((case e of (ts, backend) \<Rightarrow> \<lambda>s k. look_and_fetch chk ops cd ts backend s (full s k)) s k)) = src_healthy s"
    using p l e by simp
  show "fst ((case e of (ts, backend) \<Rightarrow> \<lambda>s k. look_and_fetch chk ops cd ts backend s (full s k)) s k) = Inr (Some c)"
    if "(case e of (ts, backend) \<Rightarrow> \<lambda>s k. src_view ops (ts 0) s (full s k)) s k = Some c" for c
    using look_cached[OF inv] that e by simp
  show "fst ((case e of (ts, backend) \<Rightarrow> \<lambda>s k. look_and_fetch chk ops cd ts backend s (full s k)) s k) = Inr None"
    if "\<not> src_healthy s" "(case e of (ts, backend) \<Rightarrow> \<lambda>s k. src_view ops (ts 0) s (full s k)) s k = None"
    using look_unhealthy[OF inv that(1)] that(2) e by simp
  show "(case e' of (ts, backend) \<Rightarrow> \<lambda>s k. src_view ops (ts 0) s (full s k)) t k = Some c"
    if "(case e of (ts, backend) \<Rightarrow> \<lambda>s k. look_and_fetch chk ops cd ts backend s (full s k)) s k = (Inr (Some c), t)"
    for c t and e' :: "(nat \<Rightarrow> time) \<times> (string \<Rightarrow> fetched)"
  proof -
    obtain ts' b' where e': "e' = (ts', b')" by (cases e')
    have l': "look_and_fetch chk ops cd ts backend s (full s k) = (Inr (Some c), t)" using that e by simp
    have "full t = full s" using look_props[OF inv l'] assms by blast
    then show ?thesis using look_props[OF inv l', of c "ts' 0"] e' by simp
  qed
qed

lemma store_props:
  assumes "src_inv cap ok s"
  shows "src_inv cap ok (store_value ops cd s k v) \<and> src_healthy (store_value ops cd s k v) = src_healthy s \<and>
    source.more (store_value ops cd s k v) = source.more s"
  using assms rc_inv_Set[of "src_cache s" k]
  by (auto simp: store_value_def src_inv_def split: sum.splits option.splits)

end

subsection \<open>A cache that agrees with the backend\<close>

text \<open>
  \<open>m\<close> is the content of the backend. A cache is coherent with it when every configuration that
  it holds is what the parser makes of the present value of its key.
\<close>

definition backend_of :: "(string \<rightharpoonup> string) \<Rightarrow> string \<Rightarrow> fetched" where
  "backend_of m k = (case m k of Some v \<Rightarrow> Value v | None \<Rightarrow> Missing)"

definition parses_to :: "codec \<Rightarrow> (string \<rightharpoonup> string) \<Rightarrow> string \<Rightarrow> RouteConfig \<Rightarrow> bool" where
  "parses_to cd m k c \<longleftrightarrow> (\<exists>v. m k = Some v \<and> ParseRouteConfig cd v = Inr (Some c))"

definition coherent :: "'c route_lru \<Rightarrow> codec \<Rightarrow> (string \<rightharpoonup> string) \<Rightarrow> ('c, 'x) source_scheme \<Rightarrow> bool" where
  "coherent ops cd m s \<longleftrightarrow>
     (\<forall>k c. lru_peek ops (rc_cache (src_cache s)) k = Some (Some c) \<longrightarrow> parses_to cd m k c)"

context route_lru
begin

lemma coherent_view: "coherent ops cd m s \<Longrightarrow> src_view ops t s k = Some c \<Longrightarrow> parses_to cd m k c"
  by (auto simp: coherent_def src_view_def rc_view_def split: if_splits option.splits)

lemma rc_Get_peek: "ok (rc_cache c) \<Longrightarrow> lru_peek ops (rc_cache (snd (rc_Get ops now c key))) = lru_peek ops (rc_cache c)"
  by (auto simp: rc_Get_def Let_def split: option.splits prod.splits dest!: get_pair)

lemma coherent_Set:
  assumes "src_inv cap ok s" and "coherent ops cd m s" and "ParseRouteConfig cd v = Inr (Some c)"
  shows "coherent ops cd (m(k \<mapsto> v)) (s\<lparr>src_cache := rc_Set ops (src_cache s) k (Some c)\<rparr>)"
proof -
  have okc: "ok (rc_cache (src_cache s))" by (rule src_inv_ok[OF assms(1)])
  have "parses_to cd (m(k \<mapsto> v)) j w"
    if "lru_peek ops (lru_add ops (rc_cache (src_cache s)) k (Some c)) j = Some (Some w)" for j w
    using add_sub[OF okc that] assms(2,3) by (auto simp: coherent_def parses_to_def)
  then show ?thesis by (simp add: coherent_def rc_Set_def)
qed

lemma coherent_store:
  assumes "src_inv cap ok s" and "coherent ops cd m s" and "ParseRouteConfig cd v = Inr (Some c)"
  shows "coherent ops cd (m(k \<mapsto> v)) (store_value ops cd s k v)"
  using coherent_Set[OF assms] assms(3) by (simp add: store_value_def)

lemma coherent_Delete:
  assumes "src_inv cap ok s" and "coherent ops cd m s"
  shows "coherent ops cd (m(k := None)) (s\<lparr>src_cache := rc_Delete ops (src_cache s) k\<rparr>)"
  using assms src_inv_ok[OF assms(1)]
  by (auto simp: coherent_def rc_Delete_def remove_peek parses_to_def split: if_splits)

lemma fetch_coherent:
  assumes "src_inv cap ok s" and "coherent ops cd m s"
    and "fetch_and_cache ops cd ts (backend_of m) s k = (r, s')"
  shows "coherent ops cd m s'"
proof -
  obtain v c1 where g: "rc_Get ops (ts 2) (src_cache s) k = (v, c1)" by fastforce
  have okc: "ok (rc_cache (src_cache s))" by (rule src_inv_ok[OF assms(1)])
  have peek: "lru_peek ops (rc_cache c1) = lru_peek ops (rc_cache (src_cache s))"
    using rc_Get_peek[OF okc, of "ts 2" k] g by simp
  have i1: "src_inv cap ok (s\<lparr>src_cache := c1\<rparr>)"
    using rc_inv_Get[of "src_cache s" "ts 2" k] assms(1) g by (simp add: src_inv_def)
  have co1: "coherent ops cd m (s\<lparr>src_cache := c1\<rparr>)" using assms(2) peek by (simp add: coherent_def)
  have set: "coherent ops cd m (s\<lparr>src_cache := rc_Set ops c1 k (Some c)\<rparr>)"
    if "m k = Some w" "Inr (Some c) = ParseRouteConfig cd w" for w c
    using coherent_Set[OF i1 co1 that(2)[symmetric], of k] that(1) by (simp add: fun_upd_idem)
  show ?thesis
    using assms(3) g co1 set
    by (auto simp: fetch_and_cache_def backend_of_def Let_def coherent_def rc_SetNegative_def
        split: option.splits sum.splits)
qed

lemma look_coherent:
  assumes "src_inv cap ok s" and "coherent ops cd m s"
    and "look_and_fetch chk ops cd ts (backend_of m) s k = (r, s')"
  shows "coherent ops cd m s' \<and> (\<forall>c. r = Inr (Some c) \<longrightarrow> parses_to cd m k c)"
proof -
  obtain v c1 where g: "rc_Get ops (ts 0) (src_cache s) k = (v, c1)" by fastforce
  obtain n c2 where i: "(if chk then rc_IsNegativeCached (ts 1) c1 k else (False, c1)) = (n, c2)" by fastforce
  obtain r3 s3 where f: "fetch_and_cache ops cd ts (backend_of m) (s\<lparr>src_cache := c2\<rparr>) k = (r3, s3)" by fastforce
  have okc: "ok (rc_cache (src_cache s))" by (rule src_inv_ok[OF assms(1)])
  have i1: "rc_inv cap ok c1"
    using rc_inv_Get[of "src_cache s" "ts 0" k] assms(1) g by (simp add: src_inv_def)
  have peek1: "lru_peek ops (rc_cache c1) = lru_peek ops (rc_cache (src_cache s))"
    using rc_Get_peek[OF okc, of "ts 0" k] g by simp
  have c2: "rc_cache c2 = rc_cache c1" using i by (auto simp: rc_IsNegativeCached_def split: if_splits option.splits)
  have inv2: "src_inv cap ok (s\<lparr>src_cache := c2\<rparr>)"
    using rc_inv_IsNeg[OF i1, of "ts 1" k] i i1 by (auto simp: src_inv_def split: if_splits)
  have co: "coherent ops cd m (s\<lparr>src_cache := c1\<rparr>)" "coherent ops cd m (s\<lparr>src_cache := c2\<rparr>)"
    using assms(2) peek1 c2 by (simp_all add: coherent_def)
  note co3 = fetch_coherent[OF inv2 co(2) f]
  have "coherent ops cd m s'"
    using assms(3) g i f co co3
    by (auto simp: look_and_fetch_def Let_def coherent_def split: option.splits if_splits sum.splits)
  then show ?thesis
    using look_props[OF assms(1,3)] coherent_view[of cd m s'] by blast
qed

lemma coherent_new: "coherent ops cd m (s\<lparr>src_cache := NewRouteCache ops n\<rparr>)"
  by (simp add: coherent_def NewRouteCache_def Let_def DefaultMaxSize_def new_peek)

end

text \<open>Delete the cached keys that a listing does not name.\<close>

definition drop_unlisted :: "'c route_lru \<Rightarrow> string set \<Rightarrow> ('c, 'x) source_scheme \<Rightarrow> string list \<Rightarrow> ('c, 'x) source_scheme" where
  "drop_unlisted ops newKeys s keys =
     foldl (\<lambda>s k. if k \<in> newKeys then s else s\<lparr>src_cache := rc_Delete ops (src_cache s) k\<rparr>) s keys"

text \<open>Agreement with the backend on a set of keys.\<close>

definition coherent_on :: "string set \<Rightarrow> 'c route_lru \<Rightarrow> codec \<Rightarrow> (string \<rightharpoonup> string) \<Rightarrow> ('c, 'x) source_scheme \<Rightarrow> bool" where
  "coherent_on K ops cd m s \<longleftrightarrow>
     (\<forall>k \<in> K. \<forall>c. lru_peek ops (rc_cache (src_cache s)) k = Some (Some c) \<longrightarrow> parses_to cd m k c)"

context route_lru
begin

lemma store_coherent_on:
  assumes "src_inv cap ok s" and "coherent_on K ops cd m s" and "m k = Some v"
    and "ParseRouteConfig cd v = Inr (Some c)"
  shows "coherent_on (insert k K) ops cd m (store_value ops cd s k v)"
proof -
  have okc: "ok (rc_cache (src_cache s))" by (rule src_inv_ok[OF assms(1)])
  have "parses_to cd m j w" if "j \<in> insert k K"
    "lru_peek ops (lru_add ops (rc_cache (src_cache s)) k (Some c)) j = Some (Some w)" for j w
    using add_sub[OF okc that(2)] that(1) assms(2-4) by (auto simp: coherent_on_def parses_to_def)
  then show ?thesis using assms(4) by (simp add: coherent_on_def store_value_def rc_Set_def)
qed

lemma store_all_coherent_on:
  assumes "src_inv cap ok s" and "coherent_on K ops cd m s" and "\<forall>(k, v) \<in> set pairs. m k = Some v"
    and "\<forall>(k, v) \<in> set pairs. \<exists>c. ParseRouteConfig cd v = Inr (Some c)"
    and "s' = foldl (\<lambda>c (k, v). store_value ops cd c k v) s pairs"
  shows "src_inv cap ok s' \<and> coherent_on (K \<union> fst ` set pairs) ops cd m s' \<and> source.more s' = source.more s"
  using assms
proof (induction pairs arbitrary: s K)
  case Nil
  then show ?case by simp
next
  case (Cons p pairs)
  obtain k v where p: "p = (k, v)" by (cases p)
  obtain c where c: "ParseRouteConfig cd v = Inr (Some c)" using Cons.prems(4) p by auto
  have mk: "m k = Some v" using Cons.prems(3) p by simp
  note st = store_coherent_on[OF Cons.prems(1,2) mk c] and props = store_props[OF Cons.prems(1), of cd k v]
  have "src_inv cap ok s' \<and> coherent_on (insert k K \<union> fst ` set pairs) ops cd m s' \<and>
      source.more s' = source.more (store_value ops cd s k v)"
    by (rule Cons.IH[OF conjunct1[OF props] st]) (use Cons.prems(3-5) p in auto)
  then show ?case using props p by simp
qed

lemma drop_unlisted_props:
  assumes "src_inv cap ok s" and "s' = drop_unlisted ops K s keys"
  shows "src_inv cap ok s' \<and> source.more s' = source.more s \<and>
    lru_peek ops (rc_cache (src_cache s')) =
      (\<lambda>k. if k \<in> set keys \<and> k \<notin> K then None else lru_peek ops (rc_cache (src_cache s)) k)"
  using assms
proof (induction keys arbitrary: s)
  case Nil
  then show ?case by (simp add: drop_unlisted_def)
next
  case (Cons k keys)
  define s1 where "s1 = (if k \<in> K then s else s\<lparr>src_cache := rc_Delete ops (src_cache s) k\<rparr>)"
  have inv1: "src_inv cap ok s1"
    using Cons.prems(1) rc_inv_Delete[of "src_cache s" k] by (simp add: s1_def src_inv_def)
  have peek1: "lru_peek ops (rc_cache (src_cache s1)) =
      (\<lambda>j. if j = k \<and> k \<notin> K then None else lru_peek ops (rc_cache (src_cache s)) j)"
    using src_inv_ok[OF Cons.prems(1)] by (auto simp: s1_def rc_Delete_def remove_peek fun_eq_iff)
  have "s' = drop_unlisted ops K s1 keys" using Cons.prems(2) by (simp add: drop_unlisted_def s1_def)
  from Cons.IH[OF inv1 this] peek1 show ?case by (auto simp: fun_eq_iff s1_def)
qed

end

text \<open>A codec that decodes plain addresses only, for the witnesses.\<close>

definition null_codec :: codec where
  "null_codec = \<lparr>json_string = Inl, json_config = Inl, yaml_config = Inl, sort_rules = id\<rparr>"

end
