(* ===== verification/Metrics.thy ===== *)
theory Metrics
  imports RouteTypes Complex_Main
begin

section \<open>Metrics: metrics/metrics.go\<close>

text \<open>
  The process-wide metrics as one record: a Prometheus counter vector is a function from its
  label values to a natural number, a gauge vector to an integer; histograms of latencies are
  not modelled. Below them the cardinality switch, the parse error summary, the hit rate
  tracker and the pool statistics collector. Rates are the rationals that the code rounds.
\<close>

record RouteConfigParseErrorInfo =
  peTotal :: uint64
  peLastAt :: time

record metrics =
  cardinality :: int
  RouteHits :: "string \<times> string \<Rightarrow> nat"
  RouteMisses :: "string \<times> string \<Rightarrow> nat"
  InstanceFallbacks :: "string \<Rightarrow> nat"
  RouteConfigParseErrors :: "string \<Rightarrow> nat"
  parseErrorInfo :: "string \<rightharpoonup> RouteConfigParseErrorInfo"
  CacheHits :: "string \<Rightarrow> nat"
  CacheMisses :: "string \<Rightarrow> nat"
  DataSourceHealth :: "string \<Rightarrow> int"
  RouteConfigCount :: "string \<Rightarrow> int"
  WatchEvents :: "string \<times> string \<Rightarrow> nat"
  PoolHits :: "string \<times> string \<Rightarrow> nat"
  PoolMisses :: "string \<times> string \<Rightarrow> nat"
  PoolTimeouts :: "string \<times> string \<Rightarrow> nat"
  PoolStaleConns :: "string \<times> string \<Rightarrow> nat"
  PoolTotalConns :: "string \<times> string \<Rightarrow> int"
  PoolIdleConns :: "string \<times> string \<Rightarrow> int"

definition initial_metrics :: metrics where
  "initial_metrics = \<lparr>cardinality = 0, RouteHits = (\<lambda>_. 0), RouteMisses = (\<lambda>_. 0), InstanceFallbacks = (\<lambda>_. 0),
     RouteConfigParseErrors = (\<lambda>_. 0), parseErrorInfo = Map.empty, CacheHits = (\<lambda>_. 0), CacheMisses = (\<lambda>_. 0),
     DataSourceHealth = (\<lambda>_. 0), RouteConfigCount = (\<lambda>_. 0), WatchEvents = (\<lambda>_. 0), PoolHits = (\<lambda>_. 0),
     PoolMisses = (\<lambda>_. 0), PoolTimeouts = (\<lambda>_. 0), PoolStaleConns = (\<lambda>_. 0), PoolTotalConns = (\<lambda>_. 0),
     PoolIdleConns = (\<lambda>_. 0)\<rparr>"

definition inc :: "('l \<Rightarrow> nat) \<Rightarrow> 'l \<Rightarrow> ('l \<Rightarrow> nat)" where
  "inc f l = f(l := Suc (f l))"

subsection \<open>Cardinality\<close>

text \<open>
  \<open>strings.ToLower\<close>, as far as a comparison with an ASCII word can tell: besides the ASCII
  letters, only the dotted capital I and the Kelvin sign have an ASCII lower case.
\<close>

fun lower_ascii :: "string \<Rightarrow> string" where
  "lower_ascii (a # b # s) =
     (if a = CHR 0xC4 \<and> b = CHR 0xB0 then CHR ''i'' # lower_ascii s
      else if a = CHR 0xE2 \<and> b = CHR 0x84 \<and> s \<noteq> [] \<and> hd s = CHR 0xAA then CHR ''k'' # lower_ascii (tl s)
      else (if CHR ''A'' \<le> a \<and> a \<le> CHR ''Z'' then char_of (of_char a + 32 :: nat) else a) # lower_ascii (b # s))"
| "lower_ascii [a] = [if CHR ''A'' \<le> a \<and> a \<le> CHR ''Z'' then char_of (of_char a + 32 :: nat) else a]"
| "lower_ascii [] = []"

text \<open>The error, if any, is identified by the mode that its text quotes.\<close>

definition SetRouteMetricsCardinalityFromString :: "metrics \<Rightarrow> string \<Rightarrow> string option \<times> metrics" where
  "SetRouteMetricsCardinalityFromString m mode =
     (let v = lower_ascii (TrimSpace mode) in
      if v = [] \<or> v = ''detailed'' then (None, m\<lparr>cardinality := 0\<rparr>)
      else if v = ''coarse'' then (None, m\<lparr>cardinality := 1\<rparr>)
      else (Some mode, m))"

definition coarse :: "metrics \<Rightarrow> bool" where
  "coarse m \<longleftrightarrow> cardinality m = 1"

definition RouteMetricsCardinalityMode :: "metrics \<Rightarrow> string" where
  "RouteMetricsCardinalityMode m = (if coarse m then ''coarse'' else ''detailed'')"

definition coarseLabelValue :: string where
  "coarseLabelValue = ''__all__''"

subsection \<open>Recording\<close>

definition RecordRouteHit :: "metrics \<Rightarrow> string \<Rightarrow> string \<Rightarrow> metrics" where
  "RecordRouteHit m key upstream =
     m\<lparr>RouteHits := inc (RouteHits m)
         (if RouteMetricsCardinalityMode m = ''coarse'' then (coarseLabelValue, coarseLabelValue) else (key, upstream))\<rparr>"

definition RecordRouteMiss :: "metrics \<Rightarrow> string \<Rightarrow> string \<Rightarrow> metrics" where
  "RecordRouteMiss m key reason =
     m\<lparr>RouteMisses := inc (RouteMisses m)
         (if RouteMetricsCardinalityMode m = ''coarse'' then (coarseLabelValue, reason) else (key, reason))\<rparr>"

definition RecordInstanceFallback :: "metrics \<Rightarrow> string \<Rightarrow> metrics" where
  "RecordInstanceFallback m reason =
     m\<lparr>InstanceFallbacks := inc (InstanceFallbacks m) (if reason = [] then ''error'' else reason)\<rparr>"

definition RecordRouteConfigParseError :: "time \<Rightarrow> metrics \<Rightarrow> string \<Rightarrow> metrics" where
  "RecordRouteConfigParseError now m sourceType0 =
     (let sourceType = (if sourceType0 = [] then ''unknown'' else sourceType0);
          info = (case parseErrorInfo m sourceType of Some i \<Rightarrow> i | None \<Rightarrow> \<lparr>peTotal = 0, peLastAt = 0\<rparr>)
      in m\<lparr>RouteConfigParseErrors := inc (RouteConfigParseErrors m) sourceType,
           parseErrorInfo := (parseErrorInfo m)(sourceType \<mapsto> \<lparr>peTotal = peTotal info + 1, peLastAt = now\<rparr>)\<rparr>)"

definition RouteConfigParseErrorSnapshot :: "metrics \<Rightarrow> (string \<rightharpoonup> RouteConfigParseErrorInfo)" where
  "RouteConfigParseErrorSnapshot m = parseErrorInfo m"

definition RecordCacheHit :: "metrics \<Rightarrow> string \<Rightarrow> metrics" where
  "RecordCacheHit m sourceType = m\<lparr>CacheHits := inc (CacheHits m) sourceType\<rparr>"

definition RecordCacheMiss :: "metrics \<Rightarrow> string \<Rightarrow> metrics" where
  "RecordCacheMiss m sourceType = m\<lparr>CacheMisses := inc (CacheMisses m) sourceType\<rparr>"

definition SetDataSourceHealth :: "metrics \<Rightarrow> string \<Rightarrow> bool \<Rightarrow> metrics" where
  "SetDataSourceHealth m sourceType healthy =
     m\<lparr>DataSourceHealth := (DataSourceHealth m)(sourceType := (if healthy then 1 else 0))\<rparr>"

definition SetRouteConfigCount :: "metrics \<Rightarrow> string \<Rightarrow> int \<Rightarrow> metrics" where
  "SetRouteConfigCount m sourceType n = m\<lparr>RouteConfigCount := (RouteConfigCount m)(sourceType := n)\<rparr>"

definition RecordWatchEvent :: "metrics \<Rightarrow> string \<Rightarrow> string \<Rightarrow> metrics" where
  "RecordWatchEvent m sourceType eventType = m\<lparr>WatchEvents := inc (WatchEvents m) (sourceType, eventType)\<rparr>"

subsection \<open>The hit rate tracker\<close>

record CacheHitRateTracker =
  tHits :: int
  tMisses :: int
  tLastReset :: time
  tWindow :: duration

definition NewCacheHitRateTracker :: "time \<Rightarrow> duration \<Rightarrow> CacheHitRateTracker" where
  "NewCacheHitRateTracker now window = \<lparr>tHits = 0, tMisses = 0, tLastReset = now, tWindow = window\<rparr>"

definition maybeReset :: "(nat \<Rightarrow> time) \<Rightarrow> CacheHitRateTracker \<Rightarrow> CacheHitRateTracker" where
  "maybeReset ts t =
     (if tWindow t < Since (ts 0) (tLastReset t) then t\<lparr>tHits := 0, tMisses := 0, tLastReset := ts 1\<rparr> else t)"

definition tracker_RecordHit :: "(nat \<Rightarrow> time) \<Rightarrow> CacheHitRateTracker \<Rightarrow> CacheHitRateTracker" where
  "tracker_RecordHit ts t = (let t1 = maybeReset ts t in t1\<lparr>tHits := wrap64 (tHits t1 + 1)\<rparr>)"

definition tracker_RecordMiss :: "(nat \<Rightarrow> time) \<Rightarrow> CacheHitRateTracker \<Rightarrow> CacheHitRateTracker" where
  "tracker_RecordMiss ts t = (let t1 = maybeReset ts t in t1\<lparr>tMisses := wrap64 (tMisses t1 + 1)\<rparr>)"

definition tracker_HitRate :: "CacheHitRateTracker \<Rightarrow> rat" where
  "tracker_HitRate t =
     (let tot = wrap64 (tHits t + tMisses t) in
      if tot = 0 then 0 else of_int (tHits t) / of_int tot)"

subsection \<open>Pool statistics\<close>

record PoolStats =
  psHits :: uint32
  psMisses :: uint32
  psTimeouts :: uint32
  psTotalConns :: uint32
  psIdleConns :: uint32
  psStaleConns :: uint32

record PoolStatsCollector =
  pcSourceType :: string
  pcInstance :: string
  prevHits :: uint32
  prevMisses :: uint32
  prevTimeouts :: uint32
  prevStaleConns :: uint32

definition NewPoolStatsCollector :: "string \<Rightarrow> string \<Rightarrow> PoolStatsCollector" where
  "NewPoolStatsCollector sourceType inst =
     \<lparr>pcSourceType = sourceType, pcInstance = inst, prevHits = 0, prevMisses = 0, prevTimeouts = 0, prevStaleConns = 0\<rparr>"

definition add_delta :: "(string \<times> string \<Rightarrow> nat) \<Rightarrow> string \<times> string \<Rightarrow> uint32 \<Rightarrow> uint32 \<Rightarrow> (string \<times> string \<Rightarrow> nat)" where
  "add_delta f l cur prev =
     (if prev \<le> cur then (let delta = cur - prev in if 0 < delta then f(l := f l + unat delta) else f) else f)"

definition PoolStats_Update :: "metrics \<Rightarrow> PoolStatsCollector \<Rightarrow> PoolStats \<Rightarrow> metrics \<times> PoolStatsCollector" where
  "PoolStats_Update m c stats =
     (let l = (pcSourceType c, pcInstance c) in
      (m\<lparr>PoolHits := add_delta (PoolHits m) l (psHits stats) (prevHits c),
         PoolMisses := add_delta (PoolMisses m) l (psMisses stats) (prevMisses c),
         PoolTimeouts := add_delta (PoolTimeouts m) l (psTimeouts stats) (prevTimeouts c),
         PoolStaleConns := add_delta (PoolStaleConns m) l (psStaleConns stats) (prevStaleConns c),
         PoolTotalConns := (PoolTotalConns m)(l := int (unat (psTotalConns stats))),
         PoolIdleConns := (PoolIdleConns m)(l := int (unat (psIdleConns stats)))\<rparr>,
       c\<lparr>prevHits := psHits stats, prevMisses := psMisses stats, prevTimeouts := psTimeouts stats,
         prevStaleConns := psStaleConns stats\<rparr>))"

fun pool_updates :: "metrics \<Rightarrow> PoolStatsCollector \<Rightarrow> PoolStats list \<Rightarrow> metrics \<times> PoolStatsCollector" where
  "pool_updates m c [] = (m, c)"
| "pool_updates m c (s # ss) = (case PoolStats_Update m c s of (m', c') \<Rightarrow> pool_updates m' c' ss)"

lemma add_delta_up: "unat prev \<le> unat cur \<Longrightarrow> add_delta f l cur prev l + unat prev = f l + unat cur"
  by (auto simp: add_delta_def Let_def word_le_nat_alt unat_sub word_less_nat_alt not_less)

text \<open>
  The pool counters add up. While the client's counters do not go back (a restart or a
  wrap-around of 32 bits), the exported counter grows over any number of updates by exactly
  what the client counted in between, and the collector remembers the last value.
\<close>

theorem pool_counter_exact:
  assumes "sorted (prevHits c # map psHits stats)" and "(m', c') = pool_updates m c stats"
  shows "PoolHits m' (pcSourceType c, pcInstance c) + unat (prevHits c) =
      PoolHits m (pcSourceType c, pcInstance c) + unat (prevHits c') \<and>
    prevHits c' = last (prevHits c # map psHits stats)"
  using assms
proof (induction stats arbitrary: m c)
  case Nil
  then show ?case by simp
next
  case (Cons s stats)
  obtain m1 c1 where u: "PoolStats_Update m c s = (m1, c1)" by fastforce
  have c1: "pcSourceType c1 = pcSourceType c" "pcInstance c1 = pcInstance c" "prevHits c1 = psHits s"
    and m1: "PoolHits m1 = add_delta (PoolHits m) (pcSourceType c, pcInstance c) (psHits s) (prevHits c)"
    using u by (auto simp: PoolStats_Update_def Let_def)
  have "unat (prevHits c) \<le> unat (psHits s)" using Cons.prems(1) by (simp add: word_le_nat_alt)
  note step = add_delta_up[OF this, of "PoolHits m" "(pcSourceType c, pcInstance c)"]
  have ih: "PoolHits m' (pcSourceType c1, pcInstance c1) + unat (prevHits c1) =
      PoolHits m1 (pcSourceType c1, pcInstance c1) + unat (prevHits c') \<and>
    prevHits c' = last (prevHits c1 # map psHits stats)"
    by (rule Cons.IH) (use Cons.prems u c1 in auto)
  have "PoolHits m' (pcSourceType c, pcInstance c) + unat (psHits s) =
      PoolHits m1 (pcSourceType c, pcInstance c) + unat (prevHits c')"
    using conjunct1[OF ih] unfolding c1 .
  with step have "PoolHits m' (pcSourceType c, pcInstance c) + unat (prevHits c) =
      PoolHits m (pcSourceType c, pcInstance c) + unat (prevHits c')"
    unfolding m1 by linarith
  moreover have "prevHits c' = last (prevHits c # map psHits (s # stats))"
    using conjunct2[OF ih] c1 by simp
  ultimately show ?case by blast
qed

theorem pool_counter_exact_witness:
  "PoolHits (fst (pool_updates initial_metrics (NewPoolStatsCollector ''redis'' ''a'')
     [\<lparr>psHits = 3, psMisses = 0, psTimeouts = 0, psTotalConns = 1, psIdleConns = 1, psStaleConns = 0\<rparr>,
      \<lparr>psHits = 8, psMisses = 0, psTimeouts = 0, psTotalConns = 1, psIdleConns = 1, psStaleConns = 0\<rparr>])) (''redis'', ''a'') = 8"
  using pool_counter_exact[where m = initial_metrics and c = "NewPoolStatsCollector ''redis'' ''a''" and
      stats = "[\<lparr>psHits = 3, psMisses = 0, psTimeouts = 0, psTotalConns = 1, psIdleConns = 1, psStaleConns = 0\<rparr>,
        \<lparr>psHits = 8, psMisses = 0, psTimeouts = 0, psTotalConns = 1, psIdleConns = 1, psStaleConns = 0\<rparr>]",
      OF _ surjective_pairing[symmetric]]
  by (simp add: NewPoolStatsCollector_def initial_metrics_def del: pool_updates.simps)

end
