(* ===== verification/RouteStats.thy ===== *)
theory RouteStats
  imports Lru
begin

section \<open>Route statistics: admin.go, RouteStatsRegistry\<close>

text \<open>
  Two LRU caches from routing keys to \<open>int64\<close> counts, with room for 1000 keys each: \<open>RecordHit\<close>
  and \<open>RecordMiss\<close> read, add one and write back; \<open>GetStats\<close> copies both caches into maps.
\<close>

record 'c RouteStatsRegistry =
  rs_hits :: 'c
  rs_misses :: 'c

record RouteStats =
  statHits :: "string \<rightharpoonup> int"
  statMisses :: "string \<rightharpoonup> int"

definition defaultRouteStatsMaxKeys :: int where
  "defaultRouteStatsMaxKeys = 1000"

definition NewRouteStatsRegistry :: "('c, int) lru_ops \<Rightarrow> 'c RouteStatsRegistry" where
  "NewRouteStatsRegistry ops =
     \<lparr>rs_hits = lru_new ops defaultRouteStatsMaxKeys, rs_misses = lru_new ops defaultRouteStatsMaxKeys\<rparr>"

text \<open>The body that both recorders share, on one of the caches.\<close>

definition count_one :: "('c, int) lru_ops \<Rightarrow> 'c \<Rightarrow> string \<Rightarrow> 'c" where
  "count_one ops c key =
     (if key = [] then c
      else (case lru_get ops c key of
              (Some v, c') \<Rightarrow> lru_add ops c' key (wrap64 (v + 1))
            | (None, c') \<Rightarrow> lru_add ops c' key 1))"

definition stats_RecordHit :: "('c, int) lru_ops \<Rightarrow> 'c RouteStatsRegistry \<Rightarrow> string \<Rightarrow> string \<Rightarrow> 'c RouteStatsRegistry" where
  "stats_RecordHit ops r key addr = r\<lparr>rs_hits := count_one ops (rs_hits r) key\<rparr>"

definition stats_RecordMiss :: "('c, int) lru_ops \<Rightarrow> 'c RouteStatsRegistry \<Rightarrow> string \<Rightarrow> string \<Rightarrow> 'c RouteStatsRegistry" where
  "stats_RecordMiss ops r key reason = r\<lparr>rs_misses := count_one ops (rs_misses r) key\<rparr>"

definition copy_counts :: "('c, int) lru_ops \<Rightarrow> 'c \<Rightarrow> (string \<rightharpoonup> int)" where
  "copy_counts ops c =
     fold (\<lambda>k m. case lru_peek ops c k of Some v \<Rightarrow> m(k \<mapsto> v) | None \<Rightarrow> m) (lru_keys ops c) Map.empty"

definition GetStats :: "('c, int) lru_ops \<Rightarrow> 'c RouteStatsRegistry \<Rightarrow> RouteStats" where
  "GetStats ops r = \<lparr>statHits = copy_counts ops (rs_hits r), statMisses = copy_counts ops (rs_misses r)\<rparr>"

subsection \<open>A history of recordings\<close>

datatype stat_op = RecHit string string | RecMiss string string

fun stats_step :: "('c, int) lru_ops \<Rightarrow> 'c RouteStatsRegistry \<Rightarrow> stat_op \<Rightarrow> 'c RouteStatsRegistry" where
  "stats_step ops r (RecHit k a) = stats_RecordHit ops r k a"
| "stats_step ops r (RecMiss k a) = stats_RecordMiss ops r k a"

fun hit_keys :: "stat_op list \<Rightarrow> string list" where
  "hit_keys [] = []"
| "hit_keys (RecHit k a # es) = (if k = [] then hit_keys es else k # hit_keys es)"
| "hit_keys (RecMiss k a # es) = hit_keys es"

fun miss_keys :: "stat_op list \<Rightarrow> string list" where
  "miss_keys [] = []"
| "miss_keys (RecMiss k a # es) = (if k = [] then miss_keys es else k # miss_keys es)"
| "miss_keys (RecHit k a # es) = miss_keys es"

lemma stats_run_hits: "rs_hits (fold (\<lambda>e r. stats_step ops r e) es r) = fold (\<lambda>k c. count_one ops c k) (hit_keys es) (rs_hits r)"
  by (induction es arbitrary: r rule: hit_keys.induct)
    (auto simp: stats_RecordHit_def stats_RecordMiss_def count_one_def)

lemma stats_run_misses: "rs_misses (fold (\<lambda>e r. stats_step ops r e) es r) = fold (\<lambda>k c. count_one ops c k) (miss_keys es) (rs_misses r)"
  by (induction es arbitrary: r rule: miss_keys.induct)
    (auto simp: stats_RecordHit_def stats_RecordMiss_def count_one_def)

lemma hit_keys_nonempty: "[] \<notin> set (hit_keys es)"
  by (induction es rule: hit_keys.induct) (auto split: if_splits)

lemma miss_keys_nonempty: "[] \<notin> set (miss_keys es)"
  by (induction es rule: miss_keys.induct) (auto split: if_splits)

lemma length_hit_keys: "length (hit_keys es) \<le> length es"
  by (induction es rule: hit_keys.induct) (auto split: if_splits)

lemma length_miss_keys: "length (miss_keys es) \<le> length es"
  by (induction es rule: miss_keys.induct) (auto split: if_splits)

text \<open>The map of counts that a list of keys should produce.\<close>

definition tally :: "string list \<Rightarrow> string \<Rightarrow> int option" where
  "tally ks k = (if k \<in> set ks then Some (int (count_list ks k)) else None)"

definition no_more :: "int option \<Rightarrow> int option \<Rightarrow> bool" where
  "no_more a b = (case a of None \<Rightarrow> True | Some x \<Rightarrow> (case b of None \<Rightarrow> False | Some y \<Rightarrow> 1 \<le> x \<and> x \<le> y))"

lemma no_more_some: "no_more (Some x) b \<longleftrightarrow> 1 \<le> x \<and> (\<exists>y. b = Some y \<and> x \<le> y)"
  by (cases b) (auto simp: no_more_def)

lemma no_more_none [simp]: "no_more None b"
  by (simp add: no_more_def)

lemma tally_snoc: "tally (ks @ [k]) j = (if j = k then Some (int (count_list ks k) + 1) else tally ks j)"
  by (auto simp: tally_def count_list_append count_list_0_iff)

locale stats_lru = lru ops cap ok for ops :: "('c, int) lru_ops" and cap ok
begin

lemma count_one_basic:
  assumes "ok c"
  shows "ok (count_one ops c k) \<and> cap (count_one ops c k) = cap c"
  using assms get_pair[OF _ assms]
  by (auto simp: count_one_def lru_simps split: prod.splits option.splits)

lemma count_one_peek:
  assumes "ok c" and "k \<noteq> []"
  shows "lru_peek ops (count_one ops c k) k =
      Some (case lru_peek ops c k of None \<Rightarrow> 1 | Some v \<Rightarrow> wrap64 (v + 1))"
  using assms get_pair[OF _ assms(1)]
  by (fastforce simp: count_one_def add_same split: prod.splits option.splits)

lemma count_one_other:
  assumes "ok c" and "j \<noteq> k"
  shows "lru_peek ops (count_one ops c k) j = None \<or> lru_peek ops (count_one ops c k) j = lru_peek ops c j"
proof -
  obtain v c' where g: "lru_get ops c k = (v, c')" by fastforce
  note p = get_pair[OF g assms(1)]
  have "lru_peek ops (lru_add ops c' k w) j = None \<or> lru_peek ops (lru_add ops c' k w) j = lru_peek ops c j" for w
    using add_other[of c' j k w] p assms(2) by auto
  then show ?thesis by (auto simp: count_one_def g split: option.splits)
qed

lemma keys_after_get:
  assumes "lru_get ops c k = (v, c')" and "ok c"
  shows "set (lru_keys ops c') = set (lru_keys ops c) \<and> length (lru_keys ops c') = length (lru_keys ops c)"
proof -
  note p = get_pair[OF assms]
  then have "set (lru_keys ops c') = set (lru_keys ops c)"
    using dom_peek[of c'] dom_peek[OF assms(2)] by simp
  moreover have "distinct (lru_keys ops c')" "distinct (lru_keys ops c)"
    using keys_distinct p assms(2) by blast+
  ultimately show ?thesis using distinct_card by metis
qed

lemma count_one_room:
  assumes "ok c" and "j \<noteq> k" and "k \<in> set (lru_keys ops c) \<or> length (lru_keys ops c) < cap c"
  shows "lru_peek ops (count_one ops c k) j = lru_peek ops c j"
proof -
  obtain v c' where g: "lru_get ops c k = (v, c')" by fastforce
  note p = get_pair[OF g assms(1)] and q = keys_after_get[OF g assms(1)]
  have "lru_peek ops (lru_add ops c' k w) j = lru_peek ops c j" for w
    using add_room[of c' j k w] p q assms by auto
  then show ?thesis by (auto simp: count_one_def g split: option.splits)
qed

text \<open>The caches never overstate a count, and are exact while the keys fit.\<close>

lemma count_fits: "int (count_list ks k) + 1 < 2 ^ 62 \<Longrightarrow> 1 \<le> v \<Longrightarrow> v \<le> int (count_list ks k) \<Longrightarrow> wrap64 (v + 1) = v + 1"
  by (intro wrap64_ok) (auto simp: int_ok_def)

lemma count_one_sound:
  assumes "ok d" "k \<noteq> []" "\<And>k. no_more (lru_peek ops d k) (tally ks k)" "int (count_list ks k) + 1 < 2 ^ 62"
  shows "no_more (lru_peek ops (count_one ops d k) j) (tally (ks @ [k]) j)"
proof (cases "j = k")
  case True
  note own = count_one_peek[OF assms(1,2)]
  show ?thesis
  proof (cases "lru_peek ops d k")
    case None
    then show ?thesis using own True by (simp add: tally_snoc no_more_some)
  next
    case (Some v)
    then have "1 \<le> v" "v \<le> int (count_list ks k)"
      using assms(3)[of k] by (auto simp: no_more_some tally_def split: if_splits)
    with count_fits[OF assms(4)] Some own True show ?thesis by (simp add: tally_snoc no_more_some)
  qed
next
  case False
  then show ?thesis using count_one_other[OF assms(1) False] assms(3)[of j] by (auto simp: tally_snoc)
qed

lemma count_one_exact:
  assumes "ok d" "k \<noteq> []" "lru_peek ops d = tally ks" "int (count_list ks k) + 1 < 2 ^ 62"
    and "card (set (ks @ [k])) \<le> cap d"
  shows "lru_peek ops (count_one ops d k) = tally (ks @ [k])"
proof
  fix j
  have keys: "set (lru_keys ops d) = set ks"
    using dom_peek[OF assms(1)] by (auto simp: assms(3) tally_def dom_def split: if_splits)
  then have len: "length (lru_keys ops d) = card (set ks)"
    using distinct_card[OF keys_distinct[OF assms(1)]] by simp
  note own = count_one_peek[OF assms(1,2)]
  show "lru_peek ops (count_one ops d k) j = tally (ks @ [k]) j"
  proof (cases "j = k")
    case True
    show ?thesis
    proof (cases "k \<in> set ks")
      case in_ks: True
      then have "1 \<le> int (count_list ks k)" using count_list_0_iff[of ks k] by linarith
      then show ?thesis using own count_fits[OF assms(4), of "int (count_list ks k)"] True in_ks
        by (simp add: assms(3) tally_snoc) (simp add: tally_def)
    next
      case False
      then show ?thesis using own True by (simp add: assms(3) tally_snoc) (simp add: tally_def count_list_0_iff)
    qed
  next
    case False
    have "k \<in> set (lru_keys ops d) \<or> length (lru_keys ops d) < cap d"
      using assms(5) len keys by (cases "k \<in> set ks") (auto simp: card_insert_if)
    then show ?thesis using count_one_room[OF assms(1) False] False by (simp add: assms(3) tally_snoc)
  qed
qed

lemma counts_sound:
  assumes "ok c" and "lru_keys ops c = []" and "[] \<notin> set ks" and "length ks < 2 ^ 62"
  shows "let c' = fold (\<lambda>k c. count_one ops c k) ks c in
    ok c' \<and> cap c' = cap c \<and> (\<forall>k. no_more (lru_peek ops c' k) (tally ks k)) \<and>
    (card (set ks) \<le> cap c \<longrightarrow> lru_peek ops c' = tally ks)"
  using assms(3,4)
proof (induction ks rule: rev_induct)
  case Nil
  have "lru_peek ops c k = None" for k using peek_keys[OF assms(1)] assms(2) by simp
  then show ?case using assms(1) by (auto simp: tally_def Let_def)
next
  case (snoc k ks)
  define d where "d = fold (\<lambda>k c. count_one ops c k) ks c"
  have d: "ok d" "cap d = cap c" "\<And>k. no_more (lru_peek ops d k) (tally ks k)"
    "card (set ks) \<le> cap c \<Longrightarrow> lru_peek ops d = tally ks"
    using snoc by (auto simp: Let_def d_def)
  have k: "k \<noteq> []" using snoc.prems by auto
  have small: "int (count_list ks k) + 1 < 2 ^ 62"
    using snoc.prems(2) count_le_length[of ks k] by simp
  have "lru_peek ops (count_one ops d k) = tally (ks @ [k])" if le: "card (set (ks @ [k])) \<le> cap c"
  proof -
    have "card (set ks) \<le> cap c" using le by (auto simp: card_insert_if split: if_splits)
    from count_one_exact[OF d(1) k d(4)[OF this] small] show ?thesis using le d(2) by simp
  qed
  then show ?case using count_one_sound[OF d(1) k d(3) small] count_one_basic[OF d(1), of k] d(2) by (simp add: d_def Let_def)
qed

lemma copy_counts_peek:
  assumes "ok c"
  shows "copy_counts ops c = lru_peek ops c"
proof -
  have "fold (\<lambda>k m. case lru_peek ops c k of Some v \<Rightarrow> m(k \<mapsto> v) | None \<Rightarrow> m) ks m =
      (\<lambda>k. if k \<in> set ks \<and> lru_peek ops c k \<noteq> None then lru_peek ops c k else m k)" for ks m
    by (induction ks arbitrary: m) (auto simp: fun_eq_iff split: option.splits)
  moreover have "lru_peek ops c k = None" if "k \<notin> set (lru_keys ops c)" for k
    using peek_keys[OF assms] that by simp
  ultimately show ?thesis by (auto simp: copy_counts_def fun_eq_iff)
qed

end

interpretation list_stats: stats_lru list_lru_ops ll_cap ll_ok
  by unfold_locales

text \<open>
  C38: the route statistics. After any history of recordings (shorter than 2 to the 62) into a new
  registry, every count that the admin endpoint reports belongs to a key that was recorded
  and is at most its true number of recordings; at most 1000 keys are reported; and while no
  more than 1000 different keys occurred, the reported maps are exact.
\<close>

theorem route_stats_exact:
  assumes "stats_lru ops cap ok" and "length es < 2 ^ 62"
    and "r = fold (\<lambda>e r. stats_step ops r e) es (NewRouteStatsRegistry ops)"
  shows "(\<forall>k. no_more (statHits (GetStats ops r) k) (tally (hit_keys es) k) \<and>
        no_more (statMisses (GetStats ops r) k) (tally (miss_keys es) k)) \<and>
    card (dom (statHits (GetStats ops r))) \<le> 1000 \<and> card (dom (statMisses (GetStats ops r))) \<le> 1000 \<and>
    (card (set (hit_keys es)) \<le> 1000 \<longrightarrow> statHits (GetStats ops r) = tally (hit_keys es)) \<and>
    (card (set (miss_keys es)) \<le> 1000 \<longrightarrow> statMisses (GetStats ops r) = tally (miss_keys es))"
proof -
  have l: "lru ops cap ok" using assms(1) by (rule stats_lru.axioms)
  note new = lru.new_ok[OF l] lru.new_keys[OF l] lru.new_cap[OF l]
  let ?c = "lru_new ops defaultRouteStatsMaxKeys"
  have one: "(\<forall>k. no_more (copy_counts ops c k) (tally ks k)) \<and> card (dom (copy_counts ops c)) \<le> 1000 \<and>
      (card (set ks) \<le> 1000 \<longrightarrow> copy_counts ops c = tally ks)"
    if "c = fold (\<lambda>k c. count_one ops c k) ks ?c" "[] \<notin> set ks" "length ks \<le> length es" for c ks
  proof -
    have "length ks < 2 ^ 62" using that(3) assms(2) by linarith
    then have s: "ok c \<and> cap c = 1000 \<and> (\<forall>k. no_more (lru_peek ops c k) (tally ks k)) \<and>
        (card (set ks) \<le> 1000 \<longrightarrow> lru_peek ops c = tally ks)"
      using stats_lru.counts_sound[OF assms(1) _ _ that(2), of ?c] new[of defaultRouteStatsMaxKeys] that(1)
      by (simp add: defaultRouteStatsMaxKeys_def Let_def)
    have "card (dom (lru_peek ops c)) \<le> 1000"
      using lru.dom_peek[OF l, of c] lru.len_cap[OF l, of c] s card_length[of "lru_keys ops c"] by simp
    then show ?thesis using s stats_lru.copy_counts_peek[OF assms(1), of c] by simp
  qed
  have h: "rs_hits r = fold (\<lambda>k c. count_one ops c k) (hit_keys es) ?c"
    and m: "rs_misses r = fold (\<lambda>k c. count_one ops c k) (miss_keys es) ?c"
    unfolding assms(3) by (simp_all add: stats_run_hits stats_run_misses NewRouteStatsRegistry_def)
  show ?thesis
    using one[OF h hit_keys_nonempty length_hit_keys] one[OF m miss_keys_nonempty length_miss_keys]
    by (simp add: GetStats_def)
qed

theorem route_stats_exact_witness:
  "statHits (GetStats list_lru_ops
     (fold (\<lambda>e r. stats_step list_lru_ops r e) [RecHit ''a'' ''x'', RecMiss ''b'' ''no_key'', RecHit ''a'' ''y'', RecHit [] ''z'']
        (NewRouteStatsRegistry list_lru_ops))) ''a'' = Some 2"
  using route_stats_exact[OF list_stats.stats_lru_axioms _ refl,
      of "[RecHit ''a'' ''x'', RecMiss ''b'' ''no_key'', RecHit ''a'' ''y'', RecHit [] ''z'']"]
  by (simp add: tally_def del: fold_simps stats_step.simps)

end
