(* ===== verification/DynamicSelection.thy ===== *)
theory DynamicSelection
  imports RuleMatcher Extractor AdminRegistry DataSource Metrics RouteStats
begin

section \<open>The selection policy: plugin.go\<close>

text \<open>
  \<open>DynamicSelection\<close>, the selection policy that Caddy's reverse proxy calls: \<open>Provision\<close>, \<open>Select\<close>
  with its local function \<open>attempt\<close>, and the index of the pool. The data source is a parameter
  behind the interface \<open>data_source\<close>: its \<open>Get\<close> and \<open>Healthy\<close> at the time of the request and the
  module identifier. An upstream of Caddy is its dial address and its identity as a pointer;
  whether it is available is the answer of Caddy at the time of the request. The fallback policy
  is Caddy's too. Metrics and route statistics are process-wide: the operations take and return
  them. Latency histograms and logging are not modelled.
\<close>

record upstream =
  uDial :: string
  uRef :: nat

record fallback_policy =
  fbID :: string
  fbSelect :: "upstream list \<Rightarrow> http_request \<Rightarrow> upstream option"

record ('rc, 'sc, 's) DynamicSelection =
  dKey :: string
  dInstanceKey :: string
  dVersionKey :: string
  DataSourceRaw :: "string option"
  FallbackRaw :: "string option"
  MetricsCardinality :: string
  keyExtractor :: "PlaceholderExtractor option"
  instanceKeyExtractor :: "PlaceholderExtractor option"
  versionKeyExtractor :: "PlaceholderExtractor option"
  dataSource :: "'s option"
  fallback :: "fallback_policy option"
  ruleMatcher :: "('rc, 'sc) RuleMatcher"
  dataSourceTypeName :: string
  isUpstreamAvailable :: "((upstream \<Rightarrow> bool) \<Rightarrow> upstream \<Rightarrow> bool) option"
  poolIndex :: "(string \<rightharpoonup> upstream) option"
  lastPoolSize :: int
  dAdminName :: string

text \<open>The value that the request context holds under the key of the replacer.\<close>

datatype replacer_value = NoReplacer | OtherValue | NilReplacer | Replacer "string \<Rightarrow> string option"

text \<open>
  What a request meets: the clock at the expiry check, the answers of the data source and of
  \<open>Upstream.Available\<close>, the matcher's libraries and the library of the statistics.
\<close>

record ('rc, 'sc, 're, 's, 'c) policy_env =
  pe_match :: "('rc, 'sc, 're) match_env"
  pe_stats :: "('c, int) lru_ops"
  pe_get :: "'s \<Rightarrow> string \<Rightarrow> RouteConfig option res \<times> 's"
  pe_healthy :: "'s \<Rightarrow> bool"
  pe_available :: "upstream \<Rightarrow> bool"
  pe_now :: time

record 'c world =
  w_metrics :: metrics
  w_stats :: "'c RouteStatsRegistry"

subsection \<open>Provision and Cleanup\<close>

definition computeDataSourceType :: "('s \<Rightarrow> string) \<Rightarrow> ('rc, 'sc, 's) DynamicSelection \<Rightarrow> string" where
  "computeDataSourceType moduleID s =
     (case dataSource s of None \<Rightarrow> ''unknown'' | Some ds \<Rightarrow> after_last (CHR ''.'') (moduleID ds))"

definition dataSourceType :: "('rc, 'sc, 's) DynamicSelection \<Rightarrow> string" where
  "dataSourceType s = (if dataSourceTypeName s \<noteq> [] then dataSourceTypeName s else ''unknown'')"

definition dataSourceTypeForAdmin :: "('s \<Rightarrow> string) \<Rightarrow> ('rc, 'sc, 's) DynamicSelection \<Rightarrow> string" where
  "dataSourceTypeForAdmin moduleID s =
     (case dataSource s of
        None \<Rightarrow> ''''
      | Some ds \<Rightarrow>
          if dataSourceTypeName s \<noteq> [] \<and> dataSourceTypeName s \<noteq> ''unknown'' then dataSourceTypeName s
          else computeDataSourceType moduleID s)"

definition fallbackPolicyID :: "('rc, 'sc, 's) DynamicSelection \<Rightarrow> string" where
  "fallbackPolicyID s = (case fallback s of None \<Rightarrow> '''' | Some f \<Rightarrow> fbID f)"

definition dataSourceModuleID :: "('s \<Rightarrow> string) \<Rightarrow> ('rc, 'sc, 's) DynamicSelection \<Rightarrow> string" where
  "dataSourceModuleID moduleID s = (case dataSource s of None \<Rightarrow> '''' | Some ds \<Rightarrow> moduleID ds)"

text \<open>
  \<open>Provision\<close> stops at the first error, which it returns; what was set up before stays set up.
  The loader of Caddy modules is a parameter, as is the order in which the shortcuts of the
  extractor are visited. \<open>NewFromExpression\<close> never returns an error, so the error returns behind its
  three calls are unreachable and have no counterpart.
\<close>

definition parse_key :: "(string \<times> string) list \<Rightarrow> string \<Rightarrow> PlaceholderExtractor option \<Rightarrow> PlaceholderExtractor option" where
  "parse_key order expr old = (if expr = [] then old else NewFromExpression order expr)"

definition provision_modules :: "(string \<Rightarrow> 's res) \<Rightarrow> (string \<Rightarrow> fallback_policy res) \<Rightarrow> fallback_policy \<Rightarrow> ('s \<Rightarrow> string) \<Rightarrow>
    ('rc, 'sc, 's) DynamicSelection \<Rightarrow> ('rc, 'sc, 's) DynamicSelection res" where
  "provision_modules load_source load_fallback random moduleID s =
     (case (case DataSourceRaw s of
              None \<Rightarrow> Inr s
            | Some raw \<Rightarrow> (case load_source raw of
                Inl e \<Rightarrow> Inl (''loading data source: '' @ e)
              | Inr ds \<Rightarrow> let s1 = s\<lparr>dataSource := Some ds\<rparr> in Inr (s1\<lparr>dataSourceTypeName := computeDataSourceType moduleID s1\<rparr>))) of
        Inl e \<Rightarrow> Inl e
      | Inr s2 \<Rightarrow>
          (case FallbackRaw s2 of
             None \<Rightarrow> Inr (s2\<lparr>fallback := Some random\<rparr>)
           | Some raw \<Rightarrow> (case load_fallback raw of
               Inl e \<Rightarrow> Inl (''loading fallback policy: '' @ e)
             | Inr f \<Rightarrow> Inr (s2\<lparr>fallback := Some f\<rparr>))))"

definition provision_keys :: "(string \<times> string) list \<Rightarrow> ('rc, 'sc, 's) DynamicSelection \<Rightarrow> ('rc, 'sc, 's) DynamicSelection" where
  "provision_keys order s =
     s\<lparr>keyExtractor := parse_key order (dKey s) (keyExtractor s),
       instanceKeyExtractor := parse_key order (dInstanceKey s) (instanceKeyExtractor s),
       versionKeyExtractor := parse_key order (dVersionKey s) (versionKeyExtractor s)\<rparr>"

definition policy_info :: "('s \<Rightarrow> string) \<Rightarrow> ('rc, 'sc, 's) DynamicSelection \<Rightarrow> SelectionPolicyInfo" where
  "policy_info moduleID s =
     \<lparr>pName = '''', pModuleID = ''http.reverse_proxy.selection_policies.dynamic'', pKey = dKey s,
      pInstanceKey = dInstanceKey s, pVersionKey = dVersionKey s,
      pDataSourceType = dataSourceTypeForAdmin moduleID s, pDataSourceModuleID = dataSourceModuleID moduleID s,
      pFallbackPolicy = fallbackPolicyID s\<rparr>"

definition dynamic_Provision :: "('rc, 'sc, 're) match_env \<Rightarrow> (string \<times> string) list \<Rightarrow> (string \<Rightarrow> 's res) \<Rightarrow>
    (string \<Rightarrow> fallback_policy res) \<Rightarrow> fallback_policy \<Rightarrow> ('s \<Rightarrow> string) \<Rightarrow> metrics \<Rightarrow> selectionPolicyRegistry \<Rightarrow>
    ('rc, 'sc, 's) DynamicSelection \<Rightarrow> ('rc, 'sc, 's) DynamicSelection res \<times> metrics \<times> selectionPolicyRegistry" where
  "dynamic_Provision env order load_source load_fallback random moduleID m g s0 =
     (let s1 = s0\<lparr>ruleMatcher := NewRuleMatcher env,
                  isUpstreamAvailable := (case isUpstreamAvailable s0 of None \<Rightarrow> Some (\<lambda>avail u. avail u) | Some f \<Rightarrow> Some f)\<rparr>;
          (cardErr, m1) = (if MetricsCardinality s1 = [] then (None, m)
                           else SetRouteMetricsCardinalityFromString m (MetricsCardinality s1))
      in case cardErr of
           Some e \<Rightarrow> (Inl (''invalid metrics_cardinality: '' @ e), m1, g)
         | None \<Rightarrow>
             (case provision_modules load_source load_fallback random moduleID (provision_keys order s1) of
                Inl e \<Rightarrow> (Inl e, m1, g)
              | Inr s3 \<Rightarrow>
                  let (name, g') = registerSelectionPolicy g (policy_info moduleID s3)
                  in (Inr (s3\<lparr>dAdminName := name\<rparr>), m1, g')))"

definition dynamic_Cleanup :: "selectionPolicyRegistry \<Rightarrow> ('rc, 'sc, 's) DynamicSelection \<Rightarrow> selectionPolicyRegistry" where
  "dynamic_Cleanup g s = unregisterSelectionPolicy g (dAdminName s)"

subsection \<open>Select\<close>

definition build_index :: "upstream list \<Rightarrow> (string \<rightharpoonup> upstream)" where
  "build_index pool = fold (\<lambda>u m. m(uDial u \<mapsto> u)) pool Map.empty"

definition findUpstreamInPool :: "('rc, 'sc, 's) DynamicSelection \<Rightarrow> upstream list \<Rightarrow> string \<Rightarrow>
    upstream option \<times> ('rc, 'sc, 's) DynamicSelection" where
  "findUpstreamInPool s pool address =
     (case poolIndex s of
        Some idx \<Rightarrow>
          if int (length pool) \<noteq> lastPoolSize s then
            (build_index pool address, s\<lparr>poolIndex := Some (build_index pool), lastPoolSize := int (length pool)\<rparr>)
          else (idx address, s)
      | None \<Rightarrow>
          (build_index pool address, s\<lparr>poolIndex := Some (build_index pool), lastPoolSize := int (length pool)\<rparr>))"

fun scan_candidates :: "(upstream \<Rightarrow> bool) \<Rightarrow> upstream list \<Rightarrow> ('rc, 'sc, 's) DynamicSelection \<Rightarrow> WeightedUpstream list \<Rightarrow>
    WeightedUpstream list \<Rightarrow> WeightedUpstream list \<Rightarrow>
    WeightedUpstream list \<times> WeightedUpstream list \<times> ('rc, 'sc, 's) DynamicSelection" where
  "scan_candidates avail pool s inPool available [] = (inPool, available, s)"
| "scan_candidates avail pool s inPool available (cand # cands) =
     (case findUpstreamInPool s pool (Address cand) of
        (None, s') \<Rightarrow> scan_candidates avail pool s' inPool available cands
      | (Some u, s') \<Rightarrow>
          (case isUpstreamAvailable s' of
             Some f \<Rightarrow>
               if f avail u then scan_candidates avail pool s' (inPool @ [cand]) (available @ [cand]) cands
               else scan_candidates avail pool s' (inPool @ [cand]) available cands
           | None \<Rightarrow> scan_candidates avail pool s' (inPool @ [cand]) (available @ [cand]) cands))"

datatype attempt_result = AttemptOk string string upstream | AttemptMiss string string

text \<open>The second half of \<open>attempt\<close>, with the configuration at hand.\<close>

definition attempt_route :: "('rc, 'sc, 're, 's, 'c) policy_env \<Rightarrow> upstream list \<Rightarrow> http_request \<Rightarrow> (string \<Rightarrow> string option) \<Rightarrow>
    ('rc, 'sc, 's) DynamicSelection \<Rightarrow> string \<Rightarrow> RouteConfig \<Rightarrow> attempt_result \<times> ('rc, 'sc, 's) DynamicSelection" where
  "attempt_route env pool r repl s key config =
     (let (matchRes, rm) = matcher_MatchResult (pe_match env) (ruleMatcher s) (Some r) (Some repl) (Some config);
          s1 = s\<lparr>ruleMatcher := rm\<rparr>
      in case matchRes of
           None \<Rightarrow> (AttemptMiss key ''no_match'', s1)
         | Some res \<Rightarrow>
             let (inPool, available, s2) = scan_candidates (pe_available env) pool s1 [] [] (mUpstreams res) in
             if inPool = [] then (AttemptMiss key ''not_in_pool'', s2)
             else if available = [] then (AttemptMiss key ''no_available_upstream'', s2)
             else
               let (selected, rm') = SelectFromUpstreams (pe_match env) (ruleMatcher s2) r available (mAlgorithm res) (mAlgorithmKey res);
                   s3 = s2\<lparr>ruleMatcher := rm'\<rparr>
               in case selected of
                    None \<Rightarrow> (AttemptMiss key ''no_match'', s3)
                  | Some w \<Rightarrow>
                      (case findUpstreamInPool s3 pool (Address w) of
                         (None, s4) \<Rightarrow> (AttemptMiss key ''not_in_pool'', s4)
                       | (Some u, s4) \<Rightarrow> (AttemptOk key (Address w) u, s4)))"

text \<open>\<open>attempt\<close> is called only with a data source; the health is read before \<open>Get\<close>.\<close>

definition attempt :: "('rc, 'sc, 're, 's, 'c) policy_env \<Rightarrow> upstream list \<Rightarrow> http_request \<Rightarrow> (string \<Rightarrow> string option) \<Rightarrow>
    ('rc, 'sc, 's) DynamicSelection \<Rightarrow> 's \<Rightarrow> PlaceholderExtractor option \<Rightarrow> attempt_result \<times> ('rc, 'sc, 's) DynamicSelection" where
  "attempt env pool r repl s ds keyExt =
     (case keyExt of
        None \<Rightarrow> (AttemptMiss '''' ''no_key_extractor'', s)
      | Some ext \<Rightarrow>
          let key = Extract ext (Some repl) in
          if key = [] then (AttemptMiss '''' ''no_key'', s)
          else
            let dsHealthy = pe_healthy env ds;
                (answer, ds') = pe_get env ds key;
                s1 = s\<lparr>dataSource := Some ds'\<rparr>
            in case answer of
                 Inl e \<Rightarrow> (AttemptMiss key ''error'', s1)
               | Inr None \<Rightarrow> (AttemptMiss key (if dsHealthy then ''no_config'' else ''unhealthy''), s1)
               | Inr (Some config) \<Rightarrow>
                   if \<not> IsEnabled config then (AttemptMiss key ''disabled'', s1)
                   else if IsExpired (pe_now env) config then (AttemptMiss key ''expired'', s1)
                   else attempt_route env pool r repl s1 key config)"

definition record_hit :: "('c, int) lru_ops \<Rightarrow> 'c world \<Rightarrow> string \<Rightarrow> string \<Rightarrow> 'c world" where
  "record_hit ops w key addr =
     w\<lparr>w_metrics := RecordRouteHit (w_metrics w) key addr, w_stats := stats_RecordHit ops (w_stats w) key addr\<rparr>"

definition record_miss :: "('c, int) lru_ops \<Rightarrow> 'c world \<Rightarrow> string \<Rightarrow> string \<Rightarrow> 'c world" where
  "record_miss ops w key reason =
     w\<lparr>w_metrics := RecordRouteMiss (w_metrics w) key reason, w_stats := stats_RecordMiss ops (w_stats w) key reason\<rparr>"

text \<open>\<open>Provision\<close> always sets the fallback; without one the call would panic, and the answer here is \<open>None\<close>.\<close>

definition fallback_Select :: "('rc, 'sc, 's) DynamicSelection \<Rightarrow> upstream list \<Rightarrow> http_request \<Rightarrow> upstream option" where
  "fallback_Select s pool r = (case fallback s of None \<Rightarrow> None | Some f \<Rightarrow> fbSelect f pool r)"

definition dynamic_Select :: "('rc, 'sc, 're, 's, 'c) policy_env \<Rightarrow> ('rc, 'sc, 's) DynamicSelection \<Rightarrow> 'c world \<Rightarrow> upstream list \<Rightarrow>
    http_request \<Rightarrow> replacer_value \<Rightarrow> upstream option \<times> ('rc, 'sc, 's) DynamicSelection \<times> 'c world" where
  "dynamic_Select env s w pool r replVal =
     (let ops = pe_stats env;
          missed = (\<lambda>s key reason. (fallback_Select s pool r, s, record_miss ops w key reason))
      in if pool = [] then (None, s, w)
         else case replVal of
           NoReplacer \<Rightarrow> missed s '''' ''no_replacer''
         | OtherValue \<Rightarrow> missed s '''' ''no_replacer''
         | NilReplacer \<Rightarrow> missed s '''' ''no_replacer''
         | Replacer repl \<Rightarrow>
             (case dataSource s of
                None \<Rightarrow> missed s '''' ''no_datasource''
              | Some ds \<Rightarrow>
                  let useInstanceVersion = (instanceKeyExtractor s \<noteq> None \<or> versionKeyExtractor s \<noteq> None) in
                  if \<not> useInstanceVersion \<and> keyExtractor s = None then missed s '''' ''no_key_extractor''
                  else if useInstanceVersion \<and> instanceKeyExtractor s = None \<and> versionKeyExtractor s = None then
                    missed s '''' ''no_key_extractor''
                  else if useInstanceVersion then
                    (case attempt env pool r repl s ds (instanceKeyExtractor s) of
                       (AttemptOk instanceKey instAddr instUp, s1) \<Rightarrow> (Some instUp, s1, record_hit ops w instanceKey instAddr)
                     | (AttemptMiss instanceKey instanceFail, s1) \<Rightarrow>
                         (case attempt env pool r repl s1 (the (dataSource s1)) (versionKeyExtractor s1) of
                            (AttemptOk versionKey verAddr verUp, s2) \<Rightarrow>
                              (Some verUp, s2,
                               record_hit ops (w\<lparr>w_metrics := RecordInstanceFallback (w_metrics w) instanceFail\<rparr>) versionKey verAddr)
                          | (AttemptMiss versionKey verMiss, s2) \<Rightarrow>
                              if versionKey = [] then missed s2 instanceKey instanceFail
                              else missed s2 versionKey verMiss))
                  else
                    (case attempt env pool r repl s ds (keyExtractor s) of
                       (AttemptMiss key miss, s1) \<Rightarrow> missed s1 key miss
                     | (AttemptOk key addr u, s1) \<Rightarrow> (Some u, s1, record_hit ops w key addr))))"

subsection \<open>The index of the pool\<close>

definition index_fresh :: "('rc, 'sc, 's) DynamicSelection \<Rightarrow> upstream list \<Rightarrow> bool" where
  "index_fresh s pool \<longleftrightarrow>
     (\<forall>idx. poolIndex s = Some idx \<and> lastPoolSize s = int (length pool) \<longrightarrow> idx = build_index pool)"

lemma build_index_fold:
  "fold (\<lambda>u m. m(uDial u \<mapsto> u)) pool m a = (if a \<in> uDial ` set pool then Some (last (filter (\<lambda>u. uDial u = a) pool)) else m a)"
proof (induction pool arbitrary: m)
  case Nil
  then show ?case by simp
next
  case (Cons u pool)
  show ?case
  proof (cases "a \<in> uDial ` set pool")
    case True
    then have "filter (\<lambda>u. uDial u = a) pool \<noteq> []" by (auto simp: filter_empty_conv)
    then show ?thesis using Cons True by auto
  next
    case False
    then have "filter (\<lambda>u. uDial u = a) pool = []" by (auto simp: filter_empty_conv)
    then show ?thesis using Cons False by auto
  qed
qed

lemma build_index_None [simp]: "build_index pool a = None \<longleftrightarrow> a \<notin> uDial ` set pool"
  by (simp add: build_index_def build_index_fold)

lemma build_index_SomeD:
  assumes "build_index pool a = Some u"
  shows "u \<in> set pool \<and> uDial u = a"
proof -
  have a: "a \<in> uDial ` set pool" and u: "u = last (filter (\<lambda>u. uDial u = a) pool)"
    using assms by (auto simp: build_index_def build_index_fold split: if_splits)
  have "filter (\<lambda>u. uDial u = a) pool \<noteq> []" using a by (auto simp: filter_empty_conv)
  then have "u \<in> set (filter (\<lambda>u. uDial u = a) pool)" unfolding u by (rule last_in_set)
  then show ?thesis by simp
qed

lemma find_fresh:
  assumes "index_fresh s pool" and "findUpstreamInPool s pool a = (x, s')"
  shows "x = build_index pool a \<and> index_fresh s' pool \<and> ruleMatcher s' = ruleMatcher s \<and>
    isUpstreamAvailable s' = isUpstreamAvailable s"
  using assms by (auto simp: findUpstreamInPool_def index_fresh_def split: option.splits if_splits)

lemma index_fresh_frame [simp]:
  "index_fresh (s\<lparr>ruleMatcher := rm\<rparr>) pool = index_fresh s pool"
  "index_fresh (s\<lparr>dataSource := d\<rparr>) pool = index_fresh s pool"
  by (simp_all add: index_fresh_def)

text \<open>The candidates whose address is in the pool, and those of them that are available.\<close>

definition present :: "upstream list \<Rightarrow> WeightedUpstream list \<Rightarrow> WeightedUpstream list" where
  "present pool cands = filter (\<lambda>c. Address c \<in> uDial ` set pool) cands"

definition is_usable :: "((upstream \<Rightarrow> bool) \<Rightarrow> upstream \<Rightarrow> bool) option \<Rightarrow> (upstream \<Rightarrow> bool) \<Rightarrow> upstream list \<Rightarrow> WeightedUpstream \<Rightarrow> bool" where
  "is_usable check avail pool c =
     (case build_index pool (Address c) of
        None \<Rightarrow> False
      | Some u \<Rightarrow> (case check of None \<Rightarrow> True | Some f \<Rightarrow> f avail u))"

lemma scan_candidates_fresh:
  assumes "index_fresh s pool" and "scan_candidates avail pool s ip av cands = (inPool, available, s')"
  shows "inPool = ip @ present pool cands \<and> available = av @ filter (is_usable (isUpstreamAvailable s) avail pool) cands \<and>
    index_fresh s' pool \<and> ruleMatcher s' = ruleMatcher s"
  using assms
proof (induction cands arbitrary: s ip av)
  case Nil
  then show ?case by (simp add: present_def)
next
  case (Cons c cands)
  obtain x s1 where f: "findUpstreamInPool s pool (Address c) = (x, s1)" by fastforce
  note s1 = find_fresh[OF Cons.prems(1) f]
  show ?case
  proof (cases x)
    case None
    then have "scan_candidates avail pool s1 ip av cands = (inPool, available, s')" using Cons.prems(2) f by simp
    moreover have "\<not> is_usable (isUpstreamAvailable s) avail pool c" using s1 None by (simp add: is_usable_def)
    moreover have "Address c \<notin> uDial ` set pool" using s1 None build_index_None[of pool "Address c"] by metis
    ultimately show ?thesis
      using Cons.IH[of s1 ip av] s1 by (auto simp: present_def)
  next
    case (Some u)
    have yes: "build_index pool (Address c) = Some u" using s1 Some by simp
    then have mem: "Address c \<in> uDial ` set pool" using build_index_None[of pool "Address c"] by (metis option.distinct(1))
    define ok where "ok = is_usable (isUpstreamAvailable s) avail pool c"
    have ok: "ok = (case isUpstreamAvailable s of None \<Rightarrow> True | Some f \<Rightarrow> f avail u)"
      by (simp add: ok_def is_usable_def yes)
    have "scan_candidates avail pool s1 (ip @ [c]) (if ok then av @ [c] else av) cands = (inPool, available, s')"
      using Cons.prems(2) f Some s1 ok by (auto split: option.splits if_splits)
    from Cons.IH[OF _ this] s1 mem show ?thesis by (auto simp: present_def ok_def)
  qed
qed

subsection \<open>What an attempt does\<close>

text \<open>The upstreams that the configuration names for the request.\<close>

definition routed_upstreams :: "('rc, 'sc, 're) match_env \<Rightarrow> http_request \<Rightarrow> (string \<Rightarrow> string option) \<Rightarrow> RouteConfig \<Rightarrow> WeightedUpstream list option" where
  "routed_upstreams env r repl config =
     (if cUpstream config \<noteq> [] \<and> cRules config = [] then Some [\<lparr>Address = cUpstream config, Weight = 1\<rparr>]
      else map_option rUpstreams (List.find (rule_holds env (Some r) (Some repl)) (cRules config)))"

lemma room_filter:
  assumes "int_ok (int (length ups) * sum_list (weights ups))"
  shows "int_ok (int (length (filter P ups)) * sum_list (weights (filter P ups)))"
proof -
  have w: "sum_list (weights (filter P ups)) \<le> sum_list (weights ups)"
  proof (induction ups)
    case (Cons u ups)
    have "0 < GetEffectiveWeight u" by simp
    then have "0 \<le> GetEffectiveWeight u" by linarith
    then show ?case using Cons by (cases "P u") (simp_all add: add_increasing)
  qed simp
  have nonneg: "0 \<le> sum_list (weights xs)" for xs :: "WeightedUpstream list"
    by (intro sum_list_nonneg) (auto intro: less_imp_le)
  have "int (length (filter P ups)) * sum_list (weights (filter P ups)) \<le> int (length ups) * sum_list (weights ups)"
    using w nonneg by (intro mult_mono) auto
  moreover have "0 \<le> int (length (filter P ups)) * sum_list (weights (filter P ups))" using nonneg by simp
  ultimately show ?thesis using assms unfolding int_ok_def by linarith
qed


lemma attempt_route_outcome:
  assumes "rule_matcher (pe_match env) rcap rok scap sok" and "rm_inv (pe_match env) rok sok (ruleMatcher s)"
    and "env_ok (select_env (pe_match env))" and "index_fresh s pool"
    and "routed_upstreams (pe_match env) r repl config = Some cands"
    and "int_ok (int (length cands) * sum_list (weights cands))"
    and "usable = filter (is_usable (isUpstreamAvailable s) (pe_available env) pool) cands"
    and "\<forall>sel \<in> set (selectors (ruleMatcher s)). ring_faithful sel usable"
    and "attempt_route env pool r repl s key config = (res, s')"
  shows "(if present pool cands = [] then res = AttemptMiss key ''not_in_pool''
          else if usable = [] then res = AttemptMiss key ''no_available_upstream''
          else \<exists>c \<in> set usable. \<exists>u. build_index pool (Address c) = Some u \<and> res = AttemptOk key (Address c) u) \<and>
    rm_inv (pe_match env) rok sok (ruleMatcher s') \<and> index_fresh s' pool"
proof -
  obtain mr rm where m: "matcher_MatchResult (pe_match env) (ruleMatcher s) (Some r) (Some repl) (Some config) = (mr, rm)"
    by fastforce
  have rs: "regex_sound (pe_match env) rok (ruleMatcher s)" and ss: "selectors_sound (pe_match env) sok (ruleMatcher s)"
    using assms(2) by (simp_all add: rm_inv_def)
  note mp = rule_matcher.MatchResult_props[OF assms(1) rs m]
  have rm: "rm_inv (pe_match env) rok sok rm" using mp ss by (simp add: rm_inv_def selectors_sound_def)
  obtain rr where mr: "mr = Some rr" "mUpstreams rr = cands"
    using mp assms(5) by (fastforce simp: routed_upstreams_def Let_def split: if_splits)
  obtain ip av s2 where sc: "scan_candidates (pe_available env) pool (s\<lparr>ruleMatcher := rm\<rparr>) [] [] cands = (ip, av, s2)"
    by (metis prod_cases3)
  have s2: "ip = present pool cands" "av = usable" "index_fresh s2 pool" "ruleMatcher s2 = rm"
    using scan_candidates_fresh[OF _ sc] assms(4,7) by simp_all
  show ?thesis
  proof (cases "present pool cands = [] \<or> usable = []")
    case True
    then show ?thesis using assms(9) m mr sc s2 rm by (auto simp: attempt_route_def)
  next
    case False
    obtain w rm' where sel: "SelectFromUpstreams (pe_match env) rm r usable (mAlgorithm rr) (mAlgorithmKey rr) = (w, rm')"
      by fastforce
    have room: "int_ok (int (length usable) * sum_list (weights usable))"
      unfolding assms(7) by (rule room_filter[OF assms(6)])
    have faithful: "\<forall>sel \<in> set (selectors rm). ring_faithful sel usable" using mp assms(8) by simp
    have "(\<exists>v \<in> set usable. w = Some v) \<and> rm_inv (pe_match env) rok sok rm'"
      by (rule selectUpstream_in[OF assms(1) rm assms(3) _ room faithful sel[symmetric, unfolded SelectFromUpstreams_def]])
        (use False in simp)
    then obtain v where v: "v \<in> set usable" "w = Some v" "rm_inv (pe_match env) rok sok rm'" by blast
    then obtain u where u: "build_index pool (Address v) = Some u"
      using assms(7) by (auto simp: is_usable_def split: option.splits)
    obtain x s4 where f: "findUpstreamInPool (s2\<lparr>ruleMatcher := rm'\<rparr>) pool (Address v) = (x, s4)" by fastforce
    have x: "x = Some u" "index_fresh s4 pool" "ruleMatcher s4 = rm'"
      using find_fresh[OF _ f] s2(3) u by auto
    have "res = AttemptOk key (Address v) u" "s' = s4"
      using assms(9) m mr sc s2 sel v f x False by (auto simp: attempt_route_def)
    then show ?thesis using False v u x by auto
  qed
qed

lemma attempt_route_no_match:
  assumes "rule_matcher (pe_match env) rcap rok scap sok" and "rm_inv (pe_match env) rok sok (ruleMatcher s)"
    and "routed_upstreams (pe_match env) r repl config = None" and "index_fresh s pool"
    and "attempt_route env pool r repl s key config = (res, s')"
  shows "res = AttemptMiss key ''no_match'' \<and> rm_inv (pe_match env) rok sok (ruleMatcher s') \<and> index_fresh s' pool"
proof -
  obtain mr rm where m: "matcher_MatchResult (pe_match env) (ruleMatcher s) (Some r) (Some repl) (Some config) = (mr, rm)"
    by fastforce
  have rs: "regex_sound (pe_match env) rok (ruleMatcher s)" and ss: "selectors_sound (pe_match env) sok (ruleMatcher s)"
    using assms(2) by (simp_all add: rm_inv_def)
  note mp = rule_matcher.MatchResult_props[OF assms(1) rs m]
  have "mr = None" using mp assms(3) by (auto simp: routed_upstreams_def Let_def split: if_splits)
  then show ?thesis
    using assms(4,5) m mp ss by (auto simp: attempt_route_def rm_inv_def selectors_sound_def)
qed

lemma attempt_keyed:
  assumes "Extract ext (Some repl) = key" and "key \<noteq> []" and "pe_get env ds key = (answer, ds')"
  shows "attempt env pool r repl s ds (Some ext) =
     (case answer of
        Inl e \<Rightarrow> (AttemptMiss key ''error'', s\<lparr>dataSource := Some ds'\<rparr>)
      | Inr None \<Rightarrow> (AttemptMiss key (if pe_healthy env ds then ''no_config'' else ''unhealthy''), s\<lparr>dataSource := Some ds'\<rparr>)
      | Inr (Some config) \<Rightarrow>
          if \<not> IsEnabled config then (AttemptMiss key ''disabled'', s\<lparr>dataSource := Some ds'\<rparr>)
          else if IsExpired (pe_now env) config then (AttemptMiss key ''expired'', s\<lparr>dataSource := Some ds'\<rparr>)
          else attempt_route env pool r repl (s\<lparr>dataSource := Some ds'\<rparr>) key config)"
  using assms by (auto simp: attempt_def split: sum.splits option.splits)



definition demo_pool :: "upstream list" where
  "demo_pool = [\<lparr>uDial = ''a:80'', uRef = 1\<rparr>, \<lparr>uDial = ''b:80'', uRef = 2\<rparr>]"

definition demo_policy :: "(string list_lru, nat list_lru, RouteConfig option) DynamicSelection" where
  "demo_policy = \<lparr>dKey = ''tenant'', dInstanceKey = '''', dVersionKey = '''', DataSourceRaw = None, FallbackRaw = None,
     MetricsCardinality = '''', keyExtractor = Some \<lparr>Expression = ''k'', parts = [\<lparr>isPlaceholder = False, pValue = ''k''\<rparr>]\<rparr>,
     instanceKeyExtractor = None, versionKeyExtractor = None, dataSource = Some (Some (empty_config\<lparr>cUpstream := ''b:80''\<rparr>)),
     fallback = Some \<lparr>fbID = ''first'', fbSelect = (\<lambda>pool r. Some (hd pool))\<rparr>, ruleMatcher = NewRuleMatcher demo_match_env,
     dataSourceTypeName = ''demo'', isUpstreamAvailable = Some (\<lambda>avail u. avail u), poolIndex = None, lastPoolSize = 0,
     dAdminName = ''''\<rparr>"

definition demo_policy_env :: "(string list_lru, nat list_lru, string, RouteConfig option, int list_lru) policy_env" where
  "demo_policy_env = \<lparr>pe_match = demo_match_env, pe_stats = list_lru_ops, pe_get = (\<lambda>s k. (Inr s, s)),
     pe_healthy = (\<lambda>s. True), pe_available = (\<lambda>u. True), pe_now = 0\<rparr>"

definition demo_world :: "int list_lru world" where
  "demo_world = \<lparr>w_metrics = initial_metrics, w_stats = NewRouteStatsRegistry list_lru_ops\<rparr>"

lemmas demo_policy_simps = demo_policy_def demo_policy_env_def demo_pool_def demo_world_def


subsection \<open>What Select returns and records\<close>

definition same_setup :: "('rc, 'sc, 's) DynamicSelection \<Rightarrow> ('rc, 'sc, 's) DynamicSelection \<Rightarrow> bool" where
  "same_setup s s' \<longleftrightarrow> fallback s' = fallback s \<and> keyExtractor s' = keyExtractor s \<and>
     instanceKeyExtractor s' = instanceKeyExtractor s \<and> versionKeyExtractor s' = versionKeyExtractor s \<and>
     isUpstreamAvailable s' = isUpstreamAvailable s \<and> (dataSource s \<noteq> None \<longrightarrow> dataSource s' \<noteq> None)"

lemma same_setup_refl [simp]: "same_setup s s"
  by (simp add: same_setup_def)

lemma same_setup_trans: "same_setup a b \<Longrightarrow> same_setup b c \<Longrightarrow> same_setup a c"
  by (simp add: same_setup_def)

lemma same_setup_frame [simp]:
  "same_setup s (s'\<lparr>ruleMatcher := rm\<rparr>) = same_setup s s'"
  "same_setup s (s\<lparr>dataSource := Some d\<rparr>)"
  by (simp_all add: same_setup_def)

lemma find_setup: "same_setup s (snd (findUpstreamInPool s pool a))"
  by (auto simp: findUpstreamInPool_def same_setup_def split: option.splits)

lemma scan_setup: "scan_candidates avail pool s ip av cands = (ip', av', s') \<Longrightarrow> same_setup s s'"
proof (induction cands arbitrary: s ip av)
  case Nil
  then show ?case by simp
next
  case (Cons c cands)
  obtain x s1 where f: "findUpstreamInPool s pool (Address c) = (x, s1)" by fastforce
  then have "same_setup s s1" using find_setup[of s pool "Address c"] by simp
  moreover have "\<exists>ip av. scan_candidates avail pool s1 ip av cands = (ip', av', s')"
    using Cons.prems f by (auto split: option.splits if_splits)
  ultimately show ?case using Cons.IH same_setup_trans by blast
qed

lemma attempt_route_in_pool:
  assumes "index_fresh s pool" and "attempt_route env pool r repl s key config = (res, s')"
  shows "index_fresh s' pool \<and> same_setup s s' \<and>
    (case res of AttemptOk k addr u \<Rightarrow> k = key \<and> u \<in> set pool \<and> uDial u = addr | AttemptMiss k reason \<Rightarrow> k = key)"
proof -
  obtain mr rm where m: "matcher_MatchResult (pe_match env) (ruleMatcher s) (Some r) (Some repl) (Some config) = (mr, rm)"
    by fastforce
  show ?thesis
  proof (cases mr)
    case None
    then show ?thesis using assms m by (auto simp: attempt_route_def)
  next
    case (Some rr)
    obtain ip av s2 where sc: "scan_candidates (pe_available env) pool (s\<lparr>ruleMatcher := rm\<rparr>) [] [] (mUpstreams rr) = (ip, av, s2)"
      by (metis prod_cases3)
    have s2: "index_fresh s2 pool" "same_setup s s2"
      using scan_candidates_fresh[OF _ sc] assms(1) scan_setup[OF sc] by (simp_all add: same_setup_def)
    obtain w rm' where sel: "SelectFromUpstreams (pe_match env) (ruleMatcher s2) r av (mAlgorithm rr) (mAlgorithmKey rr) = (w, rm')"
      by fastforce
    show ?thesis
    proof (cases "ip = [] \<or> av = [] \<or> w = None")
      case True
      then show ?thesis using assms(2) m Some sc sel s2 by (auto simp: attempt_route_def split: if_splits)
    next
      case False
      then obtain v where v: "w = Some v" by auto
      obtain x s4 where f: "findUpstreamInPool (s2\<lparr>ruleMatcher := rm'\<rparr>) pool (Address v) = (x, s4)" by fastforce
      have s4: "x = build_index pool (Address v)" "index_fresh s4 pool" using find_fresh[OF _ f] s2 by simp_all
      have "same_setup (s2\<lparr>ruleMatcher := rm'\<rparr>) s4"
        using find_setup[of "s2\<lparr>ruleMatcher := rm'\<rparr>" pool "Address v"] f by simp
      then have set: "same_setup s s4" using s2(2) by (simp add: same_setup_def)
      show ?thesis
        using assms(2) m Some sc sel v f s4 set False build_index_SomeD[of pool "Address v"]
        by (auto simp: attempt_route_def split: option.splits)
    qed
  qed
qed

lemma attempt_in_pool:
  assumes "index_fresh s pool" and "attempt env pool r repl s ds ext = (res, s')"
  shows "index_fresh s' pool \<and> same_setup s s' \<and>
    (case res of AttemptOk key addr u \<Rightarrow> u \<in> set pool \<and> uDial u = addr | AttemptMiss key reason \<Rightarrow> True)"
proof (cases ext)
  case None
  then show ?thesis using assms by (auto simp: attempt_def)
next
  case (Some e)
  show ?thesis
  proof (cases "Extract e (Some repl) = []")
    case True
    then show ?thesis using assms Some by (auto simp: attempt_def)
  next
    case False
    obtain answer ds' where g: "pe_get env ds (Extract e (Some repl)) = (answer, ds')" by fastforce
    let ?s1 = "s\<lparr>dataSource := Some ds'\<rparr>"
    note run = attempt_keyed[OF refl False g, of pool r s]
    show ?thesis
    proof (cases "\<exists>config. answer = Inr (Some config) \<and> IsEnabled config \<and> \<not> IsExpired (pe_now env) config")
      case False
      then show ?thesis using run assms Some by (auto split: sum.splits option.splits if_splits)
    next
      case True
      then obtain config where "attempt_route env pool r repl ?s1 (Extract e (Some repl)) config = (res, s')"
        using run assms(2) Some by auto
      from attempt_route_in_pool[OF _ this] show ?thesis
        using assms(1) same_setup_trans[of s ?s1 s'] by (auto split: attempt_result.splits)
    qed
  qed
qed


text \<open>The outcome of a request with its accounting: one hit of an upstream of the pool, or one miss.\<close>

definition accounted :: "('rc, 'sc, 're, 's, 'c) policy_env \<Rightarrow> ('rc, 'sc, 's) DynamicSelection \<Rightarrow> 'c world \<Rightarrow> upstream list \<Rightarrow>
    http_request \<Rightarrow> upstream option \<times> ('rc, 'sc, 's) DynamicSelection \<times> 'c world \<Rightarrow> bool" where
  "accounted env s w pool r out \<longleftrightarrow> (case out of (res, s', w') \<Rightarrow>
     ((\<exists>key u w1. res = Some u \<and> u \<in> set pool \<and>
         (w1 = w \<or> (\<exists>reason. w1 = w\<lparr>w_metrics := RecordInstanceFallback (w_metrics w) reason\<rparr>)) \<and>
         w' = record_hit (pe_stats env) w1 key (uDial u)) \<or>
       (\<exists>key reason. res = fallback_Select s pool r \<and> w' = record_miss (pe_stats env) w key reason)) \<and>
    index_fresh s' pool \<and> same_setup s s')"

lemma accounted_hit:
  assumes "u \<in> set pool \<and> uDial u = addr" "index_fresh s' pool" "same_setup s s'"
    and "w1 = w \<or> (\<exists>reason. w1 = w\<lparr>w_metrics := RecordInstanceFallback (w_metrics w) reason\<rparr>)"
  shows "accounted env s w pool r (Some u, s', record_hit (pe_stats env) w1 key addr)"
  using assms unfolding accounted_def by (simp, blast)

lemma accounted_miss:
  assumes "index_fresh s' pool" "same_setup s s'"
  shows "accounted env s w pool r (fallback_Select s' pool r, s', record_miss (pe_stats env) w key reason)"
  using assms by (auto simp: accounted_def fallback_Select_def same_setup_def)

lemma select_key_accounted:
  assumes "index_fresh s pool" "pool \<noteq> []" "dataSource s = Some ds" "keyExtractor s \<noteq> None"
    and "instanceKeyExtractor s = None" "versionKeyExtractor s = None"
  shows "accounted env s w pool r (dynamic_Select env s w pool r (Replacer repl))"
proof -
  obtain a s1 where at: "attempt env pool r repl s ds (keyExtractor s) = (a, s1)" by fastforce
  note p = attempt_in_pool[OF assms(1) at]
  obtain e where "keyExtractor s = Some e" using assms(4) by blast
  then show ?thesis
    using assms(2,3,5,6) at p by (cases a) (simp_all add: dynamic_Select_def Let_def accounted_hit accounted_miss)
qed

lemma select_modes_accounted:
  assumes "index_fresh s pool" "pool \<noteq> []" "dataSource s = Some ds"
    and "\<not> (instanceKeyExtractor s = None \<and> versionKeyExtractor s = None)"
  shows "accounted env s w pool r (dynamic_Select env s w pool r (Replacer repl))"
proof -
  obtain a s1 where at: "attempt env pool r repl s ds (instanceKeyExtractor s) = (a, s1)" by fastforce
  note p = attempt_in_pool[OF assms(1) at]
  obtain b s2 where bt: "attempt env pool r repl s1 (the (dataSource s1)) (versionKeyExtractor s1) = (b, s2)" by fastforce
  have q: "index_fresh s2 pool \<and> same_setup s1 s2 \<and>
      (case b of AttemptOk key addr u \<Rightarrow> u \<in> set pool \<and> uDial u = addr | AttemptMiss key reason \<Rightarrow> True)"
    using attempt_in_pool[OF _ bt] p by blast
  have set: "same_setup s s2" using p q same_setup_trans by blast
  have run: "dynamic_Select env s w pool r (Replacer repl) = (case a of
        AttemptOk k addr u \<Rightarrow> (Some u, s1, record_hit (pe_stats env) w k addr)
      | AttemptMiss k f \<Rightarrow> (case b of
          AttemptOk k' addr u \<Rightarrow>
            (Some u, s2, record_hit (pe_stats env) (w\<lparr>w_metrics := RecordInstanceFallback (w_metrics w) f\<rparr>) k' addr)
        | AttemptMiss k' f' \<Rightarrow> (fallback_Select s2 pool r, s2,
            if k' = [] then record_miss (pe_stats env) w k f else record_miss (pe_stats env) w k' f')))"
    using assms(2-4) at bt by (simp add: dynamic_Select_def Let_def split: attempt_result.splits) auto
  show ?thesis
  proof (cases a)
    case AttemptOk
    then show ?thesis using run p by (simp add: accounted_hit)
  next
    case miss: (AttemptMiss k f)
    show ?thesis
    proof (cases b)
      case AttemptOk
      then show ?thesis using run miss q set by (auto intro!: accounted_hit)
    next
      case AttemptMiss
      then show ?thesis using run miss q set by (simp add: accounted_miss)
    qed
  qed
qed



text \<open>
  The index outlives the pool. Lookups rebuild the index only when the size of the pool
  changes. When Caddy hands over another pool of the same size, as dynamic upstreams do, every
  lookup still answers from the old pool: the upstream returned need not be in the pool at
  hand, and an address that is only in the new pool is not found.
\<close>

theorem pool_index_goes_stale:
  assumes "index_fresh s pool" and "(x, s1) = findUpstreamInPool s pool a" and "length pool' = length pool"
  shows "fst (findUpstreamInPool s1 pool' b) = build_index pool b \<and>
    (set pool \<inter> set pool' = {} \<longrightarrow> fst (findUpstreamInPool s1 pool' b) \<noteq> None \<longrightarrow>
       the (fst (findUpstreamInPool s1 pool' b)) \<notin> set pool')"
proof -
  have s1: "poolIndex s1 = Some (build_index pool) \<and> lastPoolSize s1 = int (length pool)"
    using assms(1,2) by (auto simp: findUpstreamInPool_def index_fresh_def split: option.splits if_splits)
  then have eq: "fst (findUpstreamInPool s1 pool' b) = build_index pool b"
    using assms(3) by (simp add: findUpstreamInPool_def)
  have "u \<notin> set pool'" if "set pool \<inter> set pool' = {}" "build_index pool b = Some u" for u
    using build_index_SomeD[OF that(2)] that(1) by blast
  then show ?thesis using eq by auto
qed

definition demo_pool2 :: "upstream list" where
  "demo_pool2 = [\<lparr>uDial = ''c:80'', uRef = 3\<rparr>, \<lparr>uDial = ''b:80'', uRef = 4\<rparr>]"

theorem pool_index_goes_stale_witness:
  "fst (findUpstreamInPool (snd (findUpstreamInPool demo_policy demo_pool ''b:80'')) demo_pool2 ''b:80'') =
     Some \<lparr>uDial = ''b:80'', uRef = 2\<rparr> \<and> \<lparr>uDial = ''b:80'', uRef = 2\<rparr> \<notin> set demo_pool2 \<and>
   fst (findUpstreamInPool (snd (findUpstreamInPool demo_policy demo_pool ''b:80'')) demo_pool2 ''c:80'') = None"
proof -
  have f: "index_fresh demo_policy demo_pool" "length demo_pool2 = length demo_pool"
    by (simp_all add: index_fresh_def demo_policy_simps demo_pool2_def)
  note stale = pool_index_goes_stale[OF f(1) surjective_pairing[symmetric] f(2), of "''b:80''"]
  have "build_index demo_pool ''b:80'' = Some \<lparr>uDial = ''b:80'', uRef = 2\<rparr>" "build_index demo_pool ''c:80'' = None"
    by (simp_all add: build_index_def demo_pool_def)
  then show ?thesis using stale[of "''b:80''"] stale[of "''c:80''"] by (simp add: demo_pool2_def)
qed

text \<open>
  C16: provisioning. A policy that \<open>Provision\<close> accepts has what \<open>Select\<close> relies on: a matcher that
  satisfies its invariant, a fallback policy, an availability check, extractors exactly for the
  keys configured, an index that is fresh for every pool, and an entry in the registry under its
  own name. A policy that \<open>Provision\<close> refuses leaves the registry alone.
\<close>

theorem provision_establishes:
  assumes "rule_matcher env rcap rok scap sok" and "poolIndex s0 = None"
    and "keyExtractor s0 = None" and "instanceKeyExtractor s0 = None" and "versionKeyExtractor s0 = None"
    and "(out, m', g') = dynamic_Provision env order load_source load_fallback random moduleID m g s0"
  shows "case out of
      Inl e \<Rightarrow> g' = g
    | Inr s \<Rightarrow> rm_inv env rok sok (ruleMatcher s) \<and> fallback s \<noteq> None \<and> isUpstreamAvailable s \<noteq> None \<and>
        index_fresh s pool \<and> (keyExtractor s = None \<longleftrightarrow> dKey s0 = []) \<and>
        (instanceKeyExtractor s = None \<longleftrightarrow> dInstanceKey s0 = []) \<and>
        (versionKeyExtractor s = None \<longleftrightarrow> dVersionKey s0 = []) \<and>
        (dataSource s0 = None \<longrightarrow> (dataSource s = None \<longleftrightarrow> DataSourceRaw s0 = None)) \<and>
        map_of (entries g') (dAdminName s) = Some ((policy_info moduleID s)\<lparr>pName := dAdminName s\<rparr>)"
proof (cases out)
  case (Inl e)
  then show ?thesis
    using assms(6) by (auto simp: dynamic_Provision_def Let_def split: if_splits prod.splits option.splits sum.splits)
next
  case (Inr s)
  define s1 where "s1 = s0\<lparr>ruleMatcher := NewRuleMatcher env,
     isUpstreamAvailable := (case isUpstreamAvailable s0 of None \<Rightarrow> Some (\<lambda>avail u. avail u) | Some f \<Rightarrow> Some f)\<rparr>"
  define s2 where "s2 = provision_keys order s1"
  obtain s3 where mo: "provision_modules load_source load_fallback random moduleID s2 = Inr s3"
    and out: "s = s3\<lparr>dAdminName := fst (registerSelectionPolicy g (policy_info moduleID s3))\<rparr>"
      "g' = snd (registerSelectionPolicy g (policy_info moduleID s3))"
    using assms(6) Inr unfolding dynamic_Provision_def Let_def s1_def[symmetric] s2_def[symmetric]
    by (auto split: if_splits prod.splits option.splits sum.splits)
  have s1: "ruleMatcher s1 = NewRuleMatcher env" "isUpstreamAvailable s1 \<noteq> None" "poolIndex s1 = None"
    "keyExtractor s1 = None" "instanceKeyExtractor s1 = None" "versionKeyExtractor s1 = None"
    "dKey s1 = dKey s0" "dInstanceKey s1 = dInstanceKey s0" "dVersionKey s1 = dVersionKey s0"
    "dataSource s1 = dataSource s0" "DataSourceRaw s1 = DataSourceRaw s0"
    using assms(2-5) by (auto simp: s1_def split: option.splits)
  have pk: "(parse_key order e None = None) = (e = [])" for e
    by (simp add: parse_key_def NewFromExpression_def Let_def)
  have s2: "ruleMatcher s2 = NewRuleMatcher env \<and> isUpstreamAvailable s2 \<noteq> None \<and> poolIndex s2 = None \<and>
      (keyExtractor s2 = None) = (dKey s0 = []) \<and> (instanceKeyExtractor s2 = None) = (dInstanceKey s0 = []) \<and>
      (versionKeyExtractor s2 = None) = (dVersionKey s0 = []) \<and> dataSource s2 = dataSource s0 \<and> DataSourceRaw s2 = DataSourceRaw s0"
    using s1 pk by (simp add: s2_def provision_keys_def)
  have s3: "ruleMatcher s3 = ruleMatcher s2 \<and> isUpstreamAvailable s3 = isUpstreamAvailable s2 \<and> poolIndex s3 = poolIndex s2 \<and>
      keyExtractor s3 = keyExtractor s2 \<and> instanceKeyExtractor s3 = instanceKeyExtractor s2 \<and>
      versionKeyExtractor s3 = versionKeyExtractor s2 \<and> fallback s3 \<noteq> None \<and>
      (DataSourceRaw s2 = None \<longrightarrow> dataSource s3 = dataSource s2) \<and> (DataSourceRaw s2 \<noteq> None \<longrightarrow> dataSource s3 \<noteq> None)"
    using mo by (auto simp: provision_modules_def Let_def split: sum.splits option.splits)
  have info: "policy_info moduleID s = policy_info moduleID s3"
    unfolding out(1) policy_info_def dataSourceTypeForAdmin_def computeDataSourceType_def dataSourceModuleID_def
      fallbackPolicyID_def by (simp split: option.splits)
  have reg: "map_of (entries g') (dAdminName s) = Some ((policy_info moduleID s)\<lparr>pName := dAdminName s\<rparr>)"
    unfolding info out(2) by (simp add: out(1) registerSelectionPolicy_def Let_def update_Some_unfold)
  have "rm_inv env rok sok (NewRuleMatcher env)"
    unfolding NewRuleMatcher_def by (rule rule_matcher.new_inv[OF assms(1)])
  then show ?thesis using Inr s2 s3 reg by (auto simp: out(1) index_fresh_def)
qed

theorem provision_establishes_witness:
  "case fst (dynamic_Provision demo_match_env shortcuts (\<lambda>raw. Inr (None :: RouteConfig option)) (\<lambda>raw. Inl ''no module'')
      \<lparr>fbID = ''random'', fbSelect = (\<lambda>pool r. None)\<rparr> (\<lambda>ds. ''sources.demo'') initial_metrics
      \<lparr>entries = [], counter = 0\<rparr> (demo_policy\<lparr>keyExtractor := None\<rparr>)) of
     Inl e \<Rightarrow> False | Inr s \<Rightarrow> keyExtractor s \<noteq> None \<and> fallback s \<noteq> None"
proof -
  let ?P = "dynamic_Provision demo_match_env shortcuts (\<lambda>raw. Inr (None :: RouteConfig option)) (\<lambda>raw. Inl ''no module'')
      \<lparr>fbID = ''random'', fbSelect = (\<lambda>pool r. None)\<rparr> (\<lambda>ds. ''sources.demo'') initial_metrics
      \<lparr>entries = [], counter = 0\<rparr> (demo_policy\<lparr>keyExtractor := None\<rparr>)"
  have "(fst ?P, fst (snd ?P), snd (snd ?P)) = ?P" by simp
  note est = provision_establishes[OF demo_rm _ _ _ _ this]
  have "\<exists>s. fst ?P = Inr s"
    by (simp add: dynamic_Provision_def provision_keys_def provision_modules_def parse_key_def NewFromExpression_def
        demo_policy_def Let_def split: prod.splits)
  then show ?thesis using est by (auto simp: demo_policy_def split: sum.splits)
qed

end
