(* ===== verification/DynamicUpstreams.thy ===== *)
theory DynamicUpstreams
  imports DynamicSelection
begin

section \<open>The upstream source: dynamic_upstreams.go\<close>

text \<open>
  \<open>DynamicUpstreams\<close>, the source of the pool itself: provisioning, the conversion of a route to a
  pool, and \<open>GetUpstreams\<close>, which caches a pool per key for the refresh interval. The data source is
  a parameter behind the interface \<open>data_source\<close>, its state \<open>'s\<close>; \<open>ts n\<close> is the clock at its
  \<open>n\<close>-th reading in a call. An upstream is its dial address. The \<open>sync.Map\<close> is a map.
  The theorems: the pool has the addresses of the route, each once; and how old an answer can be.
\<close>

record cachedUpstreams =
  cuUpstreams :: "string list"
  cuLastUpdate :: time

record 's DynamicUpstreams =
  duKey :: string
  duDefaultKey :: string
  duDataSourceRaw :: "string option"
  duRefreshInterval :: duration
  duKeyExtractor :: "PlaceholderExtractor option"
  duDataSource :: "'s option"
  duCache :: "string \<rightharpoonup> cachedUpstreams"

definition du_Provision :: "(string \<times> string) list \<Rightarrow> (string \<Rightarrow> 's res) \<Rightarrow> 's DynamicUpstreams \<Rightarrow>
    string option \<times> 's DynamicUpstreams" where
  "du_Provision order load_source d0 =
     (let d1 = d0\<lparr>duRefreshInterval := (if duRefreshInterval d0 = 0 then 5 * 1000000000 else duRefreshInterval d0)\<rparr>;
          d2 = d1\<lparr>duKeyExtractor := parse_key order (duKey d1) (duKeyExtractor d1)\<rparr>
      in case (case duDataSourceRaw d2 of
                 None \<Rightarrow> Inr d2
               | Some raw \<Rightarrow> (case load_source raw of
                   Inl e \<Rightarrow> Inl (''loading data source: '' @ e)
                 | Inr ds \<Rightarrow> Inr (d2\<lparr>duDataSource := Some ds\<rparr>))) of
           Inl e \<Rightarrow> (Some e, d2)
         | Inr d3 \<Rightarrow> (if duDataSource d3 = None then Some ''data source is required'' else None, d3))"

definition du_Cleanup :: "'s DynamicUpstreams \<Rightarrow> 's DynamicUpstreams" where
  "du_Cleanup d = d"

definition du_Validate :: "'s DynamicUpstreams \<Rightarrow> string option" where
  "du_Validate d = (if duRefreshInterval d < 0 then Some ''refresh_interval must be non-negative'' else None)"

definition du_dataSourceType :: "('s \<Rightarrow> string) \<Rightarrow> 's DynamicUpstreams \<Rightarrow> string" where
  "du_dataSourceType moduleID d =
     (case duDataSource d of None \<Rightarrow> ''unknown'' | Some ds \<Rightarrow> after_last (CHR ''.'') (moduleID ds))"

definition du_getKey :: "replacer_value \<Rightarrow> 's DynamicUpstreams \<Rightarrow> string" where
  "du_getKey rv d =
     (case duKeyExtractor d of
        None \<Rightarrow> ''''
      | Some e \<Rightarrow> (case rv of Replacer f \<Rightarrow> Extract e (Some f) | _ \<Rightarrow> ''''))"

text \<open>The loop that keeps the first upstream of each address.\<close>

fun dedup :: "string set \<Rightarrow> string list \<Rightarrow> string list \<Rightarrow> string list" where
  "dedup seen result [] = result"
| "dedup seen result (u # us) =
     (if u \<notin> seen then dedup (insert u seen) (result @ [u]) us else dedup seen result us)"

definition configToUpstreams :: "RouteConfig \<Rightarrow> string list" where
  "configToUpstreams config =
     dedup {} [] ((if cUpstream config \<noteq> [] then [cUpstream config] else []) @
       concat (map (\<lambda>rule. map Address (rUpstreams rule)) (cRules config)))"

definition du_key :: "replacer_value \<Rightarrow> 's DynamicUpstreams \<Rightarrow> string" where
  "du_key rv d =
     (let key = du_getKey rv d; key = (if key = [] then duDefaultKey d else key)
      in if key = [] then ''_default_'' else key)"

text \<open>The cached pool of a key while it is younger than the interval.\<close>

definition du_cached :: "time \<Rightarrow> 's DynamicUpstreams \<Rightarrow> string \<Rightarrow> string list option" where
  "du_cached now d key =
     (case duCache d key of
        Some c \<Rightarrow> if now - cuLastUpdate c < duRefreshInterval d then Some (cuUpstreams c) else None
      | None \<Rightarrow> None)"

text \<open>
  The function under \<open>singleflight\<close>. A nil slice is \<open>[]\<close>. (The code calls \<open>Get\<close> on the data source,
  which is not nil once \<open>Provision\<close> has succeeded.)
\<close>

definition du_fetch :: "('s \<Rightarrow> string \<Rightarrow> RouteConfig option res \<times> 's) \<Rightarrow> (nat \<Rightarrow> time) \<Rightarrow> 's DynamicUpstreams \<Rightarrow> 's \<Rightarrow> string \<Rightarrow>
    string list res \<times> 's DynamicUpstreams" where
  "du_fetch get ts d ds key =
     (case du_cached (ts 1) d key of
        Some ups \<Rightarrow> (Inr ups, d)
      | None \<Rightarrow>
          case get ds key of
            (Inl e, ds') \<Rightarrow>
              (case duCache d key of
                 Some c \<Rightarrow> (Inr (cuUpstreams c), d\<lparr>duDataSource := Some ds'\<rparr>)
               | None \<Rightarrow> (Inl e, d\<lparr>duDataSource := Some ds'\<rparr>))
          | (Inr None, ds') \<Rightarrow> (Inr [], d\<lparr>duDataSource := Some ds'\<rparr>)
          | (Inr (Some config), ds') \<Rightarrow>
              let upstreams = configToUpstreams config
              in (Inr upstreams, d\<lparr>duDataSource := Some ds',
                    duCache := (duCache d)(key \<mapsto> \<lparr>cuUpstreams = upstreams, cuLastUpdate = ts 2\<rparr>)\<rparr>))"

definition GetUpstreams :: "('s \<Rightarrow> string \<Rightarrow> RouteConfig option res \<times> 's) \<Rightarrow> ('s \<Rightarrow> string) \<Rightarrow> (nat \<Rightarrow> time) \<Rightarrow> replacer_value \<Rightarrow>
    metrics \<Rightarrow> 's DynamicUpstreams \<Rightarrow> (string list res \<times> metrics \<times> 's DynamicUpstreams) option" where
  "GetUpstreams get moduleID ts rv m d =
     (let key = du_key rv d in
      case du_cached (ts 0) d key of
        Some ups \<Rightarrow> Some (Inr ups, RecordCacheHit m (du_dataSourceType moduleID d), d)
      | None \<Rightarrow>
          case duDataSource d of
            None \<Rightarrow> None
          | Some ds \<Rightarrow>
              let m1 = RecordCacheMiss m (du_dataSourceType moduleID d); (r, d1) = du_fetch get ts d ds key
              in Some (r, m1, d1))"


subsection \<open>The pool of a route\<close>

lemma dedup_first:
  "dedup (set pre) result us = result @ map (\<lambda>i. us ! i) (filter (\<lambda>i. us ! i \<notin> set pre \<union> set (take i us)) [0..<length us])"
proof (induction us arbitrary: pre result)
  case (Cons u us)
  have upt: "[0..<length (u # us)] = 0 # map Suc [0..<length us]" by (simp add: upt_conv_Cons map_Suc_upt del: upt_Suc)
  have "set pre \<union> set (take (Suc i) (u # us)) = set (u # pre) \<union> set (take i us)" for i by auto
  then have rest: "map (\<lambda>i. (u # us) ! i) (filter (\<lambda>i. (u # us) ! i \<notin> set pre \<union> set (take i (u # us))) (map Suc [0..<length us])) =
      map (\<lambda>i. us ! i) (filter (\<lambda>i. us ! i \<notin> set (u # pre) \<union> set (take i us)) [0..<length us])"
    by (simp only: filter_map map_map comp_def nth_Cons_Suc)
  show ?case
  proof (cases "u \<in> set pre")
    case True
    then have "set (u # pre) = set pre" by auto
    then show ?thesis using True Cons.IH[of pre result] rest unfolding upt by simp
  next
    case False
    then show ?thesis using Cons.IH[of "u # pre" "result @ [u]"] rest unfolding upt by simp
  qed
qed simp

text \<open>
  The pool of a route. Its addresses are those of the route and of its rules, in their order,
  each at its first occurrence only; so none is lost and none is twice in the pool.
\<close>

theorem upstreams_of_config:
  assumes "all = (if cUpstream config \<noteq> [] then [cUpstream config] else []) @
      concat (map (\<lambda>rule. map Address (rUpstreams rule)) (cRules config))"
  shows "configToUpstreams config = map (\<lambda>i. all ! i) (filter (\<lambda>i. all ! i \<notin> set (take i all)) [0..<length all]) \<and>
    set (configToUpstreams config) = set all \<and> distinct (configToUpstreams config)"
proof -
  have pool: "configToUpstreams config = dedup {} [] all" using assms by (simp add: configToUpstreams_def)
  have keeps: "set (dedup seen result us) = set result \<union> (set us - seen) \<and>
      (distinct result \<longrightarrow> set result \<subseteq> seen \<longrightarrow> distinct (dedup seen result us))" for seen result us
  proof (induction us arbitrary: seen result)
    case (Cons u us)
    have "u \<notin> seen \<Longrightarrow> distinct result \<Longrightarrow> set result \<subseteq> seen \<Longrightarrow> distinct (result @ [u]) \<and> set (result @ [u]) \<subseteq> insert u seen" by auto
    then show ?case using Cons.IH[of "insert u seen" "result @ [u]"] Cons.IH[of seen result] by auto
  qed simp
  show ?thesis using dedup_first[of "[]" "[]" all] keeps[of "{}" "[]" all] unfolding pool by simp
qed

lemma upstreams_of_config_witness:
  "set (configToUpstreams (empty_config\<lparr>cUpstream := ''a:80'',
     cRules := [\<lparr>rMatch = [], rUpstreams = [\<lparr>Address = ''b:80'', Weight = 1\<rparr>, \<lparr>Address = ''a:80'', Weight = 1\<rparr>],
       rPriority = 0, rAlgorithm = '''', rAlgorithmKey = ''''\<rparr>]\<rparr>)) = {''a:80'', ''b:80''}"
  using upstreams_of_config[OF refl, of "empty_config\<lparr>cUpstream := ''a:80'',
     cRules := [\<lparr>rMatch = [], rUpstreams = [\<lparr>Address = ''b:80'', Weight = 1\<rparr>, \<lparr>Address = ''a:80'', Weight = 1\<rparr>],
       rPriority = 0, rAlgorithm = '''', rAlgorithmKey = ''''\<rparr>]\<rparr>"]
  by auto

subsection \<open>How old an answer can be\<close>

text \<open>
  A history of calls. The journal holds the routes that the data source has delivered, the last one
  first, each with the key and the time at which it was stored. The data source may answer
  differently at each call.
\<close>

definition delivered :: "('s \<Rightarrow> string \<Rightarrow> RouteConfig option res \<times> 's) \<Rightarrow> (nat \<Rightarrow> time) \<Rightarrow> replacer_value \<Rightarrow> 's DynamicUpstreams \<Rightarrow>
    (string \<times> RouteConfig \<times> time) list" where
  "delivered get ts rv d =
     (let key = du_key rv d in
      if du_cached (ts 0) d key \<noteq> None \<or> du_cached (ts 1) d key \<noteq> None then []
      else case duDataSource d of
        None \<Rightarrow> []
      | Some ds \<Rightarrow> (case fst (get ds key) of Inr (Some c) \<Rightarrow> [(key, c, ts 2)] | _ \<Rightarrow> []))"

inductive du_history :: "'s DynamicUpstreams \<Rightarrow> (string \<times> RouteConfig \<times> time) list \<Rightarrow> 's DynamicUpstreams \<Rightarrow> bool" for d0 where
  du_start: "du_history d0 [] d0"
| du_call: "du_history d0 journal d \<Longrightarrow> GetUpstreams get moduleID ts rv m d = Some (r, m', d') \<Longrightarrow>
     du_history d0 (delivered get ts rv d @ journal) d'"

definition stored :: "RouteConfig \<times> time \<Rightarrow> cachedUpstreams" where
  "stored ct = \<lparr>cuUpstreams = configToUpstreams (fst ct), cuLastUpdate = snd ct\<rparr>"

lemma du_call_cases:
  assumes "GetUpstreams get moduleID ts rv m d = Some (r, m', d')" and "key = du_key rv d"
  obtains (cached) ups where "du_cached (ts 0) d key = Some ups" "r = Inr ups" "d' = d" "delivered get ts rv d = []"
  | (filled) ups where "du_cached (ts 0) d key = None" "du_cached (ts 1) d key = Some ups" "r = Inr ups" "d' = d"
      "delivered get ts rv d = []"
  | (error) ds e where "du_cached (ts 0) d key = None" "du_cached (ts 1) d key = None" "duDataSource d = Some ds"
      "fst (get ds key) = Inl e" "r = (case duCache d key of Some c \<Rightarrow> Inr (cuUpstreams c) | None \<Rightarrow> Inl e)"
      "duCache d' = duCache d" "duRefreshInterval d' = duRefreshInterval d" "delivered get ts rv d = []"
  | (missing) ds where "du_cached (ts 0) d key = None" "du_cached (ts 1) d key = None" "duDataSource d = Some ds"
      "fst (get ds key) = Inr None" "r = Inr []" "duCache d' = duCache d" "duRefreshInterval d' = duRefreshInterval d"
      "delivered get ts rv d = []"
  | (found) ds c where "du_cached (ts 0) d key = None" "du_cached (ts 1) d key = None" "duDataSource d = Some ds"
      "fst (get ds key) = Inr (Some c)" "r = Inr (configToUpstreams c)" "duCache d' = (duCache d)(key \<mapsto> stored (c, ts 2))"
      "duRefreshInterval d' = duRefreshInterval d" "delivered get ts rv d = [(key, c, ts 2)]"
proof (cases "du_cached (ts 0) d key")
  case (Some ups)
  then have "r = Inr ups" "d' = d" using assms by (simp_all add: GetUpstreams_def Let_def)
  moreover have "delivered get ts rv d = []" using Some assms(2) by (simp add: delivered_def Let_def)
  ultimately show thesis using cached[OF Some] by blast
next
  case None
  note n0 = this
  show thesis
  proof (cases "duDataSource d")
    case None
    then show thesis using assms n0 by (simp add: GetUpstreams_def)
  next
    case (Some ds)
    note ds = this
    have f: "du_fetch get ts d ds key = (r, d')"
      using assms n0 ds by (auto simp: GetUpstreams_def Let_def split: prod.splits)
    show thesis
    proof (cases "du_cached (ts 1) d key")
      case (Some ups)
      then have "r = Inr ups" "d' = d" using f by (simp_all add: du_fetch_def)
      moreover have "delivered get ts rv d = []" using Some assms(2) by (simp add: delivered_def Let_def)
      ultimately show thesis using filled[OF n0 Some] by blast
    next
      case None
      note n1 = this
      obtain a ds' where g: "get ds key = (a, ds')" by fastforce
      have del: "delivered get ts rv d = (case a of Inr (Some c) \<Rightarrow> [(key, c, ts 2)] | _ \<Rightarrow> [])"
        unfolding assms(2) using n0 n1 ds g assms(2) by (simp add: delivered_def Let_def)
      consider e where "a = Inl e" | "a = Inr None" | c where "a = Inr (Some c)"
        by (metis sum.exhaust option.exhaust)
      then show thesis
      proof cases
        case 1
        then have "(r, d') = (case duCache d key of Some c \<Rightarrow> Inr (cuUpstreams c) | None \<Rightarrow> Inl e, d\<lparr>duDataSource := Some ds'\<rparr>)"
          using f g n1 by (cases "duCache d key") (simp_all add: du_fetch_def)
        then show thesis using error[OF n0 n1 ds, of e] 1 g del by simp
      next
        case 2
        then have "(r, d') = (Inr [], d\<lparr>duDataSource := Some ds'\<rparr>)" using f g n1 by (simp add: du_fetch_def)
        then show thesis using missing[OF n0 n1 ds] 2 g del by simp
      next
        case 3
        then have "(r, d') = (Inr (configToUpstreams c), d\<lparr>duDataSource := Some ds', duCache := (duCache d)(key \<mapsto> stored (c, ts 2))\<rparr>)"
          using f g n1 by (simp add: du_fetch_def Let_def stored_def)
        then show thesis using found[OF n0 n1 ds, of c] 3 g del by simp
      qed
    qed
  qed
qed

lemma du_history_cache:
  assumes "du_history d0 journal d" and "duCache d0 = Map.empty"
  shows "duCache d k = map_option stored (map_of journal k) \<and> duRefreshInterval d = duRefreshInterval d0"
  using assms(1)
proof (induction arbitrary: k)
  case du_start
  then show ?case using assms(2) by simp
next
  case (du_call journal d get moduleID ts rv m r m' d')
  from du_call.hyps(2) refl show ?case
    by (cases rule: du_call_cases) (auto simp: du_call.IH)
qed


text \<open>
  C18: what \<open>GetUpstreams\<close> answers after any history of calls, by the last route \<open>c\<close> that the data
  source delivered for the key, stored at \<open>t\<close>. While it is younger than the refresh interval its pool is
  the answer, and nothing is asked of the data source. Otherwise the data source decides: its route
  gives the pool; if it has none the pool is empty; if it fails, the last pool is the answer
  again, however old it is, and the error is returned only when there was never a pool.
\<close>

theorem upstreams_age:
  assumes "du_history d0 journal d" and "duCache d0 = Map.empty" and "ts 0 \<le> ts 1"
    and "GetUpstreams get moduleID ts rv m d = Some (r, m', d')" and "key = du_key rv d"
  shows "case map_of journal key of
      Some (c, t) \<Rightarrow>
        if ts 0 - t < duRefreshInterval d0 then r = Inr (configToUpstreams c) \<and> d' = d
        else \<exists>ds. duDataSource d = Some ds \<and> r = (case fst (get ds key) of
          Inr (Some c') \<Rightarrow> Inr (configToUpstreams c') | Inr None \<Rightarrow> Inr [] | Inl e \<Rightarrow> Inr (configToUpstreams c))
    | None \<Rightarrow> \<exists>ds. duDataSource d = Some ds \<and> r = (case fst (get ds key) of
        Inr (Some c') \<Rightarrow> Inr (configToUpstreams c') | Inr None \<Rightarrow> Inr [] | Inl e \<Rightarrow> Inl e)"
proof -
  note inv = du_history_cache[OF assms(1,2)]
  have cached: "du_cached now d key = (case map_of journal key of
      Some (c, t) \<Rightarrow> if now - t < duRefreshInterval d0 then Some (configToUpstreams c) else None | None \<Rightarrow> None)" for now
    using inv[of key] by (auto simp: du_cached_def stored_def split: option.splits)
  show ?thesis
  proof (cases "map_of journal key")
    case None
    with cached have none: "du_cached now d key = None" for now by simp
    from assms(4,5) show ?thesis
      by (cases rule: du_call_cases) (use None none inv[of key] in \<open>auto\<close>)
  next
    case (Some ct)
    obtain c t where ct: "ct = (c, t)" by fastforce
    have now: "du_cached now d key = (if now - t < duRefreshInterval d0 then Some (configToUpstreams c) else None)" for now
      using cached Some ct by simp
    have age: "ts 0 - t \<le> ts 1 - t" using assms(3) by simp
    have cache: "duCache d key = Some (stored (c, t))" using inv[of key] Some ct by simp
    from assms(4,5) show ?thesis
      by (cases rule: du_call_cases)
        (use Some ct now[of "ts 0"] now[of "ts 1"] age cache in \<open>auto simp: stored_def split: if_splits\<close>)
  qed
qed


definition demo_upstreams :: "nat DynamicUpstreams" where
  "demo_upstreams = \<lparr>duKey = '''', duDefaultKey = '''', duDataSourceRaw = None, duRefreshInterval = 5000000000,
     duKeyExtractor = None, duDataSource = Some 0, duCache = Map.empty\<rparr>"

definition demo_call :: "RouteConfig option res \<Rightarrow> time \<Rightarrow> nat DynamicUpstreams \<Rightarrow> string list res \<times> metrics \<times> nat DynamicUpstreams" where
  "demo_call answer now d = the (GetUpstreams (\<lambda>s _. (answer, s)) (\<lambda>_. ''http'') (\<lambda>_. now) NoReplacer initial_metrics d)"

definition demo_route :: RouteConfig where
  "demo_route = empty_config\<lparr>cUpstream := ''up:80''\<rparr>"

lemma demo_call_history:
  assumes "du_history d0 journal d" and "duDataSource d = Some 0"
  shows "du_history d0 (delivered (\<lambda>s _. (answer, s)) (\<lambda>_. now) NoReplacer d @ journal) (snd (snd (demo_call answer now d)))"
proof -
  obtain r m' d' where "GetUpstreams (\<lambda>s _. (answer, s)) (\<lambda>_. ''http'') (\<lambda>_. now) NoReplacer initial_metrics d = Some (r, m', d')"
    using assms(2) by (cases "du_cached now d (du_key NoReplacer d)") (auto simp: GetUpstreams_def Let_def case_prod_beta)
  then show ?thesis using du_call[OF assms(1)] by (simp add: demo_call_def)
qed

lemma demo_key: "du_key NoReplacer (d :: nat DynamicUpstreams) = (if duDefaultKey d = [] then ''_default_'' else duDefaultKey d)"
  if "duKeyExtractor d = None"
  using that by (simp add: du_key_def du_getKey_def Let_def)

lemmas demo_du_simps = demo_call_def GetUpstreams_def demo_key demo_upstreams_def du_cached_def du_fetch_def Let_def delivered_def

lemma demo_first:
  "snd (snd (demo_call (Inr (Some demo_route)) 0 demo_upstreams)) =
     demo_upstreams\<lparr>duCache := [''_default_'' \<mapsto> stored (demo_route, 0)]\<rparr>"
  "delivered (\<lambda>s _. (Inr (Some demo_route), s)) (\<lambda>_. 0) NoReplacer demo_upstreams = [(''_default_'', demo_route, 0)]"
  by (simp_all add: demo_du_simps stored_def)

lemma demo_du_history:
  "du_history demo_upstreams [(''_default_'', demo_route, 0)] (demo_upstreams\<lparr>duCache := [''_default_'' \<mapsto> stored (demo_route, 0)]\<rparr>)"
proof -
  have "duDataSource demo_upstreams = Some 0" by (simp add: demo_upstreams_def)
  from demo_call_history[OF du_start this, of "Inr (Some demo_route)" 0] show ?thesis by (simp add: demo_first)
qed

lemma upstreams_age_witness:
  "fst (demo_call (Inl ''timeout'') 10000000000 (demo_upstreams\<lparr>duCache := [''_default_'' \<mapsto> stored (demo_route, 0)]\<rparr>)) =
     Inr (configToUpstreams demo_route)"
proof -
  let ?d = "demo_upstreams\<lparr>duCache := [''_default_'' \<mapsto> stored (demo_route, 0)]\<rparr>"
  let ?get = "\<lambda>s::nat. \<lambda>_::string. (Inl ''timeout'' :: RouteConfig option res, s)"
  have empty: "duCache demo_upstreams = Map.empty" by (simp add: demo_upstreams_def)
  obtain r m' d' where g: "GetUpstreams ?get (\<lambda>_. ''http'') (\<lambda>_. 10000000000) NoReplacer initial_metrics ?d = Some (r, m', d')"
    by (simp add: demo_du_simps stored_def)
  have "du_key NoReplacer ?d = ''_default_''" by (simp add: demo_key demo_upstreams_def)
  with upstreams_age[OF demo_du_history empty order_refl g refl] have "r = Inr (configToUpstreams demo_route)"
    by (simp add: demo_upstreams_def)
  then show ?thesis using g by (simp add: demo_call_def)
qed

text \<open>
  A route that the data source has deleted comes back: the pool is empty while the source says
  that there is none, but the old pool stays in the cache, and an error of the source serves it again.
\<close>

lemma deleted_route_returns:
  assumes "du_cached (ts 0) d key = None" and "du_cached (ts 1) d key = None" and "duCache d key = Some c"
    and "duDataSource d = Some ds" and "key = du_key rv d" and "get ds key = (Inr None, ds')"
    and "GetUpstreams get moduleID ts rv m d = Some (r, m', d')"
    and "get' ds' key = (Inl e, ds'')" and "ts 0 \<le> ts' 0" and "ts 0 \<le> ts' 1"
    and "GetUpstreams get' moduleID ts' rv m' d' = Some (r', m'', d'')"
  shows "r = Inr [] \<and> r' = Inr (cuUpstreams c)"
proof -
  have "r = Inr [] \<and> d' = d\<lparr>duDataSource := Some ds'\<rparr>"
    using assms(1,2,4,6,7) assms(5) by (auto simp: GetUpstreams_def du_fetch_def Let_def)
  moreover from this have "du_key rv d' = key" using assms(5) by (simp add: du_key_def du_getKey_def Let_def)
  moreover have "du_cached (ts' 0) d' key = None" "du_cached (ts' 1) d' key = None" "duCache d' key = Some c"
    "duDataSource d' = Some ds'"
    using calculation(1) assms(1,3,9,10) by (auto simp: du_cached_def split: if_splits)
  ultimately show ?thesis using assms(8,11) by (auto simp: GetUpstreams_def du_fetch_def Let_def)
qed


text \<open>The pool of a route does not depend on whether the route is enabled, nor on its lifetime.\<close>

lemma pool_ignores_enabled: "configToUpstreams (c\<lparr>cEnabled := Some False, cTTL := t\<rparr>) = configToUpstreams c"
  by (simp add: configToUpstreams_def)

end
