(* ===== verification/Composite.thy ===== *)
theory Composite
  imports DataSource
begin

section \<open>The composite source: datasource/composite/composite.go\<close>

text \<open>
  \<open>CompositeSource\<close> combines child data sources by one of four modes. A child is a value of
  an arbitrary type \<open>'s\<close>; its \<open>Get\<close> and \<open>Healthy\<close>, with which clock and backend it answers
  included, are the arguments \<open>get\<close> and \<open>healthy\<close>, for which the locale \<open>data_source\<close> states
  what the composite may rely on. The parallel modes start all children at once; \<open>arrivals\<close> is
  the order in which their indices come out of the channel. The time-outs act inside \<open>get\<close>.
\<close>

record 's CompositeSource =
  kMode :: string
  kParallel :: bool
  kTimeout :: duration
  kCacheResults :: bool
  kCacheTTL :: duration
  kSources :: "'s list"
  kCache :: "(string \<times> (RouteConfig option \<times> time)) list"
  kLastError :: string
  kAdminName :: string

definition composite_AdminType :: string where
  "composite_AdminType = ''composite''"

text \<open>\<open>loaded\<close> is what loading each configured child module gives: a child, an error, or no data source.\<close>

datatype 's loaded = Loaded 's | LoadError string | NotADataSource

fun load_sources :: "nat \<Rightarrow> 's list \<Rightarrow> 's loaded list \<Rightarrow> string option \<times> 's list" where
  "load_sources i acc [] = (None, acc)"
| "load_sources i acc (Loaded s # ls) = load_sources (Suc i) (acc @ [s]) ls"
| "load_sources i acc (LoadError e # ls) = (Some (''loading source '' @ itoa (int i) @ '': '' @ e), acc)"
| "load_sources i acc (NotADataSource # ls) = (Some (''source '' @ itoa (int i) @ '' is not a DataSource''), acc)"

definition composite_Provision :: "'s loaded list \<Rightarrow> 'd \<Rightarrow> 'd adminRegistry \<Rightarrow> 's CompositeSource \<Rightarrow>
    string option \<times> 'd adminRegistry \<times> 's CompositeSource" where
  "composite_Provision raw self g c0 =
     (let c = c0\<lparr>kMode := (if kMode c0 = [] then ''failover'' else kMode c0),
                 kTimeout := (if kTimeout c0 = 0 then 5000000000 else kTimeout c0),
                 kCacheTTL := (if kCacheTTL c0 = 0 then 30000000000 else kCacheTTL c0)\<rparr> in
      if raw = [] then (Some ''at least one source is required'', g, c)
      else let (err, srcs) = load_sources 0 [] raw; c1 = c\<lparr>kSources := srcs\<rparr> in
        case err of
          Some e \<Rightarrow> (Some e, g, c1)
        | None \<Rightarrow>
            let (name, g') = RegisterAdminSource g (Some self) composite_AdminType ''''
            in (None, g', c1\<lparr>kAdminName := name\<rparr>))"

text \<open>\<open>cleanups\<close> are the errors of the children's \<open>Cleanup\<close>, in order.\<close>

definition composite_Cleanup :: "'d adminRegistry \<Rightarrow> 's CompositeSource \<Rightarrow> ('s \<Rightarrow> string option) \<Rightarrow>
    string list \<times> 'd adminRegistry \<times> 's CompositeSource" where
  "composite_Cleanup g c cleanup =
     (List.map_filter cleanup (kSources c), UnregisterAdminSource g (kAdminName c), c\<lparr>kAdminName := ''''\<rparr>)"

subsection \<open>The modes\<close>

fun getFailover :: "('s \<Rightarrow> string \<Rightarrow> RouteConfig option res \<times> 's) \<Rightarrow> ('s \<Rightarrow> bool) \<Rightarrow> 's list \<Rightarrow> string \<Rightarrow>
    RouteConfig option \<times> 's list" where
  "getFailover get healthy [] key = (None, [])"
| "getFailover get healthy (src # srcs) key =
     (if \<not> healthy src then apsnd (Cons src) (getFailover get healthy srcs key)
      else case get src key of
        (Inl e, src') \<Rightarrow> apsnd (Cons src') (getFailover get healthy srcs key)
      | (Inr None, src') \<Rightarrow> apsnd (Cons src') (getFailover get healthy srcs key)
      | (Inr (Some config), src') \<Rightarrow> (Some config, src' # srcs))"

definition mergeConfig :: "RouteConfig \<Rightarrow> RouteConfig \<Rightarrow> RouteConfig" where
  "mergeConfig dst src =
     dst\<lparr>cUpstream := (if cUpstream src \<noteq> [] then cUpstream src else cUpstream dst),
         cAlgorithm := (if cAlgorithm src \<noteq> [] then cAlgorithm src else cAlgorithm dst),
         cAlgorithmKey := (if cAlgorithmKey src \<noteq> [] then cAlgorithmKey src else cAlgorithmKey dst),
         cFallback := (if cFallback src \<noteq> [] then cFallback src else cFallback dst),
         cDescription := (if cDescription src \<noteq> [] then cDescription src else cDescription dst),
         cTTL := (if 0 < cTTL src then cTTL src else cTTL dst),
         cEnabled := (case cEnabled src of Some b \<Rightarrow> Some b | None \<Rightarrow> cEnabled dst),
         cRules := cRules dst @ cRules src,
         cMetadata := foldl (\<lambda>md (k, v). AList.update k v md) (cMetadata dst) (cMetadata src),
         cVersion := (if cVersion dst < cVersion src then cVersion src else cVersion dst)\<rparr>"

definition merge_into :: "RouteConfig option \<Rightarrow> RouteConfig option \<Rightarrow> RouteConfig option" where
  "merge_into merged config =
     (case config of
        None \<Rightarrow> merged
      | Some c \<Rightarrow> (case merged of None \<Rightarrow> Some (Clone c) | Some m \<Rightarrow> Some (mergeConfig m c)))"

fun getMergeSequential :: "('s \<Rightarrow> string \<Rightarrow> RouteConfig option res \<times> 's) \<Rightarrow> RouteConfig option \<Rightarrow> 's list \<Rightarrow> string \<Rightarrow>
    RouteConfig option \<times> 's list" where
  "getMergeSequential get merged [] key = (merged, [])"
| "getMergeSequential get merged (src # srcs) key =
     (case get src key of
        (Inl e, src') \<Rightarrow> apsnd (Cons src') (getMergeSequential get merged srcs key)
      | (Inr config, src') \<Rightarrow> apsnd (Cons src') (getMergeSequential get (merge_into merged config) srcs key))"

text \<open>The collecting loop writes each result that is no error into its slot.\<close>

definition collect_slots :: "nat \<Rightarrow> (nat \<Rightarrow> RouteConfig option res) \<Rightarrow> nat list \<Rightarrow> RouteConfig option list" where
  "collect_slots n result arrivals =
     foldl (\<lambda>configs i. case result i of Inl e \<Rightarrow> configs | Inr c \<Rightarrow> configs[i := c]) (replicate n None) arrivals"

definition getMergeParallel :: "('s \<Rightarrow> string \<Rightarrow> RouteConfig option res \<times> 's) \<Rightarrow> 's list \<Rightarrow> string \<Rightarrow> nat list \<Rightarrow>
    RouteConfig option \<times> 's list" where
  "getMergeParallel get srcs key arrivals =
     (let answers = map (\<lambda>s. get s key) srcs;
          configs = collect_slots (length srcs) (\<lambda>i. fst (answers ! i)) arrivals
      in (foldl merge_into None configs, map snd answers))"

definition getMerge :: "('s \<Rightarrow> string \<Rightarrow> RouteConfig option res \<times> 's) \<Rightarrow> bool \<Rightarrow> 's list \<Rightarrow> string \<Rightarrow> nat list \<Rightarrow>
    RouteConfig option \<times> 's list" where
  "getMerge get parallel srcs key arrivals =
     (if parallel then getMergeParallel get srcs key arrivals else getMergeSequential get None srcs key)"

fun getPrioritySequential :: "('s \<Rightarrow> string \<Rightarrow> RouteConfig option res \<times> 's) \<Rightarrow> 's list \<Rightarrow> string \<Rightarrow>
    RouteConfig option \<times> 's list" where
  "getPrioritySequential get [] key = (None, [])"
| "getPrioritySequential get (src # srcs) key =
     (case get src key of
        (Inl e, src') \<Rightarrow> apsnd (Cons src') (getPrioritySequential get srcs key)
      | (Inr None, src') \<Rightarrow> apsnd (Cons src') (getPrioritySequential get srcs key)
      | (Inr (Some config), src') \<Rightarrow> (Some config, src' # srcs))"

text \<open>
  The scan of the collected results from index \<open>i\<close> on: it returns the first collected
  configuration, and gives up at a gap while results are outstanding.
\<close>

fun scan_collected :: "(nat \<rightharpoonup> RouteConfig) \<Rightarrow> nat \<Rightarrow> nat \<Rightarrow> nat list \<Rightarrow> RouteConfig option" where
  "scan_collected collected received n [] = None"
| "scan_collected collected received n (i # is) =
     (case collected i of
        Some cfg \<Rightarrow> Some cfg
      | None \<Rightarrow> if received < n then None else scan_collected collected received n is)"

fun collect_priority :: "(nat \<Rightarrow> RouteConfig option res) \<Rightarrow> nat \<Rightarrow> (nat \<rightharpoonup> RouteConfig) \<Rightarrow> nat \<Rightarrow> nat list \<Rightarrow>
    RouteConfig option" where
  "collect_priority result n collected received [] = scan_collected collected n n [0..<n]"
| "collect_priority result n collected received (a # arrivals) =
     (let received' = Suc received;
          collected' = (case result a of Inr (Some c) \<Rightarrow> collected(a \<mapsto> c) | _ \<Rightarrow> collected)
      in case scan_collected collected' received' n [0..<n] of
           Some cfg \<Rightarrow> Some cfg
         | None \<Rightarrow> collect_priority result n collected' received' arrivals)"

definition getPriorityParallel :: "('s \<Rightarrow> string \<Rightarrow> RouteConfig option res \<times> 's) \<Rightarrow> 's list \<Rightarrow> string \<Rightarrow> nat list \<Rightarrow>
    RouteConfig option \<times> 's list" where
  "getPriorityParallel get srcs key arrivals =
     (let answers = map (\<lambda>s. get s key) srcs
      in (collect_priority (\<lambda>i. fst (answers ! i)) (length srcs) Map.empty 0 arrivals, map snd answers))"

definition getPriority :: "('s \<Rightarrow> string \<Rightarrow> RouteConfig option res \<times> 's) \<Rightarrow> bool \<Rightarrow> 's list \<Rightarrow> string \<Rightarrow> nat list \<Rightarrow>
    RouteConfig option \<times> 's list" where
  "getPriority get parallel srcs key arrivals =
     (if parallel then getPriorityParallel get srcs key arrivals else getPrioritySequential get srcs key)"

definition getFirst :: "('s \<Rightarrow> string \<Rightarrow> RouteConfig option res \<times> 's) \<Rightarrow> 's list \<Rightarrow> string \<Rightarrow>
    RouteConfig option res \<times> 's list" where
  "getFirst get srcs key =
     (case srcs of
        [] \<Rightarrow> (Inr None, [])
      | s # ss \<Rightarrow> (case get s key of (r, s') \<Rightarrow> (r, s' # ss)))"

definition composite_Get :: "('s \<Rightarrow> string \<Rightarrow> RouteConfig option res \<times> 's) \<Rightarrow> ('s \<Rightarrow> bool) \<Rightarrow> (nat \<Rightarrow> time) \<Rightarrow> nat list \<Rightarrow>
    's CompositeSource \<Rightarrow> string \<Rightarrow> RouteConfig option res \<times> 's CompositeSource" where
  "composite_Get get healthy ts arrivals c0 key =
     (let (hit, c) =
        (if kCacheResults c0 then
           (case map_of (kCache c0) key of
              Some (config, expiresAt) \<Rightarrow>
                if ts 0 < expiresAt then (Some config, c0)
                else (None, c0\<lparr>kCache := AList.delete key (kCache c0)\<rparr>)
            | None \<Rightarrow> (None, c0))
         else (None, c0))
      in case hit of
        Some config \<Rightarrow> (Inr config, c)
      | None \<Rightarrow>
          let (r, srcs) =
                (if kMode c = ''merge'' then apfst Inr (getMerge get (kParallel c) (kSources c) key arrivals)
                 else if kMode c = ''priority'' then apfst Inr (getPriority get (kParallel c) (kSources c) key arrivals)
                 else if kMode c = ''first'' then getFirst get (kSources c) key
                 else apfst Inr (getFailover get healthy (kSources c) key));
              c1 = c\<lparr>kSources := srcs\<rparr>;
              c2 = (case r of
                      Inr (Some config) \<Rightarrow>
                        if kCacheResults c1 then
                          c1\<lparr>kCache := AList.update key (Some config, ts 1 + kCacheTTL c1) (kCache c1)\<rparr>
                        else c1
                    | _ \<Rightarrow> c1)
          in (r, c2\<lparr>kLastError := (case r of Inl e \<Rightarrow> e | Inr _ \<Rightarrow> '''')\<rparr>))"

subsection \<open>Health and admin\<close>

definition composite_Healthy :: "('s \<Rightarrow> bool) \<Rightarrow> 's CompositeSource \<Rightarrow> bool" where
  "composite_Healthy healthy c = list_ex healthy (kSources c)"

definition composite_HealthStatus :: "('s \<Rightarrow> bool) \<Rightarrow> 's CompositeSource \<Rightarrow> bool list" where
  "composite_HealthStatus healthy c = map healthy (kSources c)"

definition composite_AdminLastError :: "'s CompositeSource \<Rightarrow> string" where
  "composite_AdminLastError c = kLastError c"

definition composite_AdminListRoutes :: "'s CompositeSource \<Rightarrow> AdminRouteInfo list" where
  "composite_AdminListRoutes c =
     (if \<not> kCacheResults c then []
      else map (\<lambda>(key, (config, _)). SummarizeRouteConfig key config) (kCache c))"

definition composite_AdminCacheStats :: "'s CompositeSource \<Rightarrow> AdminCacheStats" where
  "composite_AdminCacheStats c =
     \<lparr>aEntries = (if kCacheResults c then int (length (kCache c)) else 0), aMaxSize = 0, aHits = 0, aMisses = 0,
      aNegativeHits = 0, aHitRate = 0\<rparr>"

definition composite_AdminClearCache :: "'s CompositeSource \<Rightarrow> 's CompositeSource" where
  "composite_AdminClearCache c = c\<lparr>kCache := []\<rparr>"

subsection \<open>What the modes compute\<close>

fun first_config :: "RouteConfig option res list \<Rightarrow> RouteConfig option" where
  "first_config [] = None"
| "first_config (Inr (Some c) # rs) = Some c"
| "first_config (_ # rs) = first_config rs"

definition config_of :: "RouteConfig option res \<Rightarrow> RouteConfig option" where
  "config_of r = (case r of Inr (Some c) \<Rightarrow> Some c | _ \<Rightarrow> None)"

lemma first_config_Cons: "first_config (r # rs) = (case config_of r of Some c \<Rightarrow> Some c | None \<Rightarrow> first_config rs)"
  by (cases r; cases "projr r") (auto simp: config_of_def split: option.splits)

lemma first_config_in: "Inr (Some c) \<in> set rs \<Longrightarrow> \<exists>c'. first_config rs = Some c'"
  by (induction rs rule: first_config.induct) auto

lemma getFailover_fst:
  "fst (getFailover get healthy srcs key) = first_config (map (\<lambda>s. fst (get s key)) (filter healthy srcs))"
  by (induction srcs) (auto split: sum.splits option.splits prod.splits)

lemma getPriority_fst:
  "fst (getPrioritySequential get srcs key) = first_config (map (\<lambda>s. fst (get s key)) srcs)"
  by (induction srcs) (auto split: sum.splits option.splits prod.splits)

lemma getMerge_fst:
  "getMergeSequential get m srcs key =
     (foldl merge_into m (map (\<lambda>s. config_of (fst (get s key))) srcs), map (\<lambda>s. snd (get s key)) srcs)"
proof (induction srcs arbitrary: m)
  case Nil
  then show ?case by simp
next
  case (Cons s srcs)
  have mi: "merge_into m None = m" for m by (simp add: merge_into_def)
  show ?case
    using Cons.IH by (auto simp: config_of_def mi split: prod.splits sum.splits option.splits)
qed

lemma collect_slots_nth:
  assumes "set arrivals \<subseteq> {..<n}" and "length xs = n"
  shows "foldl (\<lambda>configs i. case result i of Inl e \<Rightarrow> configs | Inr c \<Rightarrow> configs[i := c]) xs arrivals =
    map (\<lambda>i. if i \<in> set arrivals then (case result i of Inl e \<Rightarrow> xs ! i | Inr c \<Rightarrow> c) else xs ! i) [0..<n]"
  using assms
proof (induction arrivals arbitrary: xs)
  case Nil
  then show ?case by (auto intro: nth_equalityI)
next
  case (Cons a arrivals)
  let ?xs = "case result a of Inl e \<Rightarrow> xs | Inr c \<Rightarrow> xs[a := c]"
  have len: "length ?xs = n" using Cons.prems by (auto split: sum.splits)
  have "set arrivals \<subseteq> {..<n}" using Cons.prems by simp
  note IH = Cons.IH[OF this len]
  show ?case
    using IH Cons.prems by (auto intro!: nth_equalityI simp: nth_list_update split: sum.splits)
qed

lemma collect_slots_perm:
  assumes "set arrivals = {..<n}"
  shows "collect_slots n result arrivals = map (\<lambda>i. config_of (result i)) [0..<n]"
proof -
  have "collect_slots n result arrivals =
      map (\<lambda>i. if i \<in> set arrivals then (case result i of Inl e \<Rightarrow> replicate n None ! i | Inr c \<Rightarrow> c)
               else replicate n None ! i) [0..<n]"
    unfolding collect_slots_def using assms by (intro collect_slots_nth) simp_all
  also have "\<dots> = map (\<lambda>i. config_of (result i)) [0..<n]"
    using assms by (intro map_cong) (auto simp: config_of_def split: sum.splits option.splits)
  finally show ?thesis .
qed

lemma map_upt_nth: "map (\<lambda>i. f (map g xs ! i)) [0..<length xs] = map (\<lambda>x. f (g x)) xs"
  by (rule nth_equalityI) simp_all

lemma getMergeParallel_eq:
  assumes "set arrivals = {..<length srcs}"
  shows "getMergeParallel get srcs key arrivals = getMergeSequential get None srcs key"
proof -
  have "collect_slots (length srcs) (\<lambda>i. fst (map (\<lambda>s. get s key) srcs ! i)) arrivals =
      map (\<lambda>s. config_of (fst (get s key))) srcs"
    using map_upt_nth[of "\<lambda>r. config_of (fst r)" "\<lambda>s. get s key" srcs]
    by (simp add: collect_slots_perm[OF assms])
  then show ?thesis
    by (simp add: getMergeParallel_def getMerge_fst Let_def)
qed

subsection \<open>The priority race\<close>

lemma scan_full:
  "scan_collected col n n is = first_config (map (\<lambda>i. Inr (col i)) is)"
  by (induction "is") (auto split: option.splits)

lemma scan_gap:
  "received < n \<Longrightarrow> scan_collected col received n [0..<n] = col 0"
  by (subst upt_conv_Cons) (auto split: option.splits)

lemma first_config_config_of: "first_config (map (\<lambda>r. Inr (config_of r)) rs) = first_config rs"
proof (induction rs)
  case Nil
  then show ?case by simp
next
  case (Cons r rs)
  have "config_of (Inr (config_of r)) = config_of r" by (auto simp: config_of_def split: sum.splits option.splits)
  then show ?case using Cons by (simp add: first_config_Cons split: option.splits)
qed

definition seen :: "(nat \<Rightarrow> RouteConfig option res) \<Rightarrow> nat set \<Rightarrow> nat \<Rightarrow> RouteConfig option" where
  "seen result A i = (if i \<in> A then config_of (result i) else None)"

lemma seen_step:
  "(case result a of Inr (Some c) \<Rightarrow> (seen result A)(a \<mapsto> c) | _ \<Rightarrow> seen result A) = seen result (insert a A)"
  if "a \<notin> A"
  using that by (auto simp: seen_def config_of_def fun_eq_iff split: sum.splits option.splits)

lemma collect_priority_first:
  assumes "distinct (pre @ arrivals)" and "set (pre @ arrivals) = {..<n}"
  shows "collect_priority result n (seen result (set pre)) (length pre) arrivals = first_config (map result [0..<n])"
  using assms
proof (induction arrivals arbitrary: pre)
  case Nil
  then have "seen result (set pre) i = config_of (result i)" if "i < n" for i using that by (auto simp: seen_def)
  then have "map (\<lambda>i. Inr (seen result (set pre) i)) [0..<n] = map (\<lambda>r. Inr (config_of r)) (map result [0..<n])" by simp
  then show ?case unfolding collect_priority.simps scan_full
    by (rule trans[OF arg_cong[of _ _ first_config] first_config_config_of])
next
  case (Cons a arrivals)
  let ?A = "set (pre @ [a])"
  have ins: "(case result a of Inr (Some c) \<Rightarrow> (seen result (set pre))(a \<mapsto> c) | _ \<Rightarrow> seen result (set pre)) =
      seen result ?A"
    using seen_step[of a "set pre" result] Cons.prems(1) by simp
  have len: "length (pre @ a # arrivals) = n"
    using Cons.prems distinct_card[of "pre @ a # arrivals"] by simp
  have IH: "collect_priority result n (seen result ?A) (Suc (length pre)) arrivals = first_config (map result [0..<n])"
    using Cons.IH[of "pre @ [a]"] Cons.prems by simp
  show ?case
  proof (cases "Suc (length pre) < n")
    case True
    have zero: "first_config (map result [0..<n]) = Some cfg" if "seen result ?A 0 = Some cfg" for cfg
    proof -
      have "config_of (result 0) = Some cfg" using that by (simp add: seen_def split: if_splits)
      moreover have "[0..<n] = 0 # [1..<n]" using True by (simp add: upt_conv_Cons)
      ultimately show ?thesis by (simp add: first_config_Cons)
    qed
    show ?thesis
      using IH ins zero by (auto simp: scan_gap[OF True] Let_def split: option.splits)
  next
    case False
    then have "length arrivals = 0" using len unfolding length_append list.size by linarith
    then have nil: "arrivals = []" and n: "n = Suc (length pre)" using len by simp_all
    have "collect_priority result n (seen result ?A) n [] = first_config (map result [0..<n])"
      using IH n nil by simp
    then show ?thesis
      using ins n nil by (auto simp: Let_def split: option.splits)
  qed
qed

lemma getPriorityParallel_fst:
  assumes "distinct arrivals" and "set arrivals = {..<length srcs}"
  shows "fst (getPriorityParallel get srcs key arrivals) = fst (getPrioritySequential get srcs key)"
proof -
  let ?r = "\<lambda>i. fst (map (\<lambda>s. get s key) srcs ! i)"
  have e: "seen ?r (set []) = Map.empty" by (simp add: seen_def fun_eq_iff)
  have "collect_priority ?r (length srcs) Map.empty 0 arrivals = first_config (map ?r [0..<length srcs])"
    using collect_priority_first[of "[]" arrivals "length srcs" ?r] assms e by simp
  then show ?thesis
    using map_upt_nth[of fst "\<lambda>s. get s key" srcs] by (simp add: getPriorityParallel_def Let_def getPriority_fst)
qed

text \<open>
  C7: fetching in parallel changes no result. In whatever order the children answer, the
  parallel merge gives the configuration and the states of the sequential merge, and the
  parallel priority race gives the configuration of the sequential search: the one of the
  first source in the list that has one.
\<close>

theorem parallel_equals_sequential:
  assumes "distinct arrivals" and "set arrivals = {..<length srcs}"
  shows "getMerge get True srcs key arrivals = getMerge get False srcs key arrivals \<and>
    fst (getPriority get True srcs key arrivals) = fst (getPriority get False srcs key arrivals) \<and>
    fst (getPriority get False srcs key arrivals) = first_config (map (\<lambda>s. fst (get s key)) srcs)"
  using getMergeParallel_eq[OF assms(2)] getPriorityParallel_fst[OF assms] getPriority_fst
  by (simp add: getMerge_def getPriority_def)

theorem parallel_equals_sequential_witness:
  "let get = (\<lambda>s k. (if s then Inr (Some empty_config) else Inr None, s)) in
   fst (getPriority get True [False, True] ''k'' [1, 0]) = Some empty_config"
  using parallel_equals_sequential[where arrivals = "[1, 0]" and srcs = "[False, True]" and key = "''k''" and
      get = "\<lambda>s k. (if s then Inr (Some empty_config) else Inr None, s)"]
  by (auto simp: Let_def lessThan_Suc numeral_2_eq_2)

subsection \<open>What merging computes\<close>

fun last_nonempty :: "string list \<Rightarrow> string" where
  "last_nonempty [] = ''''"
| "last_nonempty (x # xs) = (if last_nonempty xs = [] then x else last_nonempty xs)"

lemma last_nonempty_snoc: "last_nonempty (xs @ [y]) = (if y = [] then last_nonempty xs else y)"
  by (induction xs) auto

definition last_some :: "'a option list \<Rightarrow> 'a option" where
  "last_some xs = foldl (\<lambda>a x. case x of Some b \<Rightarrow> Some b | None \<Rightarrow> a) None xs"

lemma map_of_update_fold: "map_of (foldl (\<lambda>md (k, v). AList.update k v md) m xs) = map_of m ++ map_of (rev xs)"
proof (induction xs arbitrary: m)
  case Nil
  then show ?case by simp
next
  case (Cons p xs)
  obtain k v where p: "p = (k, v)" by (cases p)
  show ?case
    using Cons.IH[of "AList.update k v m"]
    by (simp add: p update_conv' map_add_def fun_eq_iff map_of_append split: option.splits)
qed

definition merge_spec :: "RouteConfig list \<Rightarrow> RouteConfig \<Rightarrow> bool" where
  "merge_spec cs m \<longleftrightarrow>
     cRules m = concat (map cRules cs) \<and>
     cUpstream m = last_nonempty (map cUpstream cs) \<and>
     cFallback m = last_nonempty (map cFallback cs) \<and>
     cAlgorithm m = last_nonempty (map cAlgorithm cs) \<and>
     cAlgorithmKey m = last_nonempty (map cAlgorithmKey cs) \<and>
     cEnabled m = last_some (map cEnabled cs) \<and>
     cVersion m = Max (set (map cVersion cs)) \<and>
     map_of (cMetadata m) = foldl (++) Map.empty (map (map_of \<circ> cMetadata) cs)"

lemma merge_spec_single: "merge_spec [c] c"
  by (simp add: merge_spec_def last_some_def split: option.splits)

lemma map_of_rev: "distinct (map fst xs) \<Longrightarrow> map_of (rev xs) = map_of xs"
  by (rule map_of_inject_set[THEN iffD2]) (simp_all add: rev_map[symmetric])

lemma merge_spec_snoc:
  assumes "merge_spec cs m" and "cs \<noteq> []" and "maps_ok c"
  shows "merge_spec (cs @ [c]) (mergeConfig m c)"
proof -
  have "Max (insert (cVersion c) (set (map cVersion cs))) = max (cVersion c) (Max (set (map cVersion cs)))"
    using assms(2) by (intro Max_insert) auto
  moreover have "map_of (rev (cMetadata c)) = map_of (cMetadata c)"
    using assms(3) by (intro map_of_rev) (simp add: maps_ok_def)
  ultimately show ?thesis
    using assms(1)
    by (auto simp: merge_spec_def mergeConfig_def last_nonempty_snoc last_some_def map_of_update_fold max_def
        split: option.splits)
qed

lemma fold_merge_some:
  assumes "merge_spec cs m" and "cs \<noteq> []" and "\<forall>c. Some c \<in> set xs \<longrightarrow> maps_ok c"
  shows "\<exists>m'. foldl merge_into (Some m) xs = Some m' \<and> merge_spec (cs @ List.map_filter id xs) m'"
  using assms
proof (induction xs arbitrary: cs m)
  case Nil
  then show ?case by (simp add: map_filter_simps)
next
  case (Cons x xs)
  show ?case
  proof (cases x)
    case None
    then show ?thesis
      using Cons by (simp add: merge_into_def map_filter_simps)
  next
    case (Some c)
    have "merge_spec (cs @ [c]) (mergeConfig m c)"
      using merge_spec_snoc[OF Cons.prems(1,2)] Cons.prems(3) Some by simp
    from Cons.IH[OF this] Cons.prems(3) Some show ?thesis
      by (simp add: merge_into_def map_filter_simps)
  qed
qed

lemma fold_merge:
  assumes "\<forall>c. Some c \<in> set xs \<longrightarrow> maps_ok c"
  shows "case foldl merge_into None xs of
      None \<Rightarrow> List.map_filter id xs = []
    | Some m \<Rightarrow> List.map_filter id xs \<noteq> [] \<and> merge_spec (List.map_filter id xs) m"
  using assms
proof (induction xs)
  case Nil
  then show ?case by (simp add: map_filter_simps)
next
  case (Cons x xs)
  show ?case
  proof (cases x)
    case None
    then show ?thesis using Cons unfolding None by (simp add: merge_into_def map_filter_simps split: option.splits)
  next
    case (Some c)
    have "maps_ok c" using Cons.prems Some by simp
    then have "merge_into None x = Some c" using Some by (simp add: merge_into_def Clone_id)
    moreover obtain m where "foldl merge_into (Some c) xs = Some m" "merge_spec ([c] @ List.map_filter id xs) m"
      using fold_merge_some[OF merge_spec_single[of c], of xs] Cons.prems by auto
    ultimately show ?thesis using Some by (simp add: map_filter_simps)
  qed
qed



subsection \<open>Failover\<close>


text \<open>
  Failover answers nothing when every child is unhealthy, also for keys that the children
  have in their caches, and leaves the children as they are.
\<close>

theorem failover_ignores_unhealthy_caches:
  assumes "kMode c = ''failover''" and "\<not> kCacheResults c" and "\<forall>s \<in> set (kSources c). \<not> healthy s"
  shows "\<not> composite_Healthy healthy c \<and>
    composite_Get get healthy ts arrivals c key = (Inr None, c\<lparr>kLastError := ''''\<rparr>)"
proof -
  have "getFailover get healthy srcs key = (None, srcs)" if "\<forall>s \<in> set srcs. \<not> healthy s" for srcs
    using that by (induction srcs) auto
  then show ?thesis
    using assms by (auto simp: composite_Healthy_def list_ex_iff composite_Get_def)
qed

subsection \<open>The cache of combined results\<close>

text \<open>
  With \<open>CacheResults\<close>, a configuration once returned is returned again, without asking any
  child, until its time to live has passed.
\<close>

theorem composite_cache_serves:
  assumes "kCacheResults c" and "map_of (kCache c) key = None"
    and "composite_Get get healthy ts arrivals c key = (Inr (Some config), c')"
    and "ts' 0 < ts 1 + kCacheTTL c"
  shows "composite_Get get' healthy' ts' arrivals' c' key = (Inr (Some config), c')"
proof -
  have "kCacheResults c' \<and> map_of (kCache c') key = Some (Some config, ts 1 + kCacheTTL c)"
    using assms(1-3) by (auto simp: composite_Get_def Let_def update_conv' split: prod.splits)
  then show ?thesis
    using assms(4) by (simp add: composite_Get_def)
qed

text \<open>A child for the witnesses: its one configuration, if any, and its health.\<close>

definition demo_child_get :: "unit \<Rightarrow> RouteConfig option \<times> bool \<Rightarrow> string \<Rightarrow> RouteConfig option res \<times> (RouteConfig option \<times> bool)" where
  "demo_child_get e s k = (Inr (fst s), s)"

interpretation demo_child: data_source demo_child_get snd "\<lambda>_. True" "\<lambda>_ s _. fst s"
  by unfold_locales (auto simp: demo_child_get_def)

definition demo_composite :: "(RouteConfig option \<times> bool) list \<Rightarrow> bool \<Rightarrow> (RouteConfig option \<times> bool) CompositeSource" where
  "demo_composite srcs cr = \<lparr>kMode = ''failover'', kParallel = False, kTimeout = 5, kCacheResults = cr, kCacheTTL = 10,
     kSources = srcs, kCache = [], kLastError = '''', kAdminName = ''''\<rparr>"


theorem failover_ignores_unhealthy_caches_witness:
  "fst (composite_Get (demo_child_get ()) snd (\<lambda>_. 0) [] (demo_composite [(Some empty_config, False)] False) ''k'') = Inr None"
  using failover_ignores_unhealthy_caches[where c = "demo_composite [(Some empty_config, False)] False" and healthy = snd
      and get = "demo_child_get ()" and ts = "\<lambda>_. 0" and arrivals = "[]" and key = "''k''"]
  by (simp add: demo_composite_def)

theorem composite_cache_serves_witness:
  "fst (composite_Get (\<lambda>s k. (Inl ''down'', s)) snd (\<lambda>_. 5) []
     (snd (composite_Get (demo_child_get ()) snd (\<lambda>_. 0) [] (demo_composite [(Some empty_config, True)] True) ''k'')) ''k'') =
   Inr (Some empty_config)"
proof -
  let ?c = "demo_composite [(Some empty_config, True)] True"
  have g: "composite_Get (demo_child_get ()) snd (\<lambda>_. 0) [] ?c ''k'' =
      (Inr (Some empty_config), snd (composite_Get (demo_child_get ()) snd (\<lambda>_. 0) [] ?c ''k''))"
    by (simp add: composite_Get_def demo_composite_def demo_child_get_def)
  have "composite_Get (\<lambda>s k. (Inl ''down'', s)) snd (\<lambda>_. 5) []
      (snd (composite_Get (demo_child_get ()) snd (\<lambda>_. 0) [] ?c ''k'')) ''k'' =
    (Inr (Some empty_config), snd (composite_Get (demo_child_get ()) snd (\<lambda>_. 0) [] ?c ''k''))"
    by (rule composite_cache_serves[OF _ _ g]) (simp_all add: demo_composite_def)
  then show ?thesis by simp
qed

end
