(* ===== verification/Etcd.thy ===== *)
theory Etcd
  imports DataSource
begin

section \<open>The etcd source: datasource/etcd/etcd.go\<close>

text \<open>
  \<open>EtcdSource\<close>: provisioning with the initial load, lookups, the watch and its retry loop,
  validation and the admin methods. The etcd client and the file system are the fields of
  \<open>etcd_env\<close>; the answers of a watch channel are a list of messages, and a watch that has
  consumed the list without returning is still waiting (\<open>None\<close>).
\<close>

record 'c EtcdSource = "'c source" +
  eEndpoints :: "string list"
  ePrefix :: string
  eUsername :: string
  ePassword :: string
  eDialTimeout :: duration
  eRequestTimeout :: duration
  eInitialLoadTimeout :: duration
  eMaxCacheSize :: int
  eTLSEnabled :: bool
  eTLSCertFile :: string
  eTLSKeyFile :: string
  eTLSCAFile :: string
  eTLSSkipVerify :: bool

record tls_config =
  insecureSkipVerify :: bool
  certificate :: "(string \<times> string) option"
  rootCAs :: "string option"

record etcd_client_config =
  ccEndpoints :: "string list"
  ccDialTimeout :: duration
  ccUsername :: string
  ccPassword :: string
  ccTLS :: "tls_config option"

text \<open>
  \<open>load_pair\<close> is \<open>tls.LoadX509KeyPair\<close> (an error text or none), \<open>read_file\<close> is \<open>os.ReadFile\<close>,
  \<open>append_certs\<close> is \<open>AppendCertsFromPEM\<close>, \<open>client_error\<close> the error of \<open>clientv3.New\<close>, and
  \<open>list_prefix\<close> the answer of \<open>client.Get\<close> with \<open>WithPrefix\<close>.
\<close>

record etcd_env =
  load_pair :: "string \<Rightarrow> string \<Rightarrow> string option"
  read_file :: "string \<Rightarrow> string res"
  append_certs :: "string \<Rightarrow> bool"
  client_error :: "etcd_client_config \<Rightarrow> string option"
  list_prefix :: "string \<Rightarrow> (string \<times> string) list res"

definition etcd_AdminType :: string where
  "etcd_AdminType = ''etcd''"

definition etcd_buildTLSConfig :: "etcd_env \<Rightarrow> ('c, 'x) EtcdSource_scheme \<Rightarrow> tls_config res" where
  "etcd_buildTLSConfig env e =
     (let base = \<lparr>insecureSkipVerify = eTLSSkipVerify e, certificate = None, rootCAs = None\<rparr>;
          with_cert =
            (if eTLSCertFile e \<noteq> [] \<and> eTLSKeyFile e \<noteq> [] then
               (case load_pair env (eTLSCertFile e) (eTLSKeyFile e) of
                  Some err \<Rightarrow> Inl (''loading client certificate: '' @ err)
                | None \<Rightarrow> Inr (base\<lparr>certificate := Some (eTLSCertFile e, eTLSKeyFile e)\<rparr>))
             else Inr base)
      in case with_cert of
           Inl err \<Rightarrow> Inl err
         | Inr cfg \<Rightarrow>
             if eTLSCAFile e \<noteq> [] then
               (case read_file env (eTLSCAFile e) of
                  Inl err \<Rightarrow> Inl (''reading CA file: '' @ err)
                | Inr pem \<Rightarrow>
                    if \<not> append_certs env pem then Inl ''failed to parse CA certificate''
                    else Inr (cfg\<lparr>rootCAs := Some pem\<rparr>))
             else Inr cfg)"

definition etcd_initialLoad :: "'c route_lru \<Rightarrow> codec \<Rightarrow> etcd_env \<Rightarrow> ('c, 'x) EtcdSource_scheme \<Rightarrow>
    string option \<times> ('c, 'x) EtcdSource_scheme" where
  "etcd_initialLoad ops cd env e =
     (case list_prefix env (ePrefix e) of
        Inl err \<Rightarrow> (Some (''initial load failed: '' @ err), e)
      | Inr kvs \<Rightarrow> (None, foldl (\<lambda>e (k, v). store_value ops cd e k v) e kvs))"

definition etcd_defaults :: "('c, 'x) EtcdSource_scheme \<Rightarrow> ('c, 'x) EtcdSource_scheme" where
  "etcd_defaults e =
     e\<lparr>ePrefix := (if ePrefix e = [] then ''/caddy/routing/'' else ePrefix e),
       eDialTimeout := (if eDialTimeout e = 0 then 5000000000 else eDialTimeout e),
       eRequestTimeout := (if eRequestTimeout e = 0 then 2000000000 else eRequestTimeout e)\<rparr>"

definition etcd_Provision :: "'c route_lru \<Rightarrow> codec \<Rightarrow> etcd_env \<Rightarrow> 'd \<Rightarrow> 'd adminRegistry \<Rightarrow>
    ('c, 'x) EtcdSource_scheme \<Rightarrow> string option \<times> 'd adminRegistry \<times> ('c, 'x) EtcdSource_scheme" where
  "etcd_Provision ops cd env self g e0 =
     (let e = (etcd_defaults e0)\<lparr>src_cache := NewRouteCache ops (eMaxCacheSize e0)\<rparr>;
          tls = (if eTLSEnabled e then map_sum id Some (etcd_buildTLSConfig env e) else Inr None)
      in case tls of
           Inl err \<Rightarrow> (Some (''building TLS config: '' @ err), g, e)
         | Inr cfg \<Rightarrow>
             case client_error env \<lparr>ccEndpoints = eEndpoints e, ccDialTimeout = eDialTimeout e,
                    ccUsername = eUsername e, ccPassword = ePassword e, ccTLS = cfg\<rparr> of
               Some err \<Rightarrow> (Some (''creating etcd client: '' @ err), g, e)
             | None \<Rightarrow>
                 let (err, e1) = etcd_initialLoad ops cd env e;
                     e2 = (case err of
                             Some m \<Rightarrow> e1\<lparr>src_lastError := m, src_healthy := False\<rparr>
                           | None \<Rightarrow> e1\<lparr>src_healthy := True, src_lastError := ''''\<rparr>);
                     (name, g') = RegisterAdminSource g (Some self) etcd_AdminType ''''
                 in (None, g', e2\<lparr>src_adminName := name\<rparr>))"

definition etcd_Cleanup :: "'d adminRegistry \<Rightarrow> ('c, 'x) EtcdSource_scheme \<Rightarrow> 'd adminRegistry \<times> ('c, 'x) EtcdSource_scheme" where
  "etcd_Cleanup g e = (UnregisterAdminSource g (src_adminName e), e\<lparr>src_adminName := ''''\<rparr>)"

definition etcd_Get :: "'c route_lru \<Rightarrow> codec \<Rightarrow> (nat \<Rightarrow> time) \<Rightarrow> (string \<Rightarrow> fetched) \<Rightarrow>
    ('c, 'x) EtcdSource_scheme \<Rightarrow> string \<Rightarrow> RouteConfig option res \<times> ('c, 'x) EtcdSource_scheme" where
  "etcd_Get ops cd ts backend e key = look_and_fetch False ops cd ts backend e (ePrefix e @ key)"

definition etcd_Healthy :: "('c, 'x) EtcdSource_scheme \<Rightarrow> bool" where
  "etcd_Healthy e = src_healthy e"

definition etcd_AdminLastError :: "('c, 'x) EtcdSource_scheme \<Rightarrow> string" where
  "etcd_AdminLastError e = src_lastError e"

definition etcd_AdminListRoutes :: "'c route_lru \<Rightarrow> ('c, 'x) EtcdSource_scheme \<Rightarrow> AdminRouteInfo list" where
  "etcd_AdminListRoutes ops e =
     src_AdminListRoutes ops (\<lambda>k. if ePrefix e \<noteq> [] then TrimPrefix k (ePrefix e) else k) e"

definition etcd_AdminCacheStats :: "'c route_lru \<Rightarrow> ('c, 'x) EtcdSource_scheme \<Rightarrow> AdminCacheStats" where
  "etcd_AdminCacheStats ops e = src_AdminCacheStats ops e"

definition etcd_AdminClearCache :: "'c route_lru \<Rightarrow> ('c, 'x) EtcdSource_scheme \<Rightarrow> ('c, 'x) EtcdSource_scheme" where
  "etcd_AdminClearCache ops e = src_AdminClearCache ops e"

definition etcd_Validate :: "('c, 'x) EtcdSource_scheme \<Rightarrow> string option" where
  "etcd_Validate e =
     (if eEndpoints e = [] then Some ''at least one endpoint is required''
      else if eDialTimeout e < 0 then Some ''dial_timeout must be non-negative''
      else if eRequestTimeout e < 0 then Some ''request_timeout must be non-negative''
      else if eMaxCacheSize e < 0 then Some ''max_cache_size must be non-negative''
      else if eTLSEnabled e \<and>
        (eTLSCertFile e \<noteq> [] \<and> eTLSKeyFile e = [] \<or> eTLSCertFile e = [] \<and> eTLSKeyFile e \<noteq> [])
      then Some ''both tls_cert_file and tls_key_file must be provided together''
      else None)"

subsection \<open>The watch\<close>

datatype etcd_event = EventPut string string | EventDelete string

datatype watch_msg = CtxDone string | ChannelClosed | RespErr string | Events "etcd_event list"

fun etcd_apply :: "'c route_lru \<Rightarrow> codec \<Rightarrow> ('c, 'x) EtcdSource_scheme \<Rightarrow> etcd_event \<Rightarrow> ('c, 'x) EtcdSource_scheme" where
  "etcd_apply ops cd e (EventPut key val) = store_value ops cd e key val"
| "etcd_apply ops cd e (EventDelete key) = e\<lparr>src_cache := rc_Delete ops (src_cache e) key\<rparr>"

fun etcd_watch_msgs :: "'c route_lru \<Rightarrow> codec \<Rightarrow> ('c, 'x) EtcdSource_scheme \<Rightarrow> watch_msg list \<Rightarrow>
    string option \<times> ('c, 'x) EtcdSource_scheme" where
  "etcd_watch_msgs ops cd e [] = (None, e)"
| "etcd_watch_msgs ops cd e (CtxDone err # _) = (Some err, e)"
| "etcd_watch_msgs ops cd e (ChannelClosed # _) = (Some ''watch channel closed'', e)"
| "etcd_watch_msgs ops cd e (RespErr err # _) = (Some err, e)"
| "etcd_watch_msgs ops cd e (Events evs # msgs) = etcd_watch_msgs ops cd (foldl (etcd_apply ops cd) e evs) msgs"

definition etcd_watch :: "'c route_lru \<Rightarrow> codec \<Rightarrow> ('c, 'x) EtcdSource_scheme \<Rightarrow> watch_msg list \<Rightarrow>
    string option \<times> ('c, 'x) EtcdSource_scheme" where
  "etcd_watch ops cd e msgs = etcd_watch_msgs ops cd (e\<lparr>src_healthy := True\<rparr>) msgs"

text \<open>
  \<open>watchLoop\<close>: one watch per element of the list of message sequences, until a watch returns
  with the context cancelled (\<open>done\<close>); the sleeps are recorded.
\<close>

fun etcd_watchLoop :: "'c route_lru \<Rightarrow> codec \<Rightarrow> duration \<Rightarrow> ('c, 'x) EtcdSource_scheme \<Rightarrow>
    (watch_msg list \<times> bool) list \<Rightarrow> duration list \<times> ('c, 'x) EtcdSource_scheme" where
  "etcd_watchLoop ops cd backoff e [] = ([], e)"
| "etcd_watchLoop ops cd backoff e ((msgs, ctxDone) # rest) =
     (let (err, e1) = etcd_watch ops cd e msgs in
      if err \<noteq> None \<and> ctxDone then ([], e1)
      else let (slept, backoff', e2) = watch_turn backoff err e1;
               (ds, e3) = etcd_watchLoop ops cd backoff' e2 rest
           in ((case slept of Some d \<Rightarrow> d # ds | None \<Rightarrow> ds), e3))"

subsection \<open>The source implements the interface\<close>

lemma etcd_full: "source.more s' = source.more s \<Longrightarrow> (\<lambda>k. ePrefix s' @ k) = (\<lambda>k. ePrefix s @ k)"
  for s s' :: "('c, 'x) EtcdSource_scheme"
  by (cases s; cases s') auto

lemma etcd_data_source:
  assumes "route_lru ops cap ok"
  shows "data_source (\<lambda>(ts, backend) s k. etcd_Get ops cd ts backend s k) etcd_Healthy (src_inv cap ok)
    (\<lambda>(ts, backend) s k. src_view ops (ts 0) s (ePrefix s @ k))"
  using route_lru.look_data_source[OF assms, where full = "\<lambda>s k. ePrefix s @ k" and chk = False and cd = cd]
  unfolding etcd_Get_def etcd_Healthy_def using etcd_full by blast

interpretation list_etcd: data_source
  "\<lambda>(ts, backend) s k. etcd_Get list_lru_ops cd ts backend s k" etcd_Healthy "src_inv ll_cap ll_ok"
  "\<lambda>(ts, backend) s k. src_view list_lru_ops (ts 0) s (ePrefix s @ k)" for cd
  by (rule etcd_data_source[OF list_rc.route_lru_axioms])

subsection \<open>Properties of the etcd source\<close>

text \<open>
  A history of the source: events delivered by the watch, lookups, and clears from the Admin
  API. The store of etcd changes with each event (\<open>etcd_store\<close>); a lookup reads it.
\<close>

datatype etcd_act = ActEvent etcd_event | ActGet "nat \<Rightarrow> time" string | ActClear

fun etcd_store :: "(string \<rightharpoonup> string) \<Rightarrow> etcd_act \<Rightarrow> (string \<rightharpoonup> string)" where
  "etcd_store m (ActEvent (EventPut k v)) = m(k \<mapsto> v)"
| "etcd_store m (ActEvent (EventDelete k)) = m(k := None)"
| "etcd_store m _ = m"

fun etcd_do :: "'c route_lru \<Rightarrow> codec \<Rightarrow> (string \<rightharpoonup> string) \<Rightarrow> ('c, 'x) EtcdSource_scheme \<Rightarrow> etcd_act \<Rightarrow>
    ('c, 'x) EtcdSource_scheme" where
  "etcd_do ops cd m e (ActEvent ev) = etcd_apply ops cd e ev"
| "etcd_do ops cd m e (ActGet ts k) = snd (etcd_Get ops cd ts (backend_of m) e k)"
| "etcd_do ops cd m e ActClear = etcd_AdminClearCache ops e"

fun etcd_history :: "'c route_lru \<Rightarrow> codec \<Rightarrow> (string \<rightharpoonup> string) \<Rightarrow> ('c, 'x) EtcdSource_scheme \<Rightarrow> etcd_act list \<Rightarrow>
    (string \<rightharpoonup> string) \<times> ('c, 'x) EtcdSource_scheme" where
  "etcd_history ops cd m e [] = (m, e)"
| "etcd_history ops cd m e (a # as) = etcd_history ops cd (etcd_store m a) (etcd_do ops cd m e a) as"

fun act_parses :: "codec \<Rightarrow> etcd_act \<Rightarrow> bool" where
  "act_parses cd (ActEvent (EventPut k v)) = (case ParseRouteConfig cd v of Inr (Some c) \<Rightarrow> True | _ \<Rightarrow> False)"
| "act_parses cd _ = True"

lemma etcd_act_coherent:
  assumes "route_lru ops cap ok" and "src_inv cap ok e" and "coherent ops cd m e" and "act_parses cd a"
  shows "src_inv cap ok (etcd_do ops cd m e a) \<and> coherent ops cd (etcd_store m a) (etcd_do ops cd m e a)"
proof (cases a)
  case (ActEvent ev)
  show ?thesis
  proof (cases ev)
    case (EventPut k v)
    then obtain c where "ParseRouteConfig cd v = Inr (Some c)"
      using assms(4) ActEvent by (auto split: sum.splits option.splits)
    then show ?thesis
      using ActEvent EventPut route_lru.coherent_store[OF assms(1-3)] route_lru.store_props[OF assms(1,2)] by simp
  next
    case (EventDelete k)
    then show ?thesis
      using ActEvent route_lru.coherent_Delete[OF assms(1-3)] route_lru.rc_inv_Delete[OF assms(1)] assms(2)
      by (simp add: src_inv_def)
  qed
next
  case (ActGet ts k)
  obtain r e' where g: "look_and_fetch False ops cd ts (backend_of m) e (ePrefix e @ k) = (r, e')" by fastforce
  show ?thesis
    using ActGet g route_lru.look_coherent[OF assms(1-3) g] route_lru.look_props[OF assms(1,2) g]
    by (simp add: etcd_Get_def)
next
  case ActClear
  have "lru_peek ops (lru_purge ops (rc_cache (src_cache e))) k = None" for k
    by (rule lru.purge_peek[OF route_lru.axioms[OF assms(1)] route_lru.src_inv_ok[OF assms(1,2)]])
  then show ?thesis
    using ActClear route_lru.rc_inv_Clear[OF assms(1)] assms(2)
    by (simp add: etcd_AdminClearCache_def src_AdminClearCache_def src_inv_def coherent_def rc_Clear_def)
qed

lemma etcd_history_coherent:
  assumes "route_lru ops cap ok" and "src_inv cap ok e" and "coherent ops cd m e" and "\<forall>a \<in> set as. act_parses cd a"
    and "etcd_history ops cd m e as = (m', e')"
  shows "src_inv cap ok e' \<and> coherent ops cd m' e'"
  using assms(2-5)
proof (induction as arbitrary: m e)
  case Nil
  then show ?case by simp
next
  case (Cons a as)
  have step: "src_inv cap ok (etcd_do ops cd m e a) \<and> coherent ops cd (etcd_store m a) (etcd_do ops cd m e a)"
    by (rule etcd_act_coherent[OF assms(1) Cons.prems(1,2)]) (use Cons.prems(3) in simp)
  show ?case
    by (rule Cons.IH[OF conjunct1[OF step] conjunct2[OF step]]) (use Cons.prems in simp_all)
qed


definition demo_etcd :: "RouteConfig option list_lru EtcdSource" where
  "demo_etcd = \<lparr>src_cache = NewRouteCache list_lru_ops 2, src_healthy = True, src_lastError = '''',
     src_adminName = '''', src_parseErrors = 0, eEndpoints = [''e''], ePrefix = ''p/'', eUsername = '''', ePassword = '''', eDialTimeout = 0,
     eRequestTimeout = 0, eInitialLoadTimeout = 0, eMaxCacheSize = 2, eTLSEnabled = False, eTLSCertFile = '''',
     eTLSKeyFile = '''', eTLSCAFile = '''', eTLSSkipVerify = False\<rparr>"

lemma demo_etcd_inv: "src_inv ll_cap ll_ok demo_etcd" "coherent list_lru_ops cd Map.empty demo_etcd"
proof -
  show "src_inv ll_cap ll_ok demo_etcd" by (simp add: src_inv_def demo_etcd_def list_rc.rc_inv_new)
  show "coherent list_lru_ops cd Map.empty demo_etcd"
    using list_rc.coherent_new[where s = demo_etcd and m = Map.empty and n = 2] by (simp add: demo_etcd_def)
qed

lemma demo_etcd_run:
  "etcd_history list_lru_ops null_codec Map.empty demo_etcd [ActEvent (EventPut ''p/k'' ''up:80'')] =
     ([''p/k'' \<mapsto> ''up:80''], etcd_apply list_lru_ops null_codec demo_etcd (EventPut ''p/k'' ''up:80''))"
  by simp

lemma parse_demo: "ParseRouteConfig null_codec ''up:80'' = Inr (Some (empty_config\<lparr>cUpstream := ''up:80''\<rparr>))"
  by code_simp

lemma demo_etcd_get:
  "fst (etcd_Get list_lru_ops null_codec (\<lambda>_. 5) (backend_of [''p/k'' \<mapsto> ''up:80''])
     (etcd_apply list_lru_ops null_codec demo_etcd (EventPut ''p/k'' ''up:80'')) ''k'') =
   Inr (Some (empty_config\<lparr>cUpstream := ''up:80''\<rparr>))"
  by code_simp


definition watch_fails :: "watch_msg list \<Rightarrow> bool" where
  "watch_fails msgs \<longleftrightarrow> (\<exists>m \<in> set msgs. case m of Events evs \<Rightarrow> False | _ \<Rightarrow> True)"

lemma etcd_watch_msgs_fails: "watch_fails msgs \<Longrightarrow> \<exists>err. fst (etcd_watch_msgs ops cd e msgs) = Some err"
  by (induction ops cd e msgs rule: etcd_watch_msgs.induct) (auto simp: watch_fails_def)

text \<open>
  The retry loop backs off and never recovers its pace. However the watches of a run of
  the loop end, each with an error as a watch does, the \<open>i\<close>-th sleep is \<open>2^i\<close> seconds up to one
  minute, also when watches in between had been delivering events.
\<close>

theorem etcd_retry_backoff:
  assumes "\<forall>(msgs, ctxDone) \<in> set runs. watch_fails msgs \<and> \<not> ctxDone"
  shows "fst (etcd_watchLoop ops cd initialBackoff e runs) =
    map (\<lambda>i. min maxBackoff (initialBackoff * 2 ^ i)) [0..<length runs]"
proof -
  have "\<exists>errs. length errs = length runs \<and>
      fst (etcd_watchLoop ops cd backoff e runs) = watch_sleeps backoff (map Some errs) (e0 :: 'a source)" for backoff e0
    using assms
  proof (induction runs arbitrary: backoff e e0)
    case Nil
    then show ?case by simp
  next
    case (Cons run runs)
    obtain msgs where run: "run = (msgs, False)" "watch_fails msgs" using Cons.prems by (cases run) auto
    obtain err e1 where w: "etcd_watch ops cd e msgs = (Some err, e1)"
      using etcd_watch_msgs_fails[OF run(2)] by (metis etcd_watch_def prod.collapse)
    obtain b where b: "watch_turn backoff (Some err) e1 = (Some backoff, b, e1\<lparr>src_healthy := False\<rparr>)"
      and b0: "watch_turn backoff (Some err) e0 = (Some backoff, b, e0\<lparr>src_healthy := False\<rparr>)"
      by (simp add: watch_turn_def Let_def)
    obtain errs where "length errs = length runs"
      "fst (etcd_watchLoop ops cd b (e1\<lparr>src_healthy := False\<rparr>) runs) =
        watch_sleeps b (map Some errs) (e0\<lparr>src_healthy := False\<rparr>)"
      using Cons.IH[where e = "e1\<lparr>src_healthy := False\<rparr>" and backoff = b and ?e0.0 = "e0\<lparr>src_healthy := False\<rparr>"]
        Cons.prems by auto
    then show ?case
      using run w b b0 by (intro exI[of _ "err # errs"]) (auto split: prod.splits)
  qed
  then obtain errs where "length errs = length runs" "fst (etcd_watchLoop ops cd initialBackoff e runs) =
      watch_sleeps initialBackoff (map Some errs) (undefined :: 'a source)" by blast
  moreover have "initialBackoff = min maxBackoff (initialBackoff * 2 ^ 0)"
    by (simp add: initialBackoff_def maxBackoff_def)
  ultimately show ?thesis using watch_sleeps_errors[of initialBackoff 0 errs] by simp
qed

theorem etcd_retry_backoff_witness:
  "fst (etcd_watchLoop list_lru_ops null_codec initialBackoff demo_etcd
     [([ChannelClosed], False), ([Events [], ChannelClosed], False)]) = [1000000000, 2000000000]"
  using etcd_retry_backoff[of "[([ChannelClosed], False), ([Events [], ChannelClosed], False)]"
      list_lru_ops null_codec demo_etcd]
  by (simp add: watch_fails_def initialBackoff_def maxBackoff_def del: etcd_watchLoop.simps)

text \<open>
  The negative cache of the etcd source saves no request. While a negative entry for the
  key is live, a lookup on a healthy source still asks etcd, and its answer decides the result.
\<close>

theorem etcd_negative_entry_ignored:
  assumes "route_lru ops cap ok" and "src_inv cap ok e" and "src_healthy e"
    and "\<forall>n. ts n \<le> t" and "neg_live t (src_cache e) (ePrefix e @ key)"
    and "ParseRouteConfig cd v = Inr (Some config)" and "backend (ePrefix e @ key) = Value v"
  shows "fst (etcd_Get ops cd ts backend e key) = Inr (Some config)"
proof -
  let ?k = "ePrefix e @ key"
  have live: "neg_live (ts n) (src_cache e) ?k" for n
    using neg_live_mono[OF _ assms(5)] assms(4) by blast
  obtain x where x: "rc_negative (src_cache e) ?k = Some x" "ts 0 < x" "ts 2 < x"
    using live[of 0] live[of 2] by (auto simp: neg_live_def split: option.splits)
  show ?thesis
    using x assms(3,6,7) by (simp add: etcd_Get_def look_and_fetch_def fetch_and_cache_def rc_Get_def)
qed

theorem etcd_negative_entry_ignored_witness:
  "fst (etcd_Get list_lru_ops null_codec (\<lambda>_. 6) (\<lambda>_. Value ''up:80'')
     (demo_etcd\<lparr>src_cache := rc_SetNegative 5 (src_cache demo_etcd) ''p/k''\<rparr>) ''k'') =
   Inr (Some (empty_config\<lparr>cUpstream := ''up:80''\<rparr>))"
  by (rule etcd_negative_entry_ignored[OF list_rc.route_lru_axioms, where t = 6 and v = "''up:80''"])
    (use list_rc.rc_inv_SetNegative demo_etcd_inv(1) in
      \<open>simp_all add: src_inv_def demo_etcd_def parse_demo neg_live_def rc_SetNegative_def rc_inv_def
        NewRouteCache_def DefaultNegativeTTL_def Let_def\<close>)

end
