(* ===== verification/Redis.thy ===== *)
theory Redis
  imports DataSource
begin

section \<open>The Redis source: datasource/redis/redis.go\<close>

text \<open>
  \<open>RedisSource\<close>: provisioning with the initial scan, lookups, the subscription and its
  messages, validation and the admin methods. The answers of \<open>SCAN\<close>, each with that of the
  \<open>MGET\<close> which follows it, are a list; a scan that has consumed it without a zero cursor has
  not returned (\<open>None\<close>). Slicing the channel name of a keyspace message past its end panics:
  \<open>handleMessage\<close> returns \<open>None\<close> then. The pool statistics are in the theory of the metrics.
\<close>

record SentinelConfig =
  sMasterName :: string
  sSentinelAddresses :: "string list"
  sSentinelPassword :: string

record 'c RedisSource = "'c source" +
  rAddresses :: "string list"
  rPassword :: string
  rDB :: int
  rPrefix :: string
  rDialTimeout :: duration
  rReadTimeout :: duration
  rCluster :: bool
  rSentinel :: "SentinelConfig option"
  rTLSEnabled :: bool
  rTLSSkipVerify :: bool
  rPubSubChannel :: string
  rKeyspaceNotify :: bool
  rMaxCacheSize :: int
  rInitialLoadTimeout :: duration

text \<open>
  \<open>MGET\<close> answers an error, or for each key no value, a string, or a value of another type.
\<close>

datatype mget_val = NilVal | StrVal string | OtherVal

record scan_page =
  pg_keys :: "string list"
  pg_next :: uint64
  pg_mget :: "mget_val list res"

definition redis_AdminType :: string where
  "redis_AdminType = ''redis''"

text \<open>
  Which client \<open>createClient\<close> builds, with the options that distinguish the modes; the pool
  and time-out options are passed on unchanged in every mode.
\<close>

datatype redis_client =
    FailoverClient string "string list" string string int "bool option"
  | ClusterClient "string list" string "bool option"
  | StandaloneClient string string int "bool option"

definition redis_createClient :: "('c, 'x) RedisSource_scheme \<Rightarrow> redis_client" where
  "redis_createClient r =
     (let tls = (if rTLSEnabled r then Some (rTLSSkipVerify r) else None);
          standalone =
            (if rCluster r then ClusterClient (rAddresses r) (rPassword r) tls
             else StandaloneClient (case rAddresses r of a # _ \<Rightarrow> a | [] \<Rightarrow> ''localhost:6379'') (rPassword r) (rDB r) tls)
      in case rSentinel r of
           Some s \<Rightarrow>
             if sMasterName s \<noteq> [] then
               FailoverClient (sMasterName s) (sSentinelAddresses s) (sSentinelPassword s) (rPassword r) (rDB r) tls
             else standalone
         | None \<Rightarrow> standalone)"

fun redis_load_vals :: "'c route_lru \<Rightarrow> codec \<Rightarrow> ('c, 'x) RedisSource_scheme \<Rightarrow> string list \<Rightarrow> mget_val list \<Rightarrow>
    ('c, 'x) RedisSource_scheme" where
  "redis_load_vals ops cd r (k # ks) (StrVal v # vs) = redis_load_vals ops cd (store_value ops cd r k v) ks vs"
| "redis_load_vals ops cd r (k # ks) (_ # vs) = redis_load_vals ops cd r ks vs"
| "redis_load_vals ops cd r _ _ = r"

fun redis_scan :: "'c route_lru \<Rightarrow> codec \<Rightarrow> ('c, 'x) RedisSource_scheme \<Rightarrow> scan_page res list \<Rightarrow>
    (string option \<times> ('c, 'x) RedisSource_scheme) option" where
  "redis_scan ops cd r [] = None"
| "redis_scan ops cd r (Inl err # pages) = Some (Some (''redis scan failed: '' @ err), r)"
| "redis_scan ops cd r (Inr page # pages) =
     (let r1 = (if pg_keys page \<noteq> [] then
                  (case pg_mget page of
                     Inl err \<Rightarrow> r
                   | Inr vals \<Rightarrow> redis_load_vals ops cd r (pg_keys page) vals)
                else r)
      in if pg_next page = 0 then Some (None, r1) else redis_scan ops cd r1 pages)"

definition redis_initialLoad :: "'c route_lru \<Rightarrow> codec \<Rightarrow> string option \<Rightarrow> scan_page res list \<Rightarrow>
    ('c, 'x) RedisSource_scheme \<Rightarrow> (string option \<times> ('c, 'x) RedisSource_scheme) option" where
  "redis_initialLoad ops cd ping pages r =
     (case ping of
        Some err \<Rightarrow> Some (Some (''redis ping failed: '' @ err), r)
      | None \<Rightarrow> redis_scan ops cd r pages)"

definition redis_defaults :: "('c, 'x) RedisSource_scheme \<Rightarrow> ('c, 'x) RedisSource_scheme" where
  "redis_defaults r =
     r\<lparr>rPrefix := (if rPrefix r = [] then ''caddy:routing:'' else rPrefix r),
       rDialTimeout := (if rDialTimeout r = 0 then 5000000000 else rDialTimeout r),
       rReadTimeout := (if rReadTimeout r = 0 then 2000000000 else rReadTimeout r),
       rPubSubChannel := (if rPubSubChannel r = [] then ''caddy:routing:updates'' else rPubSubChannel r)\<rparr>"

definition redis_Provision :: "'c route_lru \<Rightarrow> codec \<Rightarrow> string option \<Rightarrow> scan_page res list \<Rightarrow> 'd \<Rightarrow> 'd adminRegistry \<Rightarrow>
    ('c, 'x) RedisSource_scheme \<Rightarrow> ('d adminRegistry \<times> ('c, 'x) RedisSource_scheme) option" where
  "redis_Provision ops cd ping pages self g r0 =
     (let r = (redis_defaults r0)\<lparr>src_cache := NewRouteCache ops (rMaxCacheSize r0)\<rparr> in
      case redis_initialLoad ops cd ping pages r of
        None \<Rightarrow> None
      | Some (err, r1) \<Rightarrow>
          let r2 = (case err of
                      Some m \<Rightarrow> r1\<lparr>src_lastError := m, src_healthy := False\<rparr>
                    | None \<Rightarrow> r1\<lparr>src_healthy := True, src_lastError := ''''\<rparr>);
              (name, g') = RegisterAdminSource g (Some self) redis_AdminType ''''
          in Some (g', r2\<lparr>src_adminName := name\<rparr>))"

definition redis_Cleanup :: "'d adminRegistry \<Rightarrow> ('c, 'x) RedisSource_scheme \<Rightarrow> 'd adminRegistry \<times> ('c, 'x) RedisSource_scheme" where
  "redis_Cleanup g r = (UnregisterAdminSource g (src_adminName r), r\<lparr>src_adminName := ''''\<rparr>)"

definition redis_Get :: "'c route_lru \<Rightarrow> codec \<Rightarrow> (nat \<Rightarrow> time) \<Rightarrow> (string \<Rightarrow> fetched) \<Rightarrow>
    ('c, 'x) RedisSource_scheme \<Rightarrow> string \<Rightarrow> RouteConfig option res \<times> ('c, 'x) RedisSource_scheme" where
  "redis_Get ops cd ts backend r key = look_and_fetch True ops cd ts backend r (rPrefix r @ key)"

definition redis_Healthy :: "('c, 'x) RedisSource_scheme \<Rightarrow> bool" where
  "redis_Healthy r = src_healthy r"

definition redis_AdminLastError :: "('c, 'x) RedisSource_scheme \<Rightarrow> string" where
  "redis_AdminLastError r = src_lastError r"

definition redis_AdminListRoutes :: "'c route_lru \<Rightarrow> ('c, 'x) RedisSource_scheme \<Rightarrow> AdminRouteInfo list" where
  "redis_AdminListRoutes ops r = src_AdminListRoutes ops (\<lambda>k. TrimPrefix k (rPrefix r)) r"

definition redis_AdminCacheStats :: "'c route_lru \<Rightarrow> ('c, 'x) RedisSource_scheme \<Rightarrow> AdminCacheStats" where
  "redis_AdminCacheStats ops r = src_AdminCacheStats ops r"

definition redis_AdminClearCache :: "'c route_lru \<Rightarrow> ('c, 'x) RedisSource_scheme \<Rightarrow> ('c, 'x) RedisSource_scheme" where
  "redis_AdminClearCache ops r = src_AdminClearCache ops r"

definition redis_Validate :: "('c, 'x) RedisSource_scheme \<Rightarrow> string option" where
  "redis_Validate r =
     (if rAddresses r = [] \<and> rSentinel r = None
      then Some ''at least one address is required (or use sentinel configuration)''
      else if rDB r < 0 \<or> 15 < rDB r then Some ''db must be between 0 and 15''
      else if rDialTimeout r < 0 then Some ''dial_timeout must be non-negative''
      else if rReadTimeout r < 0 then Some ''read_timeout must be non-negative''
      else if rCluster r \<and> rDB r \<noteq> 0 then Some ''db selection is not supported in cluster mode''
      else case rSentinel r of
        Some s \<Rightarrow>
          if sMasterName s = [] then Some ''sentinel master_name is required''
          else if sSentinelAddresses s = [] then Some ''at least one sentinel address is required''
          else None
      | None \<Rightarrow> None)"

subsection \<open>Updates\<close>

definition redis_refreshKey :: "'c route_lru \<Rightarrow> codec \<Rightarrow> (string \<Rightarrow> fetched) \<Rightarrow> ('c, 'x) RedisSource_scheme \<Rightarrow> string \<Rightarrow>
    ('c, 'x) RedisSource_scheme" where
  "redis_refreshKey ops cd backend r key =
     (case backend key of
        Missing \<Rightarrow> r\<lparr>src_cache := rc_Delete ops (src_cache r) key\<rparr>
      | FetchError e \<Rightarrow> r
      | Value v \<Rightarrow> store_value ops cd r key v)"

definition redis_db :: "('c, 'x) RedisSource_scheme \<Rightarrow> int" where
  "redis_db r = (if rCluster r then 0 else rDB r)"

definition keyspace_channel :: "int \<Rightarrow> string" where
  "keyspace_channel db = ''__keyspace@'' @ itoa db @ ''__:''"

record redis_msg =
  mChannel :: string
  mPayload :: string

definition redis_handleMessage :: "'c route_lru \<Rightarrow> codec \<Rightarrow> (string \<Rightarrow> fetched) \<Rightarrow> ('c, 'x) RedisSource_scheme \<Rightarrow>
    redis_msg \<Rightarrow> ('c, 'x) RedisSource_scheme option" where
  "redis_handleMessage ops cd backend r msg =
     (if rKeyspaceNotify r then
        (let n = length (keyspace_channel (redis_db r)) in
         if length (mChannel msg) < n then None
         else let key = drop n (mChannel msg) in
           if mPayload msg = ''set'' \<or> mPayload msg = ''hset'' then Some (redis_refreshKey ops cd backend r key)
           else if mPayload msg = ''del'' \<or> mPayload msg = ''expired''
           then Some (r\<lparr>src_cache := rc_Delete ops (src_cache r) key\<rparr>)
           else Some r)
      else case CutPrefix (mPayload msg) ''update:'' of
        Some key \<Rightarrow> Some (redis_refreshKey ops cd backend r key)
      | None \<Rightarrow>
          case CutPrefix (mPayload msg) ''delete:'' of
            Some key \<Rightarrow> Some (r\<lparr>src_cache := rc_Delete ops (src_cache r) key\<rparr>)
          | None \<Rightarrow> Some r)"

text \<open>
  \<open>subscribe\<close>: what it subscribes to, and the loop over the messages of the channel, each with
  the backend at its time, until the context ends or the channel closes. The outer \<open>None\<close> is a
  panic, the error \<open>None\<close> a subscription still open.
\<close>

datatype redis_sub = PSubscribe string | Subscribe string

definition redis_subscription :: "('c, 'x) RedisSource_scheme \<Rightarrow> redis_sub" where
  "redis_subscription r =
     (if rKeyspaceNotify r then PSubscribe (keyspace_channel (redis_db r) @ rPrefix r @ ''*'')
      else Subscribe (rPubSubChannel r))"

datatype sub_msg = SubCtxDone string | SubClosed | SubMessage "string \<Rightarrow> fetched" redis_msg

fun redis_messages :: "'c route_lru \<Rightarrow> codec \<Rightarrow> ('c, 'x) RedisSource_scheme \<Rightarrow> sub_msg list \<Rightarrow>
    (string option \<times> ('c, 'x) RedisSource_scheme) option" where
  "redis_messages ops cd r [] = Some (None, r)"
| "redis_messages ops cd r (SubCtxDone err # _) = Some (Some err, r)"
| "redis_messages ops cd r (SubClosed # _) = Some (Some ''subscription channel closed'', r)"
| "redis_messages ops cd r (SubMessage backend msg # msgs) =
     (case redis_handleMessage ops cd backend r msg of
        None \<Rightarrow> None
      | Some r' \<Rightarrow> redis_messages ops cd r' msgs)"

definition redis_subscribe :: "'c route_lru \<Rightarrow> codec \<Rightarrow> ('c, 'x) RedisSource_scheme \<Rightarrow> string option \<Rightarrow> sub_msg list \<Rightarrow>
    (string option \<times> ('c, 'x) RedisSource_scheme) option" where
  "redis_subscribe ops cd r confirm msgs =
     (case confirm of
        Some err \<Rightarrow> Some (Some (''subscription failed: '' @ err), r)
      | None \<Rightarrow> redis_messages ops cd (r\<lparr>src_healthy := True\<rparr>) msgs)"

fun redis_subscribeLoop :: "'c route_lru \<Rightarrow> codec \<Rightarrow> duration \<Rightarrow> ('c, 'x) RedisSource_scheme \<Rightarrow>
    (string option \<times> sub_msg list \<times> bool) list \<Rightarrow> (duration list \<times> ('c, 'x) RedisSource_scheme) option" where
  "redis_subscribeLoop ops cd backoff r [] = Some ([], r)"
| "redis_subscribeLoop ops cd backoff r ((confirm, msgs, ctxDone) # rest) =
     (case redis_subscribe ops cd r confirm msgs of
        None \<Rightarrow> None
      | Some (err, r1) \<Rightarrow>
          if err \<noteq> None \<and> ctxDone then Some ([], r1)
          else case watch_turn backoff err r1 of
            (slept, backoff', r2) \<Rightarrow>
              map_option (\<lambda>(ds, r3). ((case slept of Some d \<Rightarrow> d # ds | None \<Rightarrow> ds), r3))
                (redis_subscribeLoop ops cd backoff' r2 rest))"

subsection \<open>The source implements the interface\<close>

lemma redis_full: "source.more s' = source.more s \<Longrightarrow> (\<lambda>k. rPrefix s' @ k) = (\<lambda>k. rPrefix s @ k)"
  for s s' :: "('c, 'x) RedisSource_scheme"
  by (cases s; cases s') auto

lemma redis_data_source:
  assumes "route_lru ops cap ok"
  shows "data_source (\<lambda>(ts, backend) s k. redis_Get ops cd ts backend s k) redis_Healthy (src_inv cap ok)
    (\<lambda>(ts, backend) s k. src_view ops (ts 0) s (rPrefix s @ k))"
  using route_lru.look_data_source[OF assms, where full = "\<lambda>s k. rPrefix s @ k" and chk = True and cd = cd]
  unfolding redis_Get_def redis_Healthy_def using redis_full by blast

interpretation list_redis: data_source
  "\<lambda>(ts, backend) s k. redis_Get list_lru_ops cd ts backend s k" redis_Healthy "src_inv ll_cap ll_ok"
  "\<lambda>(ts, backend) s k. src_view list_lru_ops (ts 0) s (rPrefix s @ k)" for cd
  by (rule redis_data_source[OF list_rc.route_lru_axioms])

subsection \<open>Properties of the Redis source\<close>


definition demo_redis :: "RouteConfig option list_lru RedisSource" where
  "demo_redis = \<lparr>src_cache = NewRouteCache list_lru_ops 2, src_healthy = True, src_lastError = '''',
     src_adminName = '''', src_parseErrors = 0, rAddresses = [''a''], rPassword = '''', rDB = 3,
     rPrefix = ''p:'', rDialTimeout = 0, rReadTimeout = 0, rCluster = False, rSentinel = None,
     rTLSEnabled = False, rTLSSkipVerify = False, rPubSubChannel = ''u'', rKeyspaceNotify = True,
     rMaxCacheSize = 2, rInitialLoadTimeout = 0\<rparr>"


text \<open>
  A message brings the cache up to date. After a refresh of a key whose value parses, the
  cached configuration of the key is that of the backend; after a refresh of a missing key, or
  a deletion, the key is not cached; a coherent cache stays coherent either way.
\<close>

theorem redis_refresh_coherent:
  assumes "route_lru ops cap ok" and "src_inv cap ok r"
    and "coherent ops cd (m(key := old)) r"
    and "\<forall>v. m key = Some v \<longrightarrow> (\<exists>c. ParseRouteConfig cd v = Inr (Some c))"
    and "r' = redis_refreshKey ops cd (backend_of m) r key"
  shows "src_inv cap ok r' \<and> coherent ops cd m r' \<and>
    (case m key of None \<Rightarrow> src_view ops now r' key = None
     | Some v \<Rightarrow> ParseRouteConfig cd v = Inr (src_view ops now r' key))"
proof (cases "m key")
  case None
  have "coherent ops cd m (r\<lparr>src_cache := rc_Delete ops (src_cache r) key\<rparr>)"
    using route_lru.coherent_Delete[OF assms(1-3), of key] None by (simp add: fun_upd_idem)
  then show ?thesis
    using None assms(5,2) route_lru.rc_inv_Delete[OF assms(1)] route_lru.rc_Delete_view[OF assms(1)
        route_lru.src_inv_ok[OF assms(1,2)]]
    by (simp add: redis_refreshKey_def backend_of_def src_inv_def src_view_def)
next
  case (Some v)
  then obtain c where c: "ParseRouteConfig cd v = Inr (Some c)" using assms(4) by blast
  have "coherent ops cd m (store_value ops cd r key v)"
    using route_lru.coherent_store[OF assms(1-3) c, of key] Some by (simp add: fun_upd_idem)
  then show ?thesis
    using Some c assms(5) conjunct1[OF route_lru.store_props[OF assms(1,2), of cd key v]] route_lru.rc_Set_view_same[OF assms(1)
        route_lru.src_inv_ok[OF assms(1,2)]]
    by (simp add: redis_refreshKey_def backend_of_def store_value_def src_view_def)
qed

lemma demo_redis_inv: "src_inv ll_cap ll_ok demo_redis" "coherent list_lru_ops cd m demo_redis"
proof -
  show "src_inv ll_cap ll_ok demo_redis" by (simp add: src_inv_def demo_redis_def list_rc.rc_inv_new)
  show "coherent list_lru_ops cd m demo_redis"
    using list_rc.coherent_new[where s = demo_redis and n = 2] by (simp add: demo_redis_def)
qed

theorem redis_refresh_coherent_witness:
  "src_view list_lru_ops 7 (redis_refreshKey list_lru_ops null_codec (backend_of Map.empty) demo_redis ''p:k'') ''p:k'' = None"
  using redis_refresh_coherent[OF list_rc.route_lru_axioms demo_redis_inv(1) demo_redis_inv(2), where m = Map.empty and key = "''p:k''"
      and now = 7 and cd = null_codec]
  by simp

text \<open>
  The negative cache of the Redis source saves requests. While a negative entry for the
  key is live, a lookup answers nothing, whatever the backend would say, and the state differs
  only in the counters.
\<close>

theorem redis_negative_entry_respected:
  assumes "\<forall>n. ts n \<le> t" and "neg_live t (src_cache r) (rPrefix r @ key)"
  shows "redis_Get ops cd ts backend r key =
    (Inr None, r\<lparr>src_cache := (src_cache r)\<lparr>rc_negativeHits := rc_negativeHits (src_cache r) + 1,
        rc_hits := rc_hits (src_cache r) + 1\<rparr>\<rparr>)"
proof -
  let ?k = "rPrefix r @ key"
  have "neg_live (ts n) (src_cache r) ?k" for n
    using neg_live_mono[OF _ assms(2)] assms(1) by blast
  from this[of 0] this[of 1] obtain x where "rc_negative (src_cache r) ?k = Some x" "ts 0 < x" "ts (Suc 0) < x"
    by (auto simp: neg_live_def split: option.splits)
  then show ?thesis
    by (simp add: redis_Get_def look_and_fetch_def rc_Get_def rc_IsNegativeCached_def)
qed

theorem redis_negative_entry_respected_witness:
  "fst (redis_Get list_lru_ops null_codec (\<lambda>_. 6) (\<lambda>_. Value ''up:80'')
     (demo_redis\<lparr>src_cache := rc_SetNegative 5 (src_cache demo_redis) ''p:k''\<rparr>) ''k'') = Inr None"
  using redis_negative_entry_respected[where t = 6 and ts = "\<lambda>_. 6" and key = "''k''" and
      r = "demo_redis\<lparr>src_cache := rc_SetNegative 5 (src_cache demo_redis) ''p:k''\<rparr>" and cd = null_codec and
      ops = list_lru_ops and backend = "\<lambda>_. Value ''up:80''"]
  by (simp add: demo_redis_def neg_live_def rc_SetNegative_def NewRouteCache_def DefaultNegativeTTL_def Let_def)

end
