(* ===== verification/Consul.thy ===== *)
theory Consul
  imports DataSource
begin

section \<open>The Consul source: datasource/consul/consul.go\<close>

text \<open>
  \<open>ConsulSource\<close>: provisioning with the initial listing, lookups, the watch by blocking
  queries, validation and the admin methods. The answers of the blocking queries are a list;
  a watch that has consumed it without returning is still waiting (\<open>None\<close>).
\<close>

record 'c ConsulSource = "'c source" +
  cAddress :: string
  cScheme :: string
  cDatacenter :: string
  cToken :: string
  cPrefix :: string
  cNamespace :: string
  cWaitTime :: duration
  cTLSEnabled :: bool
  cTLSCertFile :: string
  cTLSKeyFile :: string
  cTLSCAFile :: string
  cTLSSkipVerify :: bool
  cMaxCacheSize :: int
  cInitialLoadTimeout :: duration
  cLastIndex :: uint64

text \<open>An answer of \<open>kv.List\<close>: an error, or the pairs under the prefix and the index of the answer.\<close>

type_synonym listing = "((string \<times> string) list \<times> uint64) res"

definition consul_AdminType :: string where
  "consul_AdminType = ''consul''"

definition consul_initialLoad :: "'c route_lru \<Rightarrow> codec \<Rightarrow> listing \<Rightarrow> ('c, 'x) ConsulSource_scheme \<Rightarrow>
    string option \<times> ('c, 'x) ConsulSource_scheme" where
  "consul_initialLoad ops cd answer c =
     (case answer of
        Inl err \<Rightarrow> (Some (''initial load failed: '' @ err), c)
      | Inr (pairs, lastIndex) \<Rightarrow>
          (None, foldl (\<lambda>c (k, v). store_value ops cd c k v) (c\<lparr>cLastIndex := lastIndex\<rparr>) pairs))"

definition consul_defaults :: "('c, 'x) ConsulSource_scheme \<Rightarrow> ('c, 'x) ConsulSource_scheme" where
  "consul_defaults c =
     c\<lparr>cAddress := (if cAddress c = [] then ''localhost:8500'' else cAddress c),
       cScheme := (if cScheme c = [] then ''http'' else cScheme c),
       cPrefix := (if cPrefix c = [] then ''caddy/routing/'' else cPrefix c),
       cWaitTime := (if cWaitTime c = 0 then 300000000000 else cWaitTime c)\<rparr>"

definition consul_Provision :: "'c route_lru \<Rightarrow> codec \<Rightarrow> string option \<Rightarrow> (string \<Rightarrow> listing) \<Rightarrow> 'd \<Rightarrow> 'd adminRegistry \<Rightarrow>
    ('c, 'x) ConsulSource_scheme \<Rightarrow> string option \<times> 'd adminRegistry \<times> ('c, 'x) ConsulSource_scheme" where
  "consul_Provision ops cd client_err kv_list self g c0 =
     (let c = (consul_defaults c0)\<lparr>src_cache := NewRouteCache ops (cMaxCacheSize c0)\<rparr> in
      case client_err of
        Some err \<Rightarrow> (Some (''creating Consul client: '' @ err), g, c)
      | None \<Rightarrow>
          let (err, c1) = consul_initialLoad ops cd (kv_list (cPrefix c)) c;
              c2 = (case err of
                      Some m \<Rightarrow> c1\<lparr>src_lastError := m, src_healthy := False\<rparr>
                    | None \<Rightarrow> c1\<lparr>src_healthy := True, src_lastError := ''''\<rparr>);
              (name, g') = RegisterAdminSource g (Some self) consul_AdminType ''''
          in (None, g', c2\<lparr>src_adminName := name\<rparr>))"

definition consul_Cleanup :: "'d adminRegistry \<Rightarrow> ('c, 'x) ConsulSource_scheme \<Rightarrow> 'd adminRegistry \<times> ('c, 'x) ConsulSource_scheme" where
  "consul_Cleanup g c = (UnregisterAdminSource g (src_adminName c), c\<lparr>src_adminName := ''''\<rparr>)"

definition consul_Get :: "'c route_lru \<Rightarrow> codec \<Rightarrow> (nat \<Rightarrow> time) \<Rightarrow> (string \<Rightarrow> fetched) \<Rightarrow>
    ('c, 'x) ConsulSource_scheme \<Rightarrow> string \<Rightarrow> RouteConfig option res \<times> ('c, 'x) ConsulSource_scheme" where
  "consul_Get ops cd ts backend c key = look_and_fetch True ops cd ts backend c (cPrefix c @ key)"

definition consul_Healthy :: "('c, 'x) ConsulSource_scheme \<Rightarrow> bool" where
  "consul_Healthy c = src_healthy c"

definition consul_AdminLastError :: "('c, 'x) ConsulSource_scheme \<Rightarrow> string" where
  "consul_AdminLastError c = src_lastError c"

definition consul_AdminListRoutes :: "'c route_lru \<Rightarrow> ('c, 'x) ConsulSource_scheme \<Rightarrow> AdminRouteInfo list" where
  "consul_AdminListRoutes ops c = src_AdminListRoutes ops (\<lambda>k. TrimPrefix k (cPrefix c)) c"

definition consul_AdminCacheStats :: "'c route_lru \<Rightarrow> ('c, 'x) ConsulSource_scheme \<Rightarrow> AdminCacheStats" where
  "consul_AdminCacheStats ops c = src_AdminCacheStats ops c"

definition consul_AdminClearCache :: "'c route_lru \<Rightarrow> ('c, 'x) ConsulSource_scheme \<Rightarrow> ('c, 'x) ConsulSource_scheme" where
  "consul_AdminClearCache ops c = src_AdminClearCache ops c"

definition consul_Validate :: "('c, 'x) ConsulSource_scheme \<Rightarrow> string option" where
  "consul_Validate c =
     (if cScheme c \<noteq> [] \<and> cScheme c \<noteq> ''http'' \<and> cScheme c \<noteq> ''https''
      then Some (''scheme must be '' @ quoted ''http'' @ '' or '' @ quoted ''https'')
      else if cWaitTime c < 0 then Some ''wait_time must be non-negative''
      else if cTLSEnabled c \<and>
        (cTLSCertFile c \<noteq> [] \<and> cTLSKeyFile c = [] \<or> cTLSCertFile c = [] \<and> cTLSKeyFile c \<noteq> [])
      then Some ''both tls_cert_file and tls_key_file must be provided together''
      else None)"

subsection \<open>The watch\<close>

text \<open>One answer whose index differs from the last one: store what is listed, delete what is not.\<close>

definition consul_apply :: "'c route_lru \<Rightarrow> codec \<Rightarrow> ('c, 'x) ConsulSource_scheme \<Rightarrow> (string \<times> string) list \<Rightarrow> uint64 \<Rightarrow>
    ('c, 'x) ConsulSource_scheme" where
  "consul_apply ops cd c pairs lastIndex =
     (let c1 = foldl (\<lambda>c (k, v). store_value ops cd c k v) (c\<lparr>cLastIndex := lastIndex\<rparr>) pairs
      in drop_unlisted ops (set (map fst pairs)) c1 (rc_Keys ops (src_cache c1)))"

datatype consul_msg = ConsulCtxDone string | Answer listing

fun consul_queries :: "'c route_lru \<Rightarrow> codec \<Rightarrow> ('c, 'x) ConsulSource_scheme \<Rightarrow> consul_msg list \<Rightarrow>
    string option \<times> ('c, 'x) ConsulSource_scheme" where
  "consul_queries ops cd c [] = (None, c)"
| "consul_queries ops cd c (ConsulCtxDone err # _) = (Some err, c)"
| "consul_queries ops cd c (Answer (Inl err) # _) = (Some (''watch query failed: '' @ err), c)"
| "consul_queries ops cd c (Answer (Inr (pairs, lastIndex)) # msgs) =
     (if lastIndex = cLastIndex c then consul_queries ops cd c msgs
      else consul_queries ops cd (consul_apply ops cd c pairs lastIndex) msgs)"

definition consul_watch :: "'c route_lru \<Rightarrow> codec \<Rightarrow> ('c, 'x) ConsulSource_scheme \<Rightarrow> consul_msg list \<Rightarrow>
    string option \<times> ('c, 'x) ConsulSource_scheme" where
  "consul_watch ops cd c msgs = consul_queries ops cd (c\<lparr>src_healthy := True\<rparr>) msgs"

fun consul_watchLoop :: "'c route_lru \<Rightarrow> codec \<Rightarrow> duration \<Rightarrow> ('c, 'x) ConsulSource_scheme \<Rightarrow>
    (consul_msg list \<times> bool) list \<Rightarrow> duration list \<times> ('c, 'x) ConsulSource_scheme" where
  "consul_watchLoop ops cd backoff c [] = ([], c)"
| "consul_watchLoop ops cd backoff c ((msgs, ctxDone) # rest) =
     (let (err, c1) = consul_watch ops cd c msgs in
      if err \<noteq> None \<and> ctxDone then ([], c1)
      else let (slept, backoff', c2) = watch_turn backoff err c1;
               (ds, c3) = consul_watchLoop ops cd backoff' c2 rest
           in ((case slept of Some d \<Rightarrow> d # ds | None \<Rightarrow> ds), c3))"

subsection \<open>The source implements the interface\<close>

lemma consul_full: "source.more s' = source.more s \<Longrightarrow> (\<lambda>k. cPrefix s' @ k) = (\<lambda>k. cPrefix s @ k)"
  for s s' :: "('c, 'x) ConsulSource_scheme"
  by (cases s; cases s') auto

lemma consul_data_source:
  assumes "route_lru ops cap ok"
  shows "data_source (\<lambda>(ts, backend) s k. consul_Get ops cd ts backend s k) consul_Healthy (src_inv cap ok)
    (\<lambda>(ts, backend) s k. src_view ops (ts 0) s (cPrefix s @ k))"
  using route_lru.look_data_source[OF assms, where full = "\<lambda>s k. cPrefix s @ k" and chk = True and cd = cd]
  unfolding consul_Get_def consul_Healthy_def using consul_full by blast

interpretation list_consul: data_source
  "\<lambda>(ts, backend) s k. consul_Get list_lru_ops cd ts backend s k" consul_Healthy "src_inv ll_cap ll_ok"
  "\<lambda>(ts, backend) s k. src_view list_lru_ops (ts 0) s (cPrefix s @ k)" for cd
  by (rule consul_data_source[OF list_rc.route_lru_axioms])

subsection \<open>Properties of the Consul source\<close>


definition demo_consul :: "RouteConfig option list_lru ConsulSource" where
  "demo_consul = \<lparr>src_cache = NewRouteCache list_lru_ops 2, src_healthy = True, src_lastError = '''',
     src_adminName = '''', src_parseErrors = 0, cAddress = '''', cScheme = '''', cDatacenter = '''', cToken = '''',
     cPrefix = ''p/'', cNamespace = '''', cWaitTime = 0, cTLSEnabled = False, cTLSCertFile = '''',
     cTLSKeyFile = '''', cTLSCAFile = '''', cTLSSkipVerify = False, cMaxCacheSize = 2, cInitialLoadTimeout = 0,
     cLastIndex = 0\<rparr>"

lemma demo_consul_inv: "src_inv ll_cap ll_ok demo_consul"
  by (simp add: src_inv_def demo_consul_def list_rc.rc_inv_new)


end
