(* ===== verification/SoftSource.thy ===== *)
theory SoftSource
  imports DataSource
begin

section \<open>What the SQL, ZooKeeper, Kubernetes and HTTP sources share\<close>

text \<open>
  The lookup of these four sources has the same frame: the cache, the negative cache, the health
  flag, and then a function of the source under \<open>singleflight\<close> (\<open>look_with\<close>). Three of them
  also share that function: a value that does not parse is answered with nothing, and the
  result of the parser is cached even when it is nil (\<open>soft_fetch\<close>). A listing is loaded row by
  row (\<open>load_row\<close>), and a reload drops the keys that it did not see. The theory proves what a
  reload leaves in the cache, and that lookups and loads keep a cache in agreement with
  the backend.
\<close>

text \<open>\<open>fetch\<close> is the function under \<open>singleflight\<close>; the clock readings 0 and 1 are made here.\<close>

definition look_with :: "'c route_lru \<Rightarrow> (nat \<Rightarrow> time) \<Rightarrow>
    (('c, 'x) source_scheme \<Rightarrow> string \<Rightarrow> RouteConfig option res \<times> ('c, 'x) source_scheme) \<Rightarrow>
    ('c, 'x) source_scheme \<Rightarrow> string \<Rightarrow> RouteConfig option res \<times> ('c, 'x) source_scheme" where
  "look_with ops ts fetch s key =
     (let (cached, c1) = rc_Get ops (ts 0) (src_cache s) key in
      case cached of
        Some config \<Rightarrow> (Inr (Some config), s\<lparr>src_cache := c1\<rparr>)
      | None \<Rightarrow>
          let (neg, c2) = rc_IsNegativeCached (ts 1) c1 key; s2 = s\<lparr>src_cache := c2\<rparr> in
          if neg then (Inr None, s2)
          else if \<not> src_healthy s then (Inr None, s2)
          else case fetch s2 key of
            (Inl e, s3) \<Rightarrow> (Inl e, s3)
          | (Inr r, s3) \<Rightarrow> (Inr r, s3\<lparr>src_lastError := ''''\<rparr>))"

text \<open>
  \<open>marks\<close> tells the sources that turn unhealthy on an error of the backend from the one that does
  not; \<open>wrap\<close> is the text that the returned error puts around the cause.
\<close>

definition soft_fetch :: "bool \<Rightarrow> (string \<Rightarrow> string) \<Rightarrow> 'c route_lru \<Rightarrow> codec \<Rightarrow> (nat \<Rightarrow> time) \<Rightarrow> (string \<Rightarrow> fetched) \<Rightarrow>
    ('c, 'x) source_scheme \<Rightarrow> string \<Rightarrow> RouteConfig option res \<times> ('c, 'x) source_scheme" where
  "soft_fetch marks wrap ops cd ts backend s key =
     (let (cached, c1) = rc_Get ops (ts 2) (src_cache s) key; s1 = s\<lparr>src_cache := c1\<rparr> in
      case cached of
        Some config \<Rightarrow> (Inr (Some config), s1)
      | None \<Rightarrow>
          case backend key of
            Missing \<Rightarrow> (Inr None, s1\<lparr>src_cache := rc_SetNegative (ts 3) c1 key\<rparr>)
          | FetchError e \<Rightarrow>
              (Inl (wrap e), s1\<lparr>src_healthy := (if marks then False else src_healthy s1), src_lastError := e\<rparr>)
          | Value v \<Rightarrow>
              case ParseRouteConfig cd v of
                Inl e \<Rightarrow> (Inr None, s1\<lparr>src_parseErrors := Suc (src_parseErrors s1), src_lastError := e\<rparr>)
              | Inr config \<Rightarrow> (Inr config, s1\<lparr>src_cache := rc_Set ops c1 key config\<rparr>))"

text \<open>
  One row of a listing: the state, and the keys seen so far. Unlike the other sources, this one
  caches what the parser returns even when that is nil.
\<close>

fun load_row :: "'c route_lru \<Rightarrow> codec \<Rightarrow> ('c, 'x) source_scheme \<times> string set \<Rightarrow> (string \<times> string) option \<Rightarrow>
    ('c, 'x) source_scheme \<times> string set" where
  "load_row ops cd (s, seen) None = (s, seen)"
| "load_row ops cd (s, seen) (Some (key, configData)) =
     (case ParseRouteConfig cd configData of
        Inl e \<Rightarrow> (s\<lparr>src_parseErrors := Suc (src_parseErrors s)\<rparr>, seen)
      | Inr config \<Rightarrow> (s\<lparr>src_cache := rc_Set ops (src_cache s) key config\<rparr>, insert key seen))"

subsection \<open>Lemmas on loads and lookups\<close>

text \<open>The rows that could be scanned.\<close>

definition scanned :: "'r option list \<Rightarrow> 'r list" where
  "scanned rows = map the (filter (\<lambda>r. r \<noteq> None) rows)"

lemma scanned_simps [simp]:
  "scanned [] = []" "scanned (None # rows) = scanned rows" "scanned (Some r # rows) = r # scanned rows"
  "scanned (map Some rs) = rs"
  by (induction rs) (simp_all add: scanned_def)

text \<open>The configuration that a text stands for, nothing when it does not parse.\<close>

definition config_in :: "codec \<Rightarrow> string \<Rightarrow> RouteConfig option" where
  "config_in cd v = (case ParseRouteConfig cd v of Inl e \<Rightarrow> None | Inr c \<Rightarrow> c)"

definition readable :: "codec \<Rightarrow> string \<Rightarrow> bool" where
  "readable cd v \<longleftrightarrow> (\<exists>c. ParseRouteConfig cd v = Inr c)"

text \<open>The cache of \<open>s\<close> keeps within the keys \<open>K\<close>, which fit.\<close>

definition fits :: "'c route_lru \<Rightarrow> ('c \<Rightarrow> nat) \<Rightarrow> string set \<Rightarrow> ('c, 'x) source_scheme \<Rightarrow> bool" where
  "fits ops cap K s \<longleftrightarrow> finite K \<and> card K \<le> cap (rc_cache (src_cache s)) \<and> set (rc_Keys ops (src_cache s)) \<subseteq> K"

context route_lru
begin

lemma Set_fits:
  assumes "src_inv cap ok s" and "fits ops cap K s" and "k \<in> K" and "s' = s\<lparr>src_cache := rc_Set ops (src_cache s) k c\<rparr>"
  shows "src_inv cap ok s' \<and> fits ops cap K s' \<and>
    lru_peek ops (rc_cache (src_cache s')) = (lru_peek ops (rc_cache (src_cache s)))(k \<mapsto> c)"
proof -
  let ?c = "rc_cache (src_cache s)"
  have okc: "ok ?c" by (rule src_inv_ok[OF assms(1)])
  have ok': "ok (lru_add ops ?c k c)" by (rule add_ok[OF okc])
  have room: "k \<in> set (lru_keys ops ?c) \<or> length (lru_keys ops ?c) < cap ?c"
  proof (cases "k \<in> set (lru_keys ops ?c)")
    case False
    then have "set (lru_keys ops ?c) \<subset> K" using assms(2,3) by (auto simp: fits_def rc_Keys_def)
    then have "card (set (lru_keys ops ?c)) < card K" using assms(2) by (auto simp: fits_def intro: psubset_card_mono)
    then show ?thesis using assms(2) keys_distinct[OF okc] by (simp add: fits_def distinct_card)
  qed simp
  have peek: "lru_peek ops (lru_add ops ?c k c) = (lru_peek ops ?c)(k \<mapsto> c)"
    using add_same[OF okc] add_room[OF okc _ room] by (auto simp: fun_eq_iff)
  have "set (lru_keys ops (lru_add ops ?c k c)) = insert k (set (lru_keys ops ?c))"
    using dom_peek[OF ok'] dom_peek[OF okc] peek by simp
  then show ?thesis
    using assms peek add_cap[OF okc] rc_inv_Set[of "src_cache s" k c]
    by (simp add: fits_def rc_Keys_def rc_Set_def src_inv_def)
qed

lemma load_rows:
  assumes "src_inv cap ok s" and "fits ops cap K s" and "fst ` set (scanned rows) \<subseteq> K"
    and "distinct (map fst (scanned rows))" and "(s', seen') = foldl (load_row ops cd) (s, seen) rows"
  shows "src_inv cap ok s' \<and> fits ops cap K s' \<and> seen' = seen \<union> {k. \<exists>v. (k, v) \<in> set (scanned rows) \<and> readable cd v} \<and>
    (\<forall>k. lru_peek ops (rc_cache (src_cache s')) k =
       (case map_of (scanned rows) k of
          Some v \<Rightarrow> if readable cd v then Some (config_in cd v) else lru_peek ops (rc_cache (src_cache s)) k
        | None \<Rightarrow> lru_peek ops (rc_cache (src_cache s)) k))"
  using assms
proof (induction rows arbitrary: s seen)
  case Nil
  then show ?case by simp
next
  case (Cons row rows)
  show ?case
  proof (cases row)
    case None
    then show ?thesis using Cons.IH[of s seen] Cons.prems by simp
  next
    case (Some r)
    obtain k v where r: "r = (k, v)" by (cases r)
    have fresh: "map_of (scanned rows) k = None" using Cons.prems(4) Some r by (simp add: map_of_eq_None_iff)
    show ?thesis
    proof (cases "ParseRouteConfig cd v")
      case (Inl e)
      let ?s = "s\<lparr>src_parseErrors := Suc (src_parseErrors s)\<rparr>"
      have "src_inv cap ok ?s" "fits ops cap K ?s" using Cons.prems(1,2) by (simp_all add: src_inv_def fits_def)
      moreover have "\<not> readable cd v" using Inl by (simp add: readable_def)
      ultimately show ?thesis
        using Cons.IH[of ?s seen] Cons.prems(3-5) Some r Inl fresh by (auto split: option.splits)
    next
      case (Inr c)
      let ?s = "s\<lparr>src_cache := rc_Set ops (src_cache s) k c\<rparr>"
      have "k \<in> K" using Cons.prems(3) Some r by simp
      from Set_fits[OF Cons.prems(1,2) this refl, of c]
      have st: "src_inv cap ok ?s" "fits ops cap K ?s"
        "lru_peek ops (rc_cache (src_cache ?s)) = (lru_peek ops (rc_cache (src_cache s)))(k \<mapsto> c)" by blast+
      have rd: "readable cd v" "config_in cd v = c" using Inr by (simp_all add: readable_def config_in_def)
      note ih = Cons.IH[OF st(1,2), of "insert k seen"]
      have "src_inv cap ok s' \<and> fits ops cap K s' \<and>
          seen' = insert k seen \<union> {k. \<exists>v. (k, v) \<in> set (scanned rows) \<and> readable cd v} \<and>
          (\<forall>j. lru_peek ops (rc_cache (src_cache s')) j =
            (case map_of (scanned rows) j of
               Some v \<Rightarrow> if readable cd v then Some (config_in cd v) else lru_peek ops (rc_cache (src_cache ?s)) j
             | None \<Rightarrow> lru_peek ops (rc_cache (src_cache ?s)) j))"
        using ih Cons.prems(3-5) Some r Inr by simp
      then show ?thesis using Some r rd fresh st(3) by (auto split: option.splits)
    qed
  qed
qed

end

lemma load_rows_negative:
  assumes "\<forall>k \<in> seen. rc_negative (src_cache s) k = None" and "(s', seen') = foldl (load_row ops cd) (s, seen) rows"
  shows "\<forall>k \<in> seen'. rc_negative (src_cache s') k = None"
  using assms
proof (induction rows arbitrary: s seen)
  case (Cons row rows)
  obtain s1 seen1 where step: "load_row ops cd (s, seen) row = (s1, seen1)" by fastforce
  then have "\<forall>k \<in> seen1. rc_negative (src_cache s1) k = None"
    using Cons.prems(1) by (cases row) (auto simp: rc_Set_def split: sum.splits)
  then show ?case using Cons.IH[of seen1 s1] Cons.prems(2) step by simp
qed simp

lemma drop_unlisted_negative:
  "rc_negative (src_cache s) k = None \<Longrightarrow> rc_negative (src_cache (drop_unlisted ops K s keys)) k = None"
  unfolding drop_unlisted_def by (induction keys arbitrary: s) (auto simp: rc_Delete_def)

lemma demo_parse: "ParseRouteConfig null_codec ''up:80'' = Inr (Some (empty_config\<lparr>cUpstream := ''up:80''\<rparr>))"
  by code_simp

context route_lru
begin

lemma Set_coherent_on:
  assumes "src_inv cap ok s" and "coherent_on K ops cd m s" and "m k = Some v" and "ParseRouteConfig cd v = Inr c"
    and "s' = s\<lparr>src_cache := rc_Set ops (src_cache s) k c\<rparr>"
  shows "src_inv cap ok s' \<and> coherent_on (insert k K) ops cd m s'"
proof -
  have okc: "ok (rc_cache (src_cache s))" by (rule src_inv_ok[OF assms(1)])
  have "parses_to cd m j w" if "j \<in> insert k K"
    "lru_peek ops (lru_add ops (rc_cache (src_cache s)) k c) j = Some (Some w)" for j w
    using add_sub[OF okc that(2)] that(1) assms(2-4) by (auto simp: coherent_on_def parses_to_def)
  then show ?thesis using assms(1,5) rc_inv_Set[of "src_cache s" k c] by (simp add: coherent_on_def rc_Set_def src_inv_def)
qed

lemma Delete_coherent_on:
  assumes "src_inv cap ok s" and "coherent_on K ops cd m s" and "s' = s\<lparr>src_cache := rc_Delete ops (src_cache s) k\<rparr>"
  shows "src_inv cap ok s' \<and> coherent_on (insert k K) ops cd m s'"
  using assms src_inv_ok[OF assms(1)] rc_inv_Delete[of "src_cache s" k]
  by (auto simp: coherent_on_def rc_Delete_def remove_peek src_inv_def split: if_splits)

end

lemma coherent_on_mono: "coherent_on K ops cd m s \<Longrightarrow> K' \<subseteq> K \<Longrightarrow> coherent_on K' ops cd m s"
  by (auto simp: coherent_on_def)

lemma coherent_on_UNIV: "coherent_on UNIV ops cd m s \<longleftrightarrow> coherent ops cd m s"
  by (simp add: coherent_on_def coherent_def)

lemma coherent_on_frame:
  "src_cache s' = src_cache s \<Longrightarrow> coherent_on K ops cd m s' \<longleftrightarrow> coherent_on K ops cd m s"
  "src_cache s' = src_cache s \<Longrightarrow> coherent ops cd m s' \<longleftrightarrow> coherent ops cd m s"
  "src_cache s' = src_cache s \<Longrightarrow> src_inv cap ok s' \<longleftrightarrow> src_inv cap ok s"
  by (simp_all add: coherent_on_def coherent_def src_inv_def)

lemma load_row_more: "(s', seen') = foldl (load_row ops cd) (s, seen) rows \<Longrightarrow> source.more s' = source.more s"
proof (induction rows arbitrary: s seen)
  case (Cons row rows)
  obtain s1 seen1 where st: "load_row ops cd (s, seen) row = (s1, seen1)" by fastforce
  have "source.more s1 = source.more s" using st by (cases row) (auto split: sum.splits)
  then show ?case using Cons.IH[of s1 seen1] Cons.prems st by simp
qed simp

context route_lru
begin

lemma load_rows_coherent_on:
  assumes "src_inv cap ok s" and "coherent_on seen ops cd m s"
    and "\<forall>(k, v) \<in> set (scanned rows). m k = Some v" and "(s', seen') = foldl (load_row ops cd) (s, seen) rows"
  shows "src_inv cap ok s' \<and> coherent_on seen' ops cd m s' \<and> source.more s' = source.more s"
  using assms
proof (induction rows arbitrary: s seen)
  case (Cons row rows)
  obtain s1 seen1 where st: "load_row ops cd (s, seen) row = (s1, seen1)" by fastforce
  have "src_inv cap ok s1 \<and> coherent_on seen1 ops cd m s1 \<and> source.more s1 = source.more s"
  proof (cases row)
    case (Some r)
    obtain k v where r: "r = (k, v)" by (cases r)
    then have "m k = Some v" using Cons.prems(3) Some by simp
    note set = Set_coherent_on[OF Cons.prems(1,2) this]
    show ?thesis
    proof (cases "ParseRouteConfig cd v")
      case (Inr c)
      then show ?thesis using set[OF Inr refl] st Some r by auto
    qed (use st Some r Cons.prems(1,2) in \<open>auto simp: src_inv_def coherent_on_def\<close>)
  qed (use st Cons.prems(1,2) in simp)
  moreover have "\<forall>(k, v) \<in> set (scanned rows). m k = Some v" using Cons.prems(3) by (cases row) simp_all
  ultimately show ?case using Cons.IH[of s1 seen1] Cons.prems(4) st by simp
qed simp

lemma drop_unseen_coherent:
  assumes "src_inv cap ok s" and "coherent_on K ops cd m s" and "s' = drop_unlisted ops K s (rc_Keys ops (src_cache s))"
  shows "src_inv cap ok s' \<and> coherent ops cd m s' \<and> source.more s' = source.more s"
proof -
  note dp = drop_unlisted_props[OF assms(1,3)]
  have "k \<in> set (rc_Keys ops (src_cache s)) \<or> lru_peek ops (rc_cache (src_cache s)) k = None" for k
    using peek_keys[OF src_inv_ok[OF assms(1)], of k] by (auto simp: rc_Keys_def)
  then have "parses_to cd m k c" if "lru_peek ops (rc_cache (src_cache s')) k = Some (Some c)" for k c
    using dp that assms(2) by (fastforce simp: coherent_on_def split: if_splits)
  then show ?thesis using dp by (simp add: coherent_def)
qed

lemma coherent_on_cache:
  "coherent_on K ops cd m s \<Longrightarrow> lru_peek ops (rc_cache c) = lru_peek ops (rc_cache (src_cache s)) \<Longrightarrow>
     coherent_on K ops cd m (s\<lparr>src_cache := c\<rparr>)"
  by (simp add: coherent_on_def)

lemma rc_Get_coherent_on:
  assumes "src_inv cap ok s" and "coherent_on K ops cd m s" and "rc_Get ops t (src_cache s) k = (v, c)"
  shows "src_inv cap ok (s\<lparr>src_cache := c\<rparr>) \<and> coherent_on K ops cd m (s\<lparr>src_cache := c\<rparr>) \<and>
    (k \<in> K \<longrightarrow> (\<forall>x. v = Some x \<longrightarrow> parses_to cd m k x))"
proof -
  have okc: "ok (rc_cache (src_cache s))" by (rule src_inv_ok[OF assms(1)])
  have peek: "lru_peek ops (rc_cache c) = lru_peek ops (rc_cache (src_cache s))"
    using rc_Get_peek[OF okc, of t k] assms(3) by simp
  have "k \<in> K \<longrightarrow> (\<forall>x. v = Some x \<longrightarrow> parses_to cd m k x)"
    using rc_Get_hit[OF okc, of t k _ c] assms(2,3) peek by (fastforce simp: coherent_on_def)
  then show ?thesis
    using coherent_on_cache[OF assms(2) peek] rc_inv_Get[of "src_cache s" t k] assms(1,3) by (simp add: src_inv_def)
qed

end

context route_lru
begin

lemma soft_fetch_coherent_on:
  assumes "src_inv cap ok s" and "coherent_on K ops cd m s" and "backend k = backend_of m k \<or> (\<exists>e. backend k = FetchError e)"
    and "soft_fetch marks wrap ops cd ts backend s k = (r, s')"
  shows "src_inv cap ok s' \<and> coherent_on K ops cd m s' \<and> source.more s' = source.more s \<and>
    (k \<in> K \<longrightarrow> (\<forall>c. r = Inr (Some c) \<longrightarrow> parses_to cd m k c))"
proof -
  obtain v c1 where g: "rc_Get ops (ts 2) (src_cache s) k = (v, c1)" by fastforce
  note st = rc_Get_coherent_on[OF assms(1,2) g]
  have set: "src_inv cap ok (s\<lparr>src_cache := rc_Set ops c1 k c\<rparr>) \<and> coherent_on K ops cd m (s\<lparr>src_cache := rc_Set ops c1 k c\<rparr>)"
    if "m k = Some x" "ParseRouteConfig cd x = Inr c" for x c
    using Set_coherent_on[of "s\<lparr>src_cache := c1\<rparr>" K cd m k x c, OF _ _ that refl] st
    by (simp add: coherent_on_def)
  have neg: "src_inv cap ok (s\<lparr>src_cache := rc_SetNegative t c1 k\<rparr>) \<and> coherent_on K ops cd m (s\<lparr>src_cache := rc_SetNegative t c1 k\<rparr>)" for t
    using st rc_inv_SetNegative[of c1 t k] by (auto simp: src_inv_def coherent_on_def rc_SetNegative_def)
  show ?thesis
  proof (cases v)
    case (Some x)
    then show ?thesis using assms(4) g st by (auto simp: soft_fetch_def)
  next
    case None
    show ?thesis
    proof (cases "\<exists>e. backend k = FetchError e")
      case True
      then show ?thesis using None assms(4) g st by (auto simp: soft_fetch_def src_inv_def coherent_on_def Let_def)
    next
      case False
      then have b: "backend k = backend_of m k" using assms(3) by blast
      show ?thesis
      proof (cases "m k")
        case None
        then show ?thesis using \<open>v = None\<close> assms(4) b g neg by (auto simp: soft_fetch_def backend_of_def)
      next
        case (Some x)
        show ?thesis
        proof (cases "ParseRouteConfig cd x")
          case (Inl e)
          then show ?thesis using \<open>v = None\<close> Some assms(4) b g st by (auto simp: soft_fetch_def backend_of_def src_inv_def coherent_on_def)
        next
          case (Inr c)
          then show ?thesis
            using \<open>v = None\<close> Some assms(4) b g set[OF Some Inr] by (auto simp: soft_fetch_def backend_of_def parses_to_def)
        qed
      qed
    qed
  qed
qed

text \<open>
  The frame of a lookup keeps what the fetch keeps: \<open>P\<close> is a property of the state that does not
  look at counters, negative entries or the last error.
\<close>

lemma look_with_cases:
  assumes "src_inv cap ok s" and "look_with ops ts fetch s k = (r, s')"
  obtains (hit) c c1 where "rc_Get ops (ts 0) (src_cache s) k = (Some c, c1)" "r = Inr (Some c)" "s' = s\<lparr>src_cache := c1\<rparr>"
  | (miss) c2 where "src_inv cap ok (s\<lparr>src_cache := c2\<rparr>)" "lru_peek ops (rc_cache c2) = lru_peek ops (rc_cache (src_cache s))"
      "src_view ops (ts 0) s k = None" "r = Inr None" "s' = s\<lparr>src_cache := c2\<rparr>"
  | (fetch) c2 r3 s3 where "src_inv cap ok (s\<lparr>src_cache := c2\<rparr>)" "lru_peek ops (rc_cache c2) = lru_peek ops (rc_cache (src_cache s))"
      "src_view ops (ts 0) s k = None" "src_healthy s" "fetch (s\<lparr>src_cache := c2\<rparr>) k = (r3, s3)" "r = r3"
      "s' = (case r3 of Inl e \<Rightarrow> s3 | Inr x \<Rightarrow> s3\<lparr>src_lastError := ''''\<rparr>)"
proof -
  obtain v c1 where g: "rc_Get ops (ts 0) (src_cache s) k = (v, c1)" by fastforce
  obtain n c2 where i: "rc_IsNegativeCached (ts 1) c1 k = (n, c2)" by fastforce
  obtain r3 s3 where f: "fetch (s\<lparr>src_cache := c2\<rparr>) k = (r3, s3)" by fastforce
  have okc: "ok (rc_cache (src_cache s))" by (rule src_inv_ok[OF assms(1)])
  have i1: "rc_inv cap ok c1" using rc_inv_Get[of "src_cache s" "ts 0" k] assms(1) g by (simp add: src_inv_def)
  have c2: "rc_cache c2 = rc_cache c1" using i by (auto simp: rc_IsNegativeCached_def split: if_splits option.splits)
  have peek: "lru_peek ops (rc_cache c2) = lru_peek ops (rc_cache (src_cache s))"
    using rc_Get_peek[OF okc, of "ts 0" k] g c2 by simp
  have inv2: "src_inv cap ok (s\<lparr>src_cache := c2\<rparr>)" using rc_inv_IsNeg[OF i1, of "ts 1" k] i by (simp add: src_inv_def)
  have view: "v = src_view ops (ts 0) s k" using rc_Get_fst[OF okc, of "ts 0" k] g by (simp add: src_view_def)
  consider c where "v = Some c" | "v = None" "n \<or> \<not> src_healthy s" | "v = None" "\<not> n" "src_healthy s" by (cases v) auto
  then show thesis
  proof cases
    case 1
    then show thesis using hit assms(2) g by (simp add: look_with_def)
  next
    case 2
    then have "r = Inr None" "s' = s\<lparr>src_cache := c2\<rparr>"
      using assms(2) g i by (auto simp: look_with_def Let_def split: if_splits)
    then show thesis using miss[OF inv2 peek] view 2(1) by simp
  next
    case 3
    then have "(r, s') = (case r3 of Inl e \<Rightarrow> (Inl e, s3) | Inr x \<Rightarrow> (Inr x, s3\<lparr>src_lastError := ''''\<rparr>))"
      using assms(2) g i f by (auto simp: look_with_def split: sum.splits)
    then show thesis using fetch[OF inv2 peek _ 3(3) f] view 3(1) by (auto split: sum.splits)
  qed
qed

lemma soft_Get_coherent_on:
  assumes "src_inv cap ok s" and "coherent_on K ops cd m s" and "backend k = backend_of m k \<or> (\<exists>e. backend k = FetchError e)"
    and "look_with ops ts (soft_fetch marks wrap ops cd ts backend) s k = (r, s')"
  shows "src_inv cap ok s' \<and> coherent_on K ops cd m s' \<and> source.more s' = source.more s \<and>
    (k \<in> K \<longrightarrow> (\<forall>c. r = Inr (Some c) \<longrightarrow> parses_to cd m k c))"
  using assms(1,4)
proof (cases rule: look_with_cases)
  case (hit c c1)
  show ?thesis using rc_Get_coherent_on[OF assms(1,2) hit(1)] hit by auto
next
  case (miss c2)
  then show ?thesis using coherent_on_cache[OF assms(2) miss(2)] by simp
next
  case (fetch c2 r3 s3)
  from soft_fetch_coherent_on[where backend = backend and m = m, OF fetch(1) coherent_on_cache[OF assms(2) fetch(2)] assms(3) fetch(5)]
  show ?thesis using fetch(6,7) by (auto simp: src_inv_def coherent_on_def split: sum.splits)
qed

end

text \<open>
  A reload: the rows are loaded, and the cached keys that were not seen are dropped. If the old
  keys and the rows fit into the cache together, the cache then answers for every key exactly
  what its row stands for, and nothing for a key without a row or whose row does not parse.
\<close>

definition reload :: "'c route_lru \<Rightarrow> codec \<Rightarrow> (string \<times> string) option list \<Rightarrow> ('c, 'x) source_scheme \<Rightarrow> ('c, 'x) source_scheme" where
  "reload ops cd rows s =
     (let (s1, seenKeys) = foldl (load_row ops cd) (s, {}) rows
      in drop_unlisted ops seenKeys s1 (rc_Keys ops (src_cache s1)))"

lemma reload_exact:
  assumes "route_lru ops cap ok" and "src_inv cap ok s" and "distinct (map fst (scanned rows))"
    and "card (set (rc_Keys ops (src_cache s)) \<union> fst ` set (scanned rows)) \<le> cap (rc_cache (src_cache s))"
    and "s' = reload ops cd rows s"
  shows "src_inv cap ok s' \<and>
    src_view ops now s' = (\<lambda>k. case map_of (scanned rows) k of None \<Rightarrow> None | Some v \<Rightarrow> config_in cd v)"
proof -
  let ?K = "set (rc_Keys ops (src_cache s)) \<union> fst ` set (scanned rows)"
  obtain s1 seen where l: "(s1, seen) = foldl (load_row ops cd) (s, {}) rows" by (metis surj_pair)
  have fits: "fits ops cap ?K s" using assms(4) by (simp add: fits_def)
  have e: "s' = drop_unlisted ops seen s1 (rc_Keys ops (src_cache s1))"
    using assms(5) l[symmetric] by (simp add: reload_def)
  note lr = route_lru.load_rows[OF assms(1,2) fits _ assms(3) l]
  have inv1: "src_inv cap ok s1" using lr by blast
  note dp = route_lru.drop_unlisted_props[OF assms(1) inv1 e]
  have keys: "k \<in> set (rc_Keys ops (src_cache s1)) \<longleftrightarrow> lru_peek ops (rc_cache (src_cache s1)) k \<noteq> None" for k
    using lru.peek_keys[OF route_lru.axioms[OF assms(1)] route_lru.src_inv_ok[OF assms(1) inv1], of k]
    by (auto simp: rc_Keys_def)
  have pairs: "map_of (scanned rows) k = Some v \<longleftrightarrow> (k, v) \<in> set (scanned rows)" for k v
    using assms(3) by simp
  have seen: "k \<in> seen \<longleftrightarrow> (\<exists>v. map_of (scanned rows) k = Some v \<and> readable cd v)" for k
    using lr pairs by auto
  have neg: "k \<in> seen \<Longrightarrow> rc_negative (src_cache s') k = None" for k
    using load_rows_negative[OF _ l] by (simp add: e drop_unlisted_negative)
  have "src_view ops now s' k = (case map_of (scanned rows) k of None \<Rightarrow> None | Some v \<Rightarrow> config_in cd v)" for k
  proof (cases "k \<in> seen")
    case True
    then obtain v where v: "map_of (scanned rows) k = Some v" "readable cd v" using seen by blast
    then have "lru_peek ops (rc_cache (src_cache s')) k = Some (config_in cd v)" using lr dp True by simp
    then show ?thesis using v neg[OF True] by (simp add: src_view_def rc_view_def neg_live_def)
  next
    case False
    then have "lru_peek ops (rc_cache (src_cache s')) k = None" using dp keys[of k] by simp
    moreover have "(case map_of (scanned rows) k of None \<Rightarrow> None | Some v \<Rightarrow> config_in cd v) = None"
      using False seen[of k] by (auto simp: readable_def config_in_def split: option.splits sum.splits)
    ultimately show ?thesis by (simp add: src_view_def rc_view_def)
  qed
  then show ?thesis using dp by auto
qed

text \<open>A reload with a listing of the backend makes the cache agree with it.\<close>

lemma reload_coherent:
  assumes "route_lru ops cap ok" and "src_inv cap ok s" and "\<forall>(k, v) \<in> set (scanned rows). m k = Some v"
    and "s' = reload ops cd rows s"
  shows "src_inv cap ok s' \<and> coherent ops cd m s' \<and> source.more s' = source.more s"
proof -
  obtain s1 seen where l: "(s1, seen) = foldl (load_row ops cd) (s, {}) rows" by (metis surj_pair)
  have e: "s' = drop_unlisted ops seen s1 (rc_Keys ops (src_cache s1))"
    using assms(4) l[symmetric] by (simp add: reload_def)
  from route_lru.load_rows_coherent_on[OF assms(1,2) _ assms(3) l]
  have "src_inv cap ok s1" "coherent_on seen ops cd m s1" "source.more s1 = source.more s"
    by (simp_all add: coherent_on_def)
  then show ?thesis using route_lru.drop_unseen_coherent[OF assms(1) _ _ e] by simp
qed

lemma look_with_cong:
  assumes "\<And>c. fetch (s\<lparr>src_cache := c\<rparr>) k = fetch' (s\<lparr>src_cache := c\<rparr>) k"
  shows "look_with ops ts fetch s k = look_with ops ts fetch' s k"
  by (simp add: look_with_def assms Let_def split: prod.splits option.splits)

subsection \<open>The lookups implement the interface\<close>

text \<open>
  What a function under \<open>singleflight\<close> must do for the lookup to be a data source: keep the
  invariant and the health, and leave in the cache what it returns.
\<close>

definition fetch_ok :: "'c route_lru \<Rightarrow> ('c \<Rightarrow> nat) \<Rightarrow> ('c \<Rightarrow> bool) \<Rightarrow>
    (('c, 'x) source_scheme \<Rightarrow> string \<Rightarrow> RouteConfig option res \<times> ('c, 'x) source_scheme) \<Rightarrow> bool" where
  "fetch_ok ops cap ok fetch \<longleftrightarrow>
     (\<forall>s k r s'. src_inv cap ok s \<longrightarrow> fetch s k = (r, s') \<longrightarrow>
        src_inv cap ok s' \<and> src_healthy s' = src_healthy s \<and>
        (\<forall>c t. r = Inr (Some c) \<longrightarrow> src_view ops t s' k = Some c))"

lemma fetch_okD:
  assumes "fetch_ok ops cap ok fetch" and "src_inv cap ok s" and "fetch s k = (r, s')"
  shows "src_inv cap ok s' \<and> src_healthy s' = src_healthy s \<and> (\<forall>c t. r = Inr (Some c) \<longrightarrow> src_view ops t s' k = Some c)"
  using assms unfolding fetch_ok_def by blast

lemma src_view_lastError [simp]: "src_view ops t (s\<lparr>src_lastError := e\<rparr>) k = src_view ops t s k"
  by (simp add: src_view_def)

lemma src_inv_lastError [simp]: "src_inv cap ok (s\<lparr>src_lastError := e\<rparr>) = src_inv cap ok s"
  by (simp add: src_inv_def)

context route_lru
begin

lemma look_with_props:
  assumes "fetch_ok ops cap ok fetch" and "src_inv cap ok s" and "look_with ops ts fetch s k = (r, s')"
  shows "src_inv cap ok s' \<and> src_healthy s' = src_healthy s \<and> (\<forall>c t. r = Inr (Some c) \<longrightarrow> src_view ops t s' k = Some c) \<and>
    (\<forall>c. src_view ops (ts 0) s k = Some c \<longrightarrow> r = Inr (Some c)) \<and>
    (\<not> src_healthy s \<longrightarrow> src_view ops (ts 0) s k = None \<longrightarrow> r = Inr None)"
  using assms(2,3)
proof (cases rule: look_with_cases)
  case (hit c c1)
  have okc: "ok (rc_cache (src_cache s))" by (rule src_inv_ok[OF assms(2)])
  have "src_view ops (ts 0) s k = Some c" using rc_Get_fst[OF okc, of "ts 0" k] hit(1) by (simp add: src_view_def)
  moreover have "rc_view ops t c1 k = Some c" for t by (rule rc_Get_hit_view[OF okc hit(1)])
  moreover have "rc_inv cap ok c1" using rc_inv_Get[of "src_cache s" "ts 0" k] assms(2) hit(1) by (simp add: src_inv_def)
  ultimately show ?thesis using hit by (simp add: src_inv_def src_view_def)
next
  case (miss c2)
  then show ?thesis by simp
next
  case (fetch c2 r3 s3)
  from fetch_okD[OF assms(1) fetch(1,5)] fetch(3,4,6,7) show ?thesis by (cases r3) simp_all
qed

lemma look_with_data_source:
  fixes fetch :: "'e \<Rightarrow> ('c, 'b) source_scheme \<Rightarrow> string \<Rightarrow> RouteConfig option res \<times> ('c, 'b) source_scheme"
  assumes "\<And>e. fetch_ok ops cap ok (fetch e)"
  shows "data_source (\<lambda>e. look_with ops (clock e) (fetch e)) src_healthy (src_inv cap ok) (\<lambda>e. src_view ops (clock e 0))"
proof unfold_locales
  fix e k c e' and s s' :: "('c, 'b) source_scheme"
  assume inv: "src_inv cap ok s"
  note p = look_with_props[OF assms inv prod.collapse[symmetric], of "clock e" e k]
  show "src_inv cap ok (snd (look_with ops (clock e) (fetch e) s k))" using p by blast
  show "src_healthy (snd (look_with ops (clock e) (fetch e) s k)) = src_healthy s" using p by blast
  show "fst (look_with ops (clock e) (fetch e) s k) = Inr (Some c)" if "src_view ops (clock e 0) s k = Some c"
    using p that by blast
  show "fst (look_with ops (clock e) (fetch e) s k) = Inr None" if "\<not> src_healthy s" "src_view ops (clock e 0) s k = None"
    using p that by blast
  show "src_view ops (clock e' 0) s' k = Some c" if "look_with ops (clock e) (fetch e) s k = (Inr (Some c), s')"
    using look_with_props[OF assms inv that] by blast
qed

text \<open>The shared function does this when it does not touch the health.\<close>

lemma soft_fetch_ok: "fetch_ok ops cap ok (soft_fetch False wrap ops cd ts backend)"
  unfolding fetch_ok_def
proof (intro allI impI)
  fix s k r and s' :: "('c, 'a) source_scheme"
  assume inv: "src_inv cap ok s" and f: "soft_fetch False wrap ops cd ts backend s k = (r, s')"
  obtain v c1 where g: "rc_Get ops (ts 2) (src_cache s) k = (v, c1)" by fastforce
  have okc: "ok (rc_cache (src_cache s))" by (rule src_inv_ok[OF inv])
  have i1: "rc_inv cap ok c1" using rc_inv_Get[of "src_cache s" "ts 2" k] inv g by (simp add: src_inv_def)
  then have ok1: "ok (rc_cache c1)" by (simp add: rc_inv_def)
  have hit: "v = Some x \<Longrightarrow> rc_view ops t c1 k = Some x" for x t
    using rc_Get_hit_view[OF okc, of "ts 2" k x c1] g by blast
  show "src_inv cap ok s' \<and> src_healthy s' = src_healthy s \<and> (\<forall>c t. r = Inr (Some c) \<longrightarrow> src_view ops t s' k = Some c)"
    using f g i1 hit rc_inv_Set[OF i1] rc_inv_SetNegative[OF i1] rc_Set_view_same[OF ok1]
    by (auto simp: soft_fetch_def src_inv_def src_view_def Let_def split: option.splits fetched.splits sum.splits)
qed

end

end
