(* ===== verification/Sql.thy ===== *)
theory Sql
  imports SoftSource
begin

section \<open>The SQL source: datasource/sql/sql.go\<close>

text \<open>
  \<open>SQLSource\<close>: the check of identifiers, provisioning, lookups, the initial load, the two ways
  of refreshing the cache, the poll loop, validation, the text of the queries and the admin
  methods. The database is a parameter (\<open>sql_db\<close>): what it answers to the text of a query and
  its arguments. A row whose \<open>Scan\<close> fails is \<open>None\<close>; the second component of a result set is
  \<open>rows.Err()\<close>. A formatted text that ends in a \<open>%q\<close> verb is the pair of the text before it
  and the value (\<open>Quoted\<close>).
\<close>

datatype sql_error = Text string | Quoted string string

datatype sql_arg = ArgTime time | ArgString string

record inc_row =
  irKey :: string
  irConfig :: string
  irUpdatedAt :: time
  irDeletedAt :: "time option"

type_synonym 'r result_set = "('r option list \<times> string option) res"

record sql_db =
  db_open :: "string \<Rightarrow> string \<Rightarrow> string option"
  db_ping :: "string option"
  db_config :: "string \<Rightarrow> string \<Rightarrow> fetched"
  db_rows :: "string \<Rightarrow> (string \<times> string) result_set"
  db_latest :: "string \<Rightarrow> (time \<times> string) option res"
  db_changes :: "string \<Rightarrow> sql_arg list \<Rightarrow> inc_row result_set"

record 'c SQLSource = "'c source" +
  sqDriver :: string
  sqDSN :: string
  sqTable :: string
  sqKeyColumn :: string
  sqConfigColumn :: string
  sqPollInterval :: duration
  sqMaxOpenConns :: int
  sqMaxIdleConns :: int
  sqConnMaxLifetime :: duration
  sqMaxCacheSize :: int
  sqInitialLoadTimeout :: duration
  sqRefreshMode :: string
  sqUpdatedAtColumn :: string
  sqDeletedAtColumn :: string
  sqFullRefreshInterval :: duration
  incCursorTime :: time
  incCursorKey :: string
  lastFullRefresh :: time

text \<open>The zero \<open>time.Time\<close>, January 1 of the year 1, in nanoseconds from the epoch.\<close>

definition zeroTime :: time where
  "zeroTime = - 62135596800000000000"

definition refreshModeFull :: string where
  "refreshModeFull = ''full''"

definition refreshModeIncremental :: string where
  "refreshModeIncremental = ''incremental''"

definition sql_AdminType :: string where
  "sql_AdminType = ''sql''"

subsection \<open>Identifiers\<close>

definition ident_char :: "char \<Rightarrow> bool" where
  "ident_char c \<longleftrightarrow> (CHR ''A'' \<le> c \<and> c \<le> CHR ''Z'') \<or> (CHR ''a'' \<le> c \<and> c \<le> CHR ''z'') \<or>
     (CHR ''0'' \<le> c \<and> c \<le> CHR ''9'') \<or> c = CHR ''_''"

text \<open>The pattern as the automaton of it; the flag says that the present segment has a character.\<close>

fun ident_from :: "bool \<Rightarrow> string \<Rightarrow> bool" where
  "ident_from nonempty [] = nonempty"
| "ident_from nonempty (c # cs) =
     (if ident_char c then ident_from True cs
      else c = CHR ''.'' \<and> nonempty \<and> ident_from False cs)"

definition sqlIdentPattern :: "string \<Rightarrow> bool" where
  "sqlIdentPattern v = ident_from False v"

fun empty_segment :: "string list \<Rightarrow> bool" where
  "empty_segment [] = False"
| "empty_segment (seg # segs) = (if seg = [] then True else empty_segment segs)"

definition validateSQLIdentifier :: "string \<Rightarrow> string \<Rightarrow> sql_error option" where
  "validateSQLIdentifier name val =
     (if val = [] then Some (Text (name @ '' must not be empty''))
      else if \<not> sqlIdentPattern val then Some (Quoted (name @ '' contains invalid characters: '') val)
      else if empty_segment (Split val (CHR ''.''))
      then Some (Quoted (name @ '' contains empty identifier segment: '') val)
      else None)"

subsection \<open>The queries\<close>

definition get_query :: "('c, 'x) SQLSource_scheme \<Rightarrow> string" where
  "get_query s =
     (let query = ''SELECT '' @ sqConfigColumn s @ '' FROM '' @ sqTable s @ '' WHERE '' @ sqKeyColumn s @ '' = $1'';
          query = (if sqDeletedAtColumn s \<noteq> [] then query @ '' AND '' @ sqDeletedAtColumn s @ '' IS NULL'' else query)
      in if sqDriver s = ''mysql'' then
           let query = ''SELECT '' @ sqConfigColumn s @ '' FROM '' @ sqTable s @ '' WHERE '' @ sqKeyColumn s @ '' = ?''
           in if sqDeletedAtColumn s \<noteq> [] then query @ '' AND '' @ sqDeletedAtColumn s @ '' IS NULL'' else query
         else query)"

definition list_query :: "('c, 'x) SQLSource_scheme \<Rightarrow> string" where
  "list_query s =
     (let query = ''SELECT '' @ sqKeyColumn s @ '', '' @ sqConfigColumn s @ '' FROM '' @ sqTable s
      in if sqDeletedAtColumn s \<noteq> [] then query @ '' WHERE '' @ sqDeletedAtColumn s @ '' IS NULL'' else query)"

definition latest_query :: "('c, 'x) SQLSource_scheme \<Rightarrow> string" where
  "latest_query s =
     ''SELECT '' @ sqUpdatedAtColumn s @ '', '' @ sqKeyColumn s @ '' FROM '' @ sqTable s @ '' ORDER BY '' @
     sqUpdatedAtColumn s @ '' DESC, '' @ sqKeyColumn s @ '' DESC LIMIT 1''"

text \<open>The query of the incremental refresh for the place holders of either driver.\<close>

definition changes_text :: "('c, 'x) SQLSource_scheme \<Rightarrow> string \<Rightarrow> string \<Rightarrow> string" where
  "changes_text s ph1 ph2 =
     ''SELECT '' @ sqKeyColumn s @ '', '' @ sqConfigColumn s @ '', '' @ sqUpdatedAtColumn s @
     (if sqDeletedAtColumn s \<noteq> [] then '', '' @ sqDeletedAtColumn s else '''') @
     '' FROM '' @ sqTable s @ '' WHERE ('' @ sqUpdatedAtColumn s @ '' > '' @ ph1 @ '') OR ('' @
     sqUpdatedAtColumn s @ '' = '' @ ph1 @ '' AND '' @ sqKeyColumn s @ '' > '' @ ph2 @ '') ORDER BY '' @
     sqUpdatedAtColumn s @ '' ASC, '' @ sqKeyColumn s @ '' ASC''"

definition changes_query :: "('c, 'x) SQLSource_scheme \<Rightarrow> string \<times> sql_arg list" where
  "changes_query s =
     (let t = ArgTime (incCursorTime s); k = ArgString (incCursorKey s) in
      if sqDriver s = ''mysql'' then (changes_text s ''?'' ''?'', [t, t, k])
      else (changes_text s ''$1'' ''$2'', [t, k]))"

subsection \<open>Loading and refreshing\<close>

definition sql_initialLoad :: "'c route_lru \<Rightarrow> codec \<Rightarrow> sql_db \<Rightarrow> ('c, 'x) SQLSource_scheme \<Rightarrow>
    string option \<times> ('c, 'x) SQLSource_scheme" where
  "sql_initialLoad ops cd db s =
     (case db_rows db (list_query s) of
        Inl err \<Rightarrow> (Some (''failed to query configs: '' @ err), s)
      | Inr (rows, rowsErr) \<Rightarrow>
          let s1 = fst (foldl (load_row ops cd) (s, {}) rows) in
          (case rowsErr of
             Some err \<Rightarrow> (Some (''row iteration error: '' @ err), s1)
           | None \<Rightarrow> (None, s1)))"

definition refreshFull :: "'c route_lru \<Rightarrow> codec \<Rightarrow> sql_db \<Rightarrow> ('c, 'x) SQLSource_scheme \<Rightarrow>
    string option \<times> ('c, 'x) SQLSource_scheme" where
  "refreshFull ops cd db s =
     (case db_rows db (list_query s) of
        Inl err \<Rightarrow> (Some (''failed to query configs: '' @ err), s)
      | Inr (rows, rowsErr) \<Rightarrow>
          (rowsErr, reload ops cd rows s))"

definition initIncrementalCursor :: "sql_db \<Rightarrow> time \<Rightarrow> ('c, 'x) SQLSource_scheme \<Rightarrow>
    string option \<times> ('c, 'x) SQLSource_scheme" where
  "initIncrementalCursor db now s =
     (case db_latest db (latest_query s) of
        Inl err \<Rightarrow> (Some err, s)
      | Inr None \<Rightarrow> (None, s)
      | Inr (Some (ts, key)) \<Rightarrow>
          (None, s\<lparr>incCursorTime := ts, incCursorKey := key,
                   lastFullRefresh := (if lastFullRefresh s = zeroTime then now else lastFullRefresh s)\<rparr>))"

definition is_later :: "time \<Rightarrow> string \<Rightarrow> time \<Rightarrow> string \<Rightarrow> bool" where
  "is_later t k t0 k0 \<longleftrightarrow> t0 < t \<or> (t = t0 \<and> k0 < k)"

text \<open>One row of the incremental query: the state and the largest position so far.\<close>

fun inc_step :: "'c route_lru \<Rightarrow> codec \<Rightarrow> ('c, 'x) SQLSource_scheme \<times> time \<times> string \<Rightarrow> inc_row option \<Rightarrow>
    ('c, 'x) SQLSource_scheme \<times> time \<times> string" where
  "inc_step ops cd (s, maxTime, maxKey) None = (s, maxTime, maxKey)"
| "inc_step ops cd (s, maxTime, maxKey) (Some row) =
     (let key = irKey row;
          advanced = (if is_later (irUpdatedAt row) key maxTime maxKey then (irUpdatedAt row, key) else (maxTime, maxKey))
      in if sqDeletedAtColumn s \<noteq> [] \<and> irDeletedAt row \<noteq> None
         then (s\<lparr>src_cache := rc_Delete ops (src_cache s) key\<rparr>, advanced)
         else case ParseRouteConfig cd (irConfig row) of
           Inl e \<Rightarrow> (s\<lparr>src_parseErrors := Suc (src_parseErrors s)\<rparr>, maxTime, maxKey)
         | Inr config \<Rightarrow> (s\<lparr>src_cache := rc_Set ops (src_cache s) key config\<rparr>, advanced))"

definition refreshIncremental :: "'c route_lru \<Rightarrow> codec \<Rightarrow> sql_db \<Rightarrow> ('c, 'x) SQLSource_scheme \<Rightarrow>
    string option \<times> ('c, 'x) SQLSource_scheme" where
  "refreshIncremental ops cd db s =
     (let cursorTime = incCursorTime s; cursorKey = incCursorKey s; (query, args) = changes_query s in
      case db_changes db query args of
        Inl err \<Rightarrow> (Some (''failed to query configs: '' @ err), s)
      | Inr (rows, rowsErr) \<Rightarrow>
          let (s1, maxTime, maxKey) = foldl (inc_step ops cd) (s, cursorTime, cursorKey) rows in
          case rowsErr of
            Some err \<Rightarrow> (Some err, s1)
          | None \<Rightarrow>
              if is_later maxTime maxKey cursorTime cursorKey
              then (None, s1\<lparr>incCursorTime := maxTime, incCursorKey := maxKey\<rparr>) else (None, s1))"

text \<open>The clock is read before a due full refresh (\<open>since\<close>) and after it (\<open>now\<close>).\<close>

definition refreshOnce :: "'c route_lru \<Rightarrow> codec \<Rightarrow> sql_db \<Rightarrow> time \<Rightarrow> time \<Rightarrow> ('c, 'x) SQLSource_scheme \<Rightarrow>
    sql_error option \<times> ('c, 'x) SQLSource_scheme" where
  "refreshOnce ops cd db since now s =
     (let full = (case refreshFull ops cd db s of
                    (None, s1) \<Rightarrow> (None, s1\<lparr>lastFullRefresh := now\<rparr>)
                  | (Some e, s1) \<Rightarrow> (Some (Text e), s1))
      in if sqRefreshMode s = refreshModeFull then full
         else if sqRefreshMode s = refreshModeIncremental then
           if 0 < sqFullRefreshInterval s \<and>
              (lastFullRefresh s = zeroTime \<or> sqFullRefreshInterval s \<le> since - lastFullRefresh s)
           then full
           else (case refreshIncremental ops cd db s of (e, s1) \<Rightarrow> (map_option Text e, s1))
         else (Some (Quoted ''invalid refresh_mode: '' (sqRefreshMode s)), s))"

fun pollLoop :: "'c route_lru \<Rightarrow> codec \<Rightarrow> ('c, 'x) SQLSource_scheme \<Rightarrow> (sql_db \<times> time \<times> time) list \<Rightarrow>
    ('c, 'x) SQLSource_scheme" where
  "pollLoop ops cd s [] = s"
| "pollLoop ops cd s ((db, since, now) # ticks) =
     (case refreshOnce ops cd db since now s of
        (Some e, s1) \<Rightarrow> pollLoop ops cd (s1\<lparr>src_healthy := False\<rparr>) ticks
      | (None, s1) \<Rightarrow> pollLoop ops cd (s1\<lparr>src_healthy := True\<rparr>) ticks)"

subsection \<open>Provision, Cleanup and Get\<close>

definition sql_defaults :: "('c, 'x) SQLSource_scheme \<Rightarrow> ('c, 'x) SQLSource_scheme" where
  "sql_defaults s =
     s\<lparr>sqTable := (if sqTable s = [] then ''routing_configs'' else sqTable s),
       sqKeyColumn := (if sqKeyColumn s = [] then ''routing_key'' else sqKeyColumn s),
       sqConfigColumn := (if sqConfigColumn s = [] then ''config'' else sqConfigColumn s),
       sqPollInterval := (if sqPollInterval s = 0 then 30000000000 else sqPollInterval s),
       sqMaxOpenConns := (if sqMaxOpenConns s \<le> 0 then 10 else sqMaxOpenConns s),
       sqMaxIdleConns := (if sqMaxIdleConns s \<le> 0 then 5 else sqMaxIdleConns s),
       sqConnMaxLifetime := (if sqConnMaxLifetime s = 0 then 3600000000000 else sqConnMaxLifetime s),
       sqMaxCacheSize := (if sqMaxCacheSize s \<le> 0 then 10000 else sqMaxCacheSize s),
       sqRefreshMode := (if sqRefreshMode s = [] then refreshModeFull else sqRefreshMode s),
       sqUpdatedAtColumn := (if sqUpdatedAtColumn s = [] then ''updated_at'' else sqUpdatedAtColumn s)\<rparr>"

definition validate_columns :: "('c, 'x) SQLSource_scheme \<Rightarrow> sql_error option" where
  "validate_columns s =
     (case validateSQLIdentifier ''table'' (sqTable s) of
        Some e \<Rightarrow> Some e
      | None \<Rightarrow>
          (case validateSQLIdentifier ''key_column'' (sqKeyColumn s) of
             Some e \<Rightarrow> Some e
           | None \<Rightarrow> validateSQLIdentifier ''config_column'' (sqConfigColumn s)))"

text \<open>What \<open>Provision\<close> does once the database answers: both loads log and record their errors only.\<close>

definition provision_load :: "'c route_lru \<Rightarrow> codec \<Rightarrow> sql_db \<Rightarrow> time \<Rightarrow> ('c, 'x) SQLSource_scheme \<Rightarrow>
    ('c, 'x) SQLSource_scheme" where
  "provision_load ops cd db now s =
     (let noted = (\<lambda>(err, s'). case err of None \<Rightarrow> s' | Some e \<Rightarrow> s'\<lparr>src_lastError := e\<rparr>);
          s1 = noted (sql_initialLoad ops cd db s)
      in if sqRefreshMode s = refreshModeIncremental then noted (initIncrementalCursor db now s1) else s1)"

definition sql_Provision :: "'c route_lru \<Rightarrow> codec \<Rightarrow> sql_db \<Rightarrow> time \<Rightarrow> 'd \<Rightarrow> 'd adminRegistry \<Rightarrow>
    ('c, 'x) SQLSource_scheme \<Rightarrow> sql_error option \<times> 'd adminRegistry \<times> ('c, 'x) SQLSource_scheme" where
  "sql_Provision ops cd db now self g s0 =
     (let s = sql_defaults s0 in
      case validate_columns s of
        Some e \<Rightarrow> (Some e, g, s)
      | None \<Rightarrow>
          let s1 = s\<lparr>src_cache := NewRouteCache ops (sqMaxCacheSize s)\<rparr> in
          case db_open db (sqDriver s) (sqDSN s) of
            Some err \<Rightarrow> (Some (Text (''failed to open database: '' @ err)), g, s1)
          | None \<Rightarrow>
              case db_ping db of
                Some err \<Rightarrow> (Some (Text (''failed to ping database: '' @ err)), g, s1)
              | None \<Rightarrow>
                  let s2 = provision_load ops cd db now (s1\<lparr>src_healthy := True\<rparr>);
                      (name, g') = RegisterAdminSource g (Some self) sql_AdminType ''''
                  in (None, g', s2\<lparr>src_adminName := name\<rparr>))"

definition sql_Cleanup :: "'d adminRegistry \<Rightarrow> ('c, 'x) SQLSource_scheme \<Rightarrow> 'd adminRegistry \<times> ('c, 'x) SQLSource_scheme" where
  "sql_Cleanup g s = (UnregisterAdminSource g (src_adminName s), s\<lparr>src_adminName := ''''\<rparr>)"

text \<open>
  \<open>Get\<close>. An error of the query marks the source as unhealthy until the next refresh. A value
  that does not parse is answered with nothing; the error that the function under
  \<open>singleflight\<close> stores is cleared when it returns.
\<close>

definition sql_fetch :: "'c route_lru \<Rightarrow> codec \<Rightarrow> (nat \<Rightarrow> time) \<Rightarrow> sql_db \<Rightarrow> ('c, 'x) SQLSource_scheme \<Rightarrow> string \<Rightarrow>
    RouteConfig option res \<times> ('c, 'x) SQLSource_scheme" where
  "sql_fetch ops cd ts db s key =
     soft_fetch True (\<lambda>e. ''failed to query config: '' @ e) ops cd ts (db_config db (get_query s)) s key"

definition sql_Get :: "'c route_lru \<Rightarrow> codec \<Rightarrow> (nat \<Rightarrow> time) \<Rightarrow> sql_db \<Rightarrow> ('c, 'x) SQLSource_scheme \<Rightarrow> string \<Rightarrow>
    RouteConfig option res \<times> ('c, 'x) SQLSource_scheme" where
  "sql_Get ops cd ts db s key = look_with ops ts (sql_fetch ops cd ts db) s key"

definition sql_Healthy :: "('c, 'x) SQLSource_scheme \<Rightarrow> bool" where
  "sql_Healthy s = src_healthy s"

definition sql_AdminLastError :: "('c, 'x) SQLSource_scheme \<Rightarrow> string" where
  "sql_AdminLastError s = src_lastError s"

definition sql_AdminListRoutes :: "'c route_lru \<Rightarrow> ('c, 'x) SQLSource_scheme \<Rightarrow> AdminRouteInfo list" where
  "sql_AdminListRoutes ops s = src_AdminListRoutes ops id s"

definition sql_AdminCacheStats :: "'c route_lru \<Rightarrow> ('c, 'x) SQLSource_scheme \<Rightarrow> AdminCacheStats" where
  "sql_AdminCacheStats ops s = src_AdminCacheStats ops s"

definition sql_AdminClearCache :: "'c route_lru \<Rightarrow> ('c, 'x) SQLSource_scheme \<Rightarrow> ('c, 'x) SQLSource_scheme" where
  "sql_AdminClearCache ops s = src_AdminClearCache ops s"

subsection \<open>Validation and the table\<close>

definition sql_Validate :: "('c, 'x) SQLSource_scheme \<Rightarrow> sql_error option" where
  "sql_Validate s =
     (if sqDriver s = [] then Some (Text ''driver is required'')
      else if sqDriver s \<noteq> ''mysql'' \<and> sqDriver s \<noteq> ''postgres''
      then Some (Text (''driver must be '' @ quoted ''mysql'' @ '' or '' @ quoted ''postgres''))
      else if sqDSN s = [] then Some (Text ''dsn is required'')
      else if sqPollInterval s < 0 then Some (Text ''poll_interval must be non-negative'')
      else if sqMaxOpenConns s < 0 then Some (Text ''max_open_conns must be non-negative'')
      else if sqMaxIdleConns s < 0 then Some (Text ''max_idle_conns must be non-negative'')
      else if sqMaxCacheSize s < 0 then Some (Text ''max_cache_size must be non-negative'')
      else if sqRefreshMode s \<noteq> [] \<and> sqRefreshMode s \<noteq> refreshModeFull \<and> sqRefreshMode s \<noteq> refreshModeIncremental
      then Some (Text (''refresh_mode must be '' @ quoted refreshModeFull @ '' or '' @ quoted refreshModeIncremental))
      else if sqFullRefreshInterval s < 0 then Some (Text ''full_refresh_interval must be non-negative'')
      else if sqRefreshMode s = refreshModeIncremental then
        if sqUpdatedAtColumn s = []
        then Some (Text (''updated_at_column is required when refresh_mode is '' @ quoted refreshModeIncremental))
        else case validateSQLIdentifier ''updated_at_column'' (sqUpdatedAtColumn s) of
          Some e \<Rightarrow> Some e
        | None \<Rightarrow>
            if sqDeletedAtColumn s \<noteq> [] then validateSQLIdentifier ''deleted_at_column'' (sqDeletedAtColumn s) else None
      else None)"

definition nl :: string where
  "nl = [CHR 0x0A]"

definition CreateTableSQL :: "('c, 'x) SQLSource_scheme \<Rightarrow> string" where
  "CreateTableSQL s =
     (let t = sqTable s; k = sqKeyColumn s; c = sqConfigColumn s in
      if sqDriver s = ''mysql'' then
        nl @ ''CREATE TABLE IF NOT EXISTS '' @ t @ '' ('' @ nl @
        ''    id INT AUTO_INCREMENT PRIMARY KEY,'' @ nl @
        ''    '' @ k @ '' VARCHAR(255) NOT NULL UNIQUE,'' @ nl @
        ''    '' @ c @ '' JSON NOT NULL,'' @ nl @
        ''    created_at TIMESTAMP DEFAULT CURRENT_TIMESTAMP,'' @ nl @
        ''    updated_at TIMESTAMP DEFAULT CURRENT_TIMESTAMP ON UPDATE CURRENT_TIMESTAMP,'' @ nl @
        ''    INDEX idx_'' @ k @ '' ('' @ k @ '')'' @ nl @
        '') ENGINE=InnoDB DEFAULT CHARSET=utf8mb4;'' @ nl
      else
        nl @ ''CREATE TABLE IF NOT EXISTS '' @ t @ '' ('' @ nl @
        ''    id SERIAL PRIMARY KEY,'' @ nl @
        ''    '' @ k @ '' VARCHAR(255) NOT NULL UNIQUE,'' @ nl @
        ''    '' @ c @ '' JSONB NOT NULL,'' @ nl @
        ''    created_at TIMESTAMP DEFAULT CURRENT_TIMESTAMP,'' @ nl @
        ''    updated_at TIMESTAMP DEFAULT CURRENT_TIMESTAMP'' @ nl @
        '');'' @ nl @
        ''CREATE INDEX IF NOT EXISTS idx_'' @ t @ ''_'' @ k @ '' ON '' @ t @ '' ('' @ k @ '');'' @ nl)"

subsection \<open>Lemmas on identifiers\<close>

lemma ident_from_chars: "ident_from b v \<Longrightarrow> x \<in> set v \<Longrightarrow> ident_char x \<or> x = CHR ''.''"
  by (induction b v rule: ident_from.induct) (auto split: if_splits)

lemma dot_no_ident [simp]: "\<not> ident_char (CHR ''.'')"
  by code_simp

lemma empty_segment_iff: "empty_segment segs \<longleftrightarrow> [] \<in> set segs"
  by (induction segs) auto

text \<open>The pattern is the grammar of non-empty segments of identifier characters with dots between them.\<close>

lemma ident_from_segments:
  "ident_from b v \<longleftrightarrow>
     (case Split v (CHR ''.'') of
        [] \<Rightarrow> False
      | p # ps \<Rightarrow> (b \<or> p \<noteq> []) \<and> list_all ident_char p \<and> list_all (\<lambda>q. q \<noteq> [] \<and> list_all ident_char q) ps)"
proof (induction b v rule: ident_from.induct)
  case (1 b)
  then show ?case by simp
next
  case (2 b c cs)
  obtain p ps where p: "Split cs (CHR ''.'') = p # ps" by (cases "Split cs (CHR ''.'')") auto
  show ?case using 2 p by (cases "ident_char c"; cases "c = CHR ''.''") auto
qed

lemma validate_ok_iff:
  "validateSQLIdentifier name v = None \<longleftrightarrow>
     (\<forall>seg \<in> set (Split v (CHR ''.'')). seg \<noteq> [] \<and> list_all ident_char seg)"
proof -
  obtain p ps where p: "Split v (CHR ''.'') = p # ps" by (cases "Split v (CHR ''.'')") auto
  have "v = [] \<longrightarrow> p = []" using p by auto
  then show ?thesis
    using p by (auto simp: validateSQLIdentifier_def sqlIdentPattern_def ident_from_segments empty_segment_iff list_all_iff)
qed

subsection \<open>Properties of the SQL source\<close>

text \<open>
  C25: a full refresh makes the cache the table. If the cached keys and the keys of the rows
  fit into the cache together, then afterwards the cache answers, for every key, exactly what
  its row stands for: keys without a row are gone, and so are keys whose row does not parse. This
  is so for the rows that were delivered, whether or not the iteration ended in an error; the
  error is returned.
\<close>

theorem sql_full_refresh_exact:
  assumes "route_lru ops cap ok" and "src_inv cap ok s" and "db_rows db (list_query s) = Inr (rows, rowsErr)"
    and "distinct (map fst (scanned rows))"
    and "card (set (rc_Keys ops (src_cache s)) \<union> fst ` set (scanned rows)) \<le> cap (rc_cache (src_cache s))"
    and "(err, s') = refreshFull ops cd db s"
  shows "err = rowsErr \<and> src_inv cap ok s' \<and>
    src_view ops now s' = (\<lambda>k. case map_of (scanned rows) k of None \<Rightarrow> None | Some v \<Rightarrow> config_in cd v)"
proof -
  have "err = rowsErr" "s' = reload ops cd rows s"
    using assms(3,6) by (simp_all add: refreshFull_def)
  then show ?thesis using reload_exact[OF assms(1,2,4,5)] by simp
qed

definition demo_sql :: "RouteConfig option list_lru SQLSource" where
  "demo_sql = \<lparr>src_cache = NewRouteCache list_lru_ops 3, src_healthy = True, src_lastError = '''',
     src_adminName = '''', src_parseErrors = 0, sqDriver = ''postgres'', sqDSN = ''dsn'', sqTable = ''routes'',
     sqKeyColumn = ''k'', sqConfigColumn = ''c'', sqPollInterval = 30, sqMaxOpenConns = 10, sqMaxIdleConns = 5,
     sqConnMaxLifetime = 1, sqMaxCacheSize = 3, sqInitialLoadTimeout = 0, sqRefreshMode = ''incremental'',
     sqUpdatedAtColumn = ''updated_at'', sqDeletedAtColumn = ''deleted_at'', sqFullRefreshInterval = 0,
     incCursorTime = 5, incCursorKey = ''k'', lastFullRefresh = 1\<rparr>"

text \<open>A database that answers from a list of rows.\<close>

definition demo_db :: "inc_row list \<Rightarrow> sql_db" where
  "demo_db rows =
     \<lparr>db_open = (\<lambda>_ _. None), db_ping = None,
      db_config = (\<lambda>_ k. case map_of (map (\<lambda>r. (irKey r, irConfig r)) (filter (\<lambda>r. irDeletedAt r = None) rows)) k of
                     None \<Rightarrow> Missing | Some v \<Rightarrow> Value v),
      db_rows = (\<lambda>_. Inr (map (\<lambda>r. Some (irKey r, irConfig r)) (filter (\<lambda>r. irDeletedAt r = None) rows), None)),
      db_latest = (\<lambda>_. Inr None),
      db_changes = (\<lambda>_ args. case args of
          [ArgTime t, ArgString k] \<Rightarrow> Inr (map Some (filter (\<lambda>r. is_later (irUpdatedAt r) (irKey r) t k) rows), None)
        | _ \<Rightarrow> Inl ''arguments'')\<rparr>"

definition demo_row :: inc_row where
  "demo_row = \<lparr>irKey = ''a'', irConfig = ''up:80'', irUpdatedAt = 7, irDeletedAt = None\<rparr>"

lemma demo_sql_inv: "src_inv ll_cap ll_ok demo_sql"
  by (simp add: src_inv_def demo_sql_def list_rc.rc_inv_new)

lemma demo_sql_empty: "lru_peek list_lru_ops (rc_cache (src_cache demo_sql)) k = None"
  by (simp add: demo_sql_def NewRouteCache_def list_lru.new_peek)

theorem sql_full_refresh_exact_witness:
  "src_view list_lru_ops 9 (snd (refreshFull list_lru_ops null_codec (demo_db [demo_row]) demo_sql)) ''a'' =
     Some (empty_config\<lparr>cUpstream := ''up:80''\<rparr>)"
proof -
  have rows: "db_rows (demo_db [demo_row]) (list_query demo_sql) = Inr ([Some (''a'', ''up:80'')], None)"
    by (simp add: demo_db_def demo_row_def)
  have room: "card (set (rc_Keys list_lru_ops (src_cache demo_sql)) \<union> fst ` set (scanned [Some (''a'', ''up:80'')]))
      \<le> ll_cap (rc_cache (src_cache demo_sql))"
    by code_simp
  show ?thesis
    using sql_full_refresh_exact[OF list_rc.route_lru_axioms demo_sql_inv rows _ room prod.collapse, where cd = null_codec and now = 9]
    by (simp add: config_in_def demo_parse)
qed

subsection \<open>The incremental refresh against a changing table\<close>

text \<open>
  A table is a list of rows with distinct keys. A row is alive unless the soft-deletion column
  is configured and set; \<open>live_map\<close> is what the lookups should see. \<open>answers\<close> is what the
  database promises for the queries of a source: the lookup and the listing read the live rows, and
  the query of the incremental refresh returns the rows beyond the cursor.
\<close>

definition alive :: "('c, 'x) SQLSource_scheme \<Rightarrow> inc_row \<Rightarrow> bool" where
  "alive s r \<longleftrightarrow> sqDeletedAtColumn s = [] \<or> irDeletedAt r = None"

definition live_map :: "('c, 'x) SQLSource_scheme \<Rightarrow> inc_row list \<Rightarrow> (string \<rightharpoonup> string)" where
  "live_map s tab = map_of (map (\<lambda>r. (irKey r, irConfig r)) (filter (alive s) tab))"

definition beyond :: "('c, 'x) SQLSource_scheme \<Rightarrow> inc_row \<Rightarrow> bool" where
  "beyond s r \<longleftrightarrow> is_later (irUpdatedAt r) (irKey r) (incCursorTime s) (incCursorKey s)"

definition answers :: "sql_db \<Rightarrow> ('c, 'x) SQLSource_scheme \<Rightarrow> inc_row list \<Rightarrow> bool" where
  "answers db s tab \<longleftrightarrow>
     (\<forall>k. db_config db (get_query s) k = backend_of (live_map s tab) k) \<and>
     db_rows db (list_query s) = Inr (map (\<lambda>r. Some (irKey r, irConfig r)) (filter (alive s) tab), None) \<and>
     (\<exists>rows. db_changes db (fst (changes_query s)) (snd (changes_query s)) = Inr (map Some rows, None) \<and>
        set rows = {r \<in> set tab. beyond s r})"

definition put_row :: "inc_row \<Rightarrow> inc_row list \<Rightarrow> inc_row list" where
  "put_row r tab = r # filter (\<lambda>q. irKey q \<noteq> irKey r) tab"

text \<open>
  The histories of an incremental source: rows are written with a time stamp beyond the cursor,
  requests are looked up, polls succeed, and polls fail because the database is down.
\<close>

inductive sql_history :: "('c \<Rightarrow> nat) \<Rightarrow> ('c \<Rightarrow> bool) \<Rightarrow> 'c route_lru \<Rightarrow> codec \<Rightarrow> inc_row list \<Rightarrow> ('c, 'x) SQLSource_scheme \<Rightarrow> bool" for cap ok ops cd where
  hist_start: "src_inv cap ok s \<Longrightarrow> distinct (map irKey tab) \<Longrightarrow> \<forall>r \<in> set tab. readable cd (irConfig r) \<Longrightarrow>
     coherent ops cd (live_map s tab) s \<Longrightarrow> sqRefreshMode s = refreshModeIncremental \<Longrightarrow> sql_history cap ok ops cd tab s"
| hist_write: "sql_history cap ok ops cd tab s \<Longrightarrow> beyond s r \<Longrightarrow> readable cd (irConfig r) \<Longrightarrow>
     sql_history cap ok ops cd (put_row r tab) s"
| hist_look: "sql_history cap ok ops cd tab s \<Longrightarrow> answers db s tab \<Longrightarrow> sql_Get ops cd ts db s k = (res, s') \<Longrightarrow>
     sql_history cap ok ops cd tab s'"
| hist_tick: "sql_history cap ok ops cd tab s \<Longrightarrow> answers db s tab \<Longrightarrow>
     sql_history cap ok ops cd tab (pollLoop ops cd s [(db, since, now)])"
| hist_down: "sql_history cap ok ops cd tab s \<Longrightarrow> \<forall>q. \<exists>e. db_rows db q = Inl e \<Longrightarrow> \<forall>q args. \<exists>e. db_changes db q args = Inl e \<Longrightarrow>
     sql_history cap ok ops cd tab (pollLoop ops cd s [(db, since, now)])"

lemma not_later_refl [simp]: "\<not> is_later t k t k"
  by (simp add: is_later_def)

lemma not_later_trans: "\<not> is_later t k t1 k1 \<Longrightarrow> \<not> is_later t1 k1 t2 k2 \<Longrightarrow> \<not> is_later t k t2 k2"
  by (auto simp: is_later_def)

lemma later_asym: "is_later t k t1 k1 \<Longrightarrow> \<not> is_later t1 k1 t k"
  by (auto simp: is_later_def)

lemma live_map_SomeD: "live_map s tab k = Some v \<Longrightarrow> \<exists>r \<in> set tab. alive s r \<and> irKey r = k \<and> irConfig r = v"
  by (auto simp: live_map_def dest!: map_of_SomeD)

lemma live_map_row:
  assumes "distinct (map irKey tab)" and "r \<in> set tab" and "alive s r"
  shows "live_map s tab (irKey r) = Some (irConfig r)"
proof -
  have "distinct (map fst (map (\<lambda>r. (irKey r, irConfig r)) (filter (alive s) tab)))"
    using assms(1) by (simp add: comp_def distinct_map_filter)
  then show ?thesis using assms(2,3) by (auto simp: live_map_def intro!: map_of_is_SomeI)
qed

lemma live_map_put: "k \<noteq> irKey r \<Longrightarrow> live_map s (put_row r tab) k = live_map s tab k"
  by (induction tab) (auto simp: live_map_def put_row_def split: if_splits)

lemma same_column: "sqDeletedAtColumn s' = sqDeletedAtColumn s \<Longrightarrow> alive s' = alive s \<and> live_map s' = live_map s"
proof -
  assume "sqDeletedAtColumn s' = sqDeletedAtColumn s"
  then have "alive s' = alive s" by (simp add: alive_def fun_eq_iff)
  moreover from this have "live_map s' tab = live_map s tab" for tab by (simp only: live_map_def)
  ultimately show ?thesis by blast
qed

lemma same_more:
  assumes "source.more s' = source.more s"
  shows "incCursorTime s' = incCursorTime s" "incCursorKey s' = incCursorKey s" "lastFullRefresh s' = lastFullRefresh s"
    "sqDeletedAtColumn s' = sqDeletedAtColumn s" "sqRefreshMode s' = sqRefreshMode s"
    "alive s' = alive s" "live_map s' = live_map s" "beyond s' = beyond s"
proof -
  show f: "incCursorTime s' = incCursorTime s" "incCursorKey s' = incCursorKey s" "lastFullRefresh s' = lastFullRefresh s"
    "sqDeletedAtColumn s' = sqDeletedAtColumn s" "sqRefreshMode s' = sqRefreshMode s"
    using assms by (cases s; cases s'; simp)+
  show "alive s' = alive s" "live_map s' = live_map s" using same_column[OF f(4)] by simp_all
  show "beyond s' = beyond s" using f by (simp add: beyond_def fun_eq_iff)
qed

context route_lru
begin

lemma inc_step_props:
  assumes "src_inv cap ok s" and "coherent_on K ops cd m s" and "readable cd (irConfig r)"
    and "alive s r \<longrightarrow> m (irKey r) = Some (irConfig r)" and "inc_step ops cd (s, t, k) (Some r) = (s', t', k')"
  shows "src_inv cap ok s' \<and> coherent_on (insert (irKey r) K) ops cd m s' \<and> source.more s' = source.more s \<and>
    \<not> is_later t k t' k' \<and> \<not> is_later (irUpdatedAt r) (irKey r) t' k'"
proof -
  obtain c where c: "ParseRouteConfig cd (irConfig r) = Inr c" using assms(3) by (auto simp: readable_def)
  have adv: "\<not> is_later t k t' k' \<and> \<not> is_later (irUpdatedAt r) (irKey r) t' k'"
    using assms(5) c later_asym[of "irUpdatedAt r" "irKey r" t k] by (auto simp: Let_def split: if_splits)
  show ?thesis
  proof (cases "alive s r")
    case True
    then have s': "s' = s\<lparr>src_cache := rc_Set ops (src_cache s) (irKey r) c\<rparr>"
      using assms(5) c by (auto simp: alive_def Let_def)
    have "m (irKey r) = Some (irConfig r)" using True assms(4) by simp
    from Set_coherent_on[OF assms(1,2) this c s'] show ?thesis using adv s' by simp
  next
    case False
    then have s': "s' = s\<lparr>src_cache := rc_Delete ops (src_cache s) (irKey r)\<rparr>"
      using assms(5) by (auto simp: alive_def Let_def)
    from Delete_coherent_on[OF assms(1,2) s'] show ?thesis using adv s' by simp
  qed
qed


lemma inc_steps_props:
  assumes "src_inv cap ok s" and "coherent_on K ops cd m s" and "\<forall>r \<in> set rows. readable cd (irConfig r)"
    and "\<forall>r \<in> set rows. alive s r \<longrightarrow> m (irKey r) = Some (irConfig r)"
    and "foldl (inc_step ops cd) (s, t, k) (map Some rows) = (s', t', k')"
  shows "src_inv cap ok s' \<and> coherent_on (K \<union> irKey ` set rows) ops cd m s' \<and> source.more s' = source.more s \<and>
    \<not> is_later t k t' k' \<and> (\<forall>r \<in> set rows. \<not> is_later (irUpdatedAt r) (irKey r) t' k')"
  using assms
proof (induction rows arbitrary: s K t k)
  case Nil
  then show ?case by simp
next
  case (Cons r rows)
  obtain s1 t1 k1 where st: "inc_step ops cd (s, t, k) (Some r) = (s1, t1, k1)" by (metis surj_pair)
  have r: "readable cd (irConfig r)" "alive s r \<longrightarrow> m (irKey r) = Some (irConfig r)" using Cons.prems(3,4) by simp_all
  note p = inc_step_props[OF Cons.prems(1,2) r st]
  have rest: "\<forall>q \<in> set rows. readable cd (irConfig q)" "\<forall>q \<in> set rows. alive s1 q \<longrightarrow> m (irKey q) = Some (irConfig q)"
    using Cons.prems(3,4) same_more(6)[of s1 s] p by auto
  have ih: "src_inv cap ok s' \<and> coherent_on (insert (irKey r) K \<union> irKey ` set rows) ops cd m s' \<and>
      source.more s' = source.more s1 \<and> \<not> is_later t1 k1 t' k' \<and>
      (\<forall>q \<in> set rows. \<not> is_later (irUpdatedAt q) (irKey q) t' k')"
    by (rule Cons.IH[OF _ _ rest]) (use p Cons.prems(5) st in simp_all)
  then show ?case using p not_later_trans by simp blast
qed

end

text \<open>The invariant of the histories: only keys that have a row beyond the cursor may be outdated.\<close>

definition settled_keys :: "('c, 'x) SQLSource_scheme \<Rightarrow> inc_row list \<Rightarrow> string set" where
  "settled_keys s tab = {k. \<forall>r \<in> set tab. irKey r = k \<longrightarrow> \<not> beyond s r}"

definition sql_inv :: "('c \<Rightarrow> nat) \<Rightarrow> ('c \<Rightarrow> bool) \<Rightarrow> 'c route_lru \<Rightarrow> codec \<Rightarrow> inc_row list \<Rightarrow> ('c, 'x) SQLSource_scheme \<Rightarrow> bool" where
  "sql_inv cap ok ops cd tab s \<longleftrightarrow>
     src_inv cap ok s \<and> distinct (map irKey tab) \<and> (\<forall>r \<in> set tab. readable cd (irConfig r)) \<and>
     sqRefreshMode s = refreshModeIncremental \<and> coherent_on (settled_keys s tab) ops cd (live_map s tab) s"

text \<open>A successful incremental refresh settles every key and moves the cursor past every row.\<close>

lemma refreshIncremental_settles:
  assumes "route_lru ops cap ok" and "sql_inv cap ok ops cd tab s" and "answers db s tab"
    and "refreshIncremental ops cd db s = (err, s')"
  shows "err = None \<and> src_inv cap ok s' \<and> coherent ops cd (live_map s tab) s' \<and> (\<forall>r \<in> set tab. \<not> beyond s' r) \<and>
    live_map s' = live_map s \<and> sqRefreshMode s' = sqRefreshMode s"
proof -
  obtain rows where rows: "db_changes db (fst (changes_query s)) (snd (changes_query s)) = Inr (map Some rows, None)"
    "set rows = {r \<in> set tab. beyond s r}" using assms(3) by (auto simp: answers_def)
  obtain s1 t k where f: "foldl (inc_step ops cd) (s, incCursorTime s, incCursorKey s) (map Some rows) = (s1, t, k)"
    by (metis surj_pair)
  have inv: "src_inv cap ok s" "coherent_on (settled_keys s tab) ops cd (live_map s tab) s"
    and d: "distinct (map irKey tab)" and rd: "\<forall>r \<in> set tab. readable cd (irConfig r)"
    using assms(2) by (simp_all add: sql_inv_def)
  have live: "\<forall>r \<in> set rows. alive s r \<longrightarrow> live_map s tab (irKey r) = Some (irConfig r)"
    using live_map_row[OF d] rows(2) by auto
  have rd': "\<forall>r \<in> set rows. readable cd (irConfig r)" using rd rows(2) by auto
  note p = route_lru.inc_steps_props[OF assms(1) inv rd' live f]
  have all: "settled_keys s tab \<union> irKey ` set rows = UNIV"
    using rows(2) by (auto simp: settled_keys_def)
  have s': "err = None" "s' = (if is_later t k (incCursorTime s) (incCursorKey s)
      then s1\<lparr>incCursorTime := t, incCursorKey := k\<rparr> else s1)"
    using assms(4) rows(1) f by (auto simp: refreshIncremental_def Let_def split: prod.splits if_splits)
  have cur: "incCursorTime s1 = incCursorTime s" "incCursorKey s1 = incCursorKey s"
    "sqDeletedAtColumn s1 = sqDeletedAtColumn s" "sqRefreshMode s1 = sqRefreshMode s"
    using p same_more[of s1 s] by simp_all
  have fields: "live_map s' = live_map s" "sqRefreshMode s' = sqRefreshMode s" "src_cache s' = src_cache s1"
    using s'(2) cur same_column[of s' s] by auto
  have "\<not> beyond s' r" if "r \<in> set tab" for r
  proof (cases "is_later t k (incCursorTime s) (incCursorKey s)")
    case True
    have "\<not> is_later (irUpdatedAt r) (irKey r) t k"
      using p rows(2) that not_later_trans[of "irUpdatedAt r" "irKey r" "incCursorTime s" "incCursorKey s" t k]
      by (cases "beyond s r") (auto simp: beyond_def)
    then show ?thesis using True s'(2) by (simp add: beyond_def)
  next
    case False
    have "\<not> beyond s r"
    proof
      assume b: "beyond s r"
      then have "\<not> is_later (irUpdatedAt r) (irKey r) t k" using p rows(2) that by blast
      from not_later_trans[OF this False] b show False by (simp add: beyond_def)
    qed
    then show ?thesis using False s'(2) cur by (simp add: beyond_def)
  qed
  moreover have "src_inv cap ok s'" "coherent ops cd (live_map s tab) s'"
    using p all coherent_on_frame(2,3)[OF fields(3)] by (simp_all add: coherent_on_UNIV)
  ultimately show ?thesis using s'(1) fields by blast
qed

lemma get_query_cache [simp]: "get_query (s\<lparr>src_cache := c\<rparr>) = get_query s"
  by (simp add: get_query_def Let_def)

lemma sql_Get_coherent_on:
  assumes "route_lru ops cap ok" and "src_inv cap ok s" and "coherent_on K ops cd m s"
    and "\<forall>k. db_config db (get_query s) k = backend_of m k" and "sql_Get ops cd ts db s k = (r, s')"
  shows "src_inv cap ok s' \<and> coherent_on K ops cd m s' \<and> source.more s' = source.more s \<and>
    (k \<in> K \<longrightarrow> (\<forall>c. r = Inr (Some c) \<longrightarrow> parses_to cd m k c))"
proof -
  have q: "db_config db (get_query s) = backend_of m" using assms(4) by blast
  have "look_with ops ts (soft_fetch True (\<lambda>e. ''failed to query config: '' @ e) ops cd ts (backend_of m)) s k = (r, s')"
    unfolding assms(5)[symmetric] sql_Get_def by (rule look_with_cong) (simp only: sql_fetch_def get_query_cache q)
  from route_lru.soft_Get_coherent_on[OF assms(1-3) disjI1[OF refl] this] show ?thesis .
qed

lemma full_refresh_settles:
  assumes "route_lru ops cap ok" and "sql_inv cap ok ops cd tab s" and "answers db s tab"
    and "refreshFull ops cd db s = (err, s')"
  shows "err = None \<and> src_inv cap ok s' \<and> coherent ops cd (live_map s tab) s' \<and> source.more s' = source.more s"
proof -
  let ?pairs = "map (\<lambda>r. (irKey r, irConfig r)) (filter (alive s) tab)"
  have sc: "map (\<lambda>r. Some (irKey r, irConfig r)) (filter (alive s) tab) = map Some ?pairs" by simp
  have inv: "src_inv cap ok s" and d: "distinct (map irKey tab)" using assms(2) by (simp_all add: sql_inv_def)
  have rows: "db_rows db (list_query s) = Inr (map Some ?pairs, None)" using assms(3) by (simp add: answers_def comp_def)
  have s': "err = None" "s' = reload ops cd (map Some ?pairs) s"
    using assms(4) by (simp_all add: refreshFull_def rows)
  have "\<forall>(k, v) \<in> set (scanned (map Some ?pairs)). live_map s tab k = Some v"
    unfolding scanned_simps using live_map_row[OF d] by auto
  from reload_coherent[OF assms(1) inv this s'(2)] s'(1) show ?thesis by simp
qed

text \<open>A poll on a database that answers settles every key.\<close>

lemma tick_settles:
  assumes "route_lru ops cap ok" and "sql_inv cap ok ops cd tab s" and "answers db s tab"
    and "s' = pollLoop ops cd s [(db, since, now)]"
  shows "src_inv cap ok s' \<and> coherent ops cd (live_map s tab) s' \<and> live_map s' = live_map s \<and>
    sqRefreshMode s' = refreshModeIncremental \<and> src_healthy s'"
proof -
  obtain ef sf where f: "refreshFull ops cd db s = (ef, sf)" by fastforce
  obtain ei si where i: "refreshIncremental ops cd db s = (ei, si)" by fastforce
  note fp = full_refresh_settles[OF assms(1-3) f] and ip = refreshIncremental_settles[OF assms(1-3) i]
  have mode: "sqRefreshMode s = refreshModeIncremental" "refreshModeIncremental \<noteq> refreshModeFull"
    using assms(2) by (simp_all add: sql_inv_def refreshModeIncremental_def refreshModeFull_def)
  have "s' = sf\<lparr>lastFullRefresh := now, src_healthy := True\<rparr> \<or> s' = si\<lparr>src_healthy := True\<rparr>"
    using assms(4) f i fp ip mode by (auto simp: refreshOnce_def Let_def)
  then show ?thesis
  proof
    assume s': "s' = sf\<lparr>lastFullRefresh := now, src_healthy := True\<rparr>"
    have "src_cache s' = src_cache sf" "sqDeletedAtColumn s' = sqDeletedAtColumn s" "sqRefreshMode s' = sqRefreshMode s" "src_healthy s'"
      using s' fp same_more[of sf s] by simp_all
    then show ?thesis using fp mode coherent_on_frame(2,3)[of s' sf] same_column[of s' s] by simp
  next
    assume s': "s' = si\<lparr>src_healthy := True\<rparr>"
    have "src_cache s' = src_cache si" "sqDeletedAtColumn s' = sqDeletedAtColumn si" "src_healthy s'" "sqRefreshMode s' = sqRefreshMode s"
      using s' ip by simp_all
    then show ?thesis using ip mode coherent_on_frame(2,3)[of s' si] same_column[of s' si] by simp
  qed
qed

lemma coherent_sql_inv:
  assumes "src_inv cap ok s" and "coherent ops cd (live_map s tab) s" and "distinct (map irKey tab)"
    and "\<forall>r \<in> set tab. readable cd (irConfig r)" and "sqRefreshMode s = refreshModeIncremental"
  shows "sql_inv cap ok ops cd tab s"
  using assms by (auto simp: sql_inv_def coherent_on_def coherent_def)

lemma put_row_inv:
  assumes "sql_inv cap ok ops cd tab s" and "beyond s r" and "readable cd (irConfig r)"
  shows "sql_inv cap ok ops cd (put_row r tab) s"
proof -
  have "distinct (map irKey (put_row r tab))"
    using assms(1) by (auto simp: sql_inv_def put_row_def distinct_map_filter)
  moreover have "\<forall>q \<in> set (put_row r tab). readable cd (irConfig q)"
    using assms(1,3) by (auto simp: sql_inv_def put_row_def)
  moreover have "coherent_on (settled_keys s (put_row r tab)) ops cd (live_map s (put_row r tab)) s"
  proof -
    have "k \<in> settled_keys s tab \<and> live_map s (put_row r tab) k = live_map s tab k"
      if "k \<in> settled_keys s (put_row r tab)" for k
    proof -
      have "k \<noteq> irKey r" using that assms(2) by (auto simp: settled_keys_def put_row_def)
      then show ?thesis using that live_map_put by (auto simp: settled_keys_def put_row_def)
    qed
    then show ?thesis using assms(1) by (auto simp: sql_inv_def coherent_on_def parses_to_def)
  qed
  ultimately show ?thesis using assms(1) by (simp add: sql_inv_def)
qed

lemma frame_sql_inv:
  assumes "sql_inv cap ok ops cd tab s" and "src_inv cap ok s'" and "source.more s' = source.more s"
    and "coherent_on (settled_keys s tab) ops cd (live_map s tab) s'"
  shows "sql_inv cap ok ops cd tab s'"
proof -
  have "settled_keys s' tab = settled_keys s tab" using same_more(8)[OF assms(3)] by (simp add: settled_keys_def)
  then show ?thesis using assms same_more[OF assms(3)] by (simp add: sql_inv_def)
qed

lemma history_inv:
  assumes lru: "route_lru ops cap ok" and "sql_history cap ok ops cd tab s"
  shows "sql_inv cap ok ops cd tab s"
  using assms(2)
proof (induction rule: sql_history.induct)
  case (hist_start s tab)
  then show ?case by (intro coherent_sql_inv)
next
  case (hist_write tab s r)
  then show ?case by (intro put_row_inv)
next
  case (hist_look tab s db ts k res s')
  have inv: "src_inv cap ok s" "coherent_on (settled_keys s tab) ops cd (live_map s tab) s"
    using hist_look.IH by (simp_all add: sql_inv_def)
  have "\<forall>k. db_config db (get_query s) k = backend_of (live_map s tab) k" using hist_look.hyps by (simp add: answers_def)
  from sql_Get_coherent_on[OF lru inv this hist_look.hyps(3)]
  show ?case using frame_sql_inv[OF hist_look.IH] by blast
next
  case (hist_tick tab s db since now)
  note t = tick_settles[OF lru hist_tick.IH hist_tick.hyps(2) refl, of since now]
  show ?case by (rule coherent_sql_inv) (use t hist_tick.IH in \<open>simp_all add: sql_inv_def\<close>)
next
  case (hist_down tab s db since now)
  have mode: "sqRefreshMode s = refreshModeIncremental" "refreshModeIncremental \<noteq> refreshModeFull"
    using hist_down.IH by (simp_all add: sql_inv_def refreshModeIncremental_def refreshModeFull_def)
  obtain e1 where e1: "db_rows db (list_query s) = Inl e1" using hist_down.hyps(2) by blast
  obtain e2 where e2: "db_changes db (fst (changes_query s)) (snd (changes_query s)) = Inl e2" using hist_down.hyps(3) by blast
  have "pollLoop ops cd s [(db, since, now)] = s\<lparr>src_healthy := False\<rparr>"
    using mode e1 e2 by (simp add: refreshOnce_def refreshFull_def refreshIncremental_def case_prod_beta Let_def)
  then show ?case using frame_sql_inv[OF hist_down.IH] hist_down.IH by (simp add: sql_inv_def src_inv_def coherent_on_def)
qed


lemma demo_sql_history: "sql_history ll_cap ll_ok list_lru_ops null_codec [demo_row] demo_sql"
proof -
  have "coherent list_lru_ops null_codec (live_map demo_sql []) demo_sql"
    by (simp add: coherent_def demo_sql_empty)
  then have "sql_history ll_cap ll_ok list_lru_ops null_codec [] demo_sql"
    by (intro hist_start demo_sql_inv) (simp_all add: demo_sql_def refreshModeIncremental_def)
  then have "sql_history ll_cap ll_ok list_lru_ops null_codec (put_row demo_row []) demo_sql"
    by (rule hist_write) (simp_all add: beyond_def demo_sql_def demo_row_def is_later_def readable_def demo_parse)
  then show ?thesis by (simp add: put_row_def)
qed

lemma demo_answers:
  "sqDeletedAtColumn s = ''deleted_at'' \<Longrightarrow> sqDriver s = ''postgres'' \<Longrightarrow> answers (demo_db [demo_row]) s [demo_row]"
  by (auto simp: answers_def demo_db_def demo_row_def live_map_def alive_def changes_query_def backend_of_def beyond_def)

lemma demo_tick:
  "pollLoop list_lru_ops null_codec demo_sql [(demo_db [demo_row], 8, 8)] =
     demo_sql\<lparr>src_cache := rc_Set list_lru_ops (src_cache demo_sql) ''a'' (Some (empty_config\<lparr>cUpstream := ''up:80''\<rparr>)),
       incCursorTime := 7, incCursorKey := ''a''\<rparr>"
  by (simp add: refreshOnce_def refreshIncremental_def changes_query_def demo_db_def demo_row_def is_later_def
      demo_parse demo_sql_def refreshModeIncremental_def refreshModeFull_def Let_def)


lemma validated_chars: "validateSQLIdentifier name v = None \<Longrightarrow> x \<in> set v \<Longrightarrow> ident_char x \<or> x = CHR ''.''"
  using ident_from_chars by (auto simp: validateSQLIdentifier_def sqlIdentPattern_def split: if_splits)

lemma validate_columns_cong:
  "sqTable s' = sqTable s \<Longrightarrow> sqKeyColumn s' = sqKeyColumn s \<Longrightarrow> sqConfigColumn s' = sqConfigColumn s \<Longrightarrow>
     validate_columns s' = validate_columns s"
  by (simp only: validate_columns_def)

text \<open>The characters of the fixed parts of the queries.\<close>

definition fixed_text :: string where
  "fixed_text = ''SELECT FROM WHERE AND OR ORDER BY ASC = $1 $2 ? , ( > )''"

lemma fixed_text_safe: "x \<in> set fixed_text \<Longrightarrow> ident_char x \<or> x \<in> set ''. =$?,()>''"
proof -
  have "list_all (\<lambda>x. ident_char x \<or> x \<in> set ''. =$?,()>'') fixed_text" by code_simp
  then show "x \<in> set fixed_text \<Longrightarrow> ident_char x \<or> x \<in> set ''. =$?,()>''" by (simp add: list_all_iff)
qed

lemma initialLoad_more:
  assumes "sql_initialLoad ops cd db s = (err, s')"
  shows "source.more s' = source.more s"
proof (cases "db_rows db (list_query s)")
  case (Inr p)
  obtain rows rowsErr where p: "p = (rows, rowsErr)" by (cases p)
  obtain s1 seen where l: "(s1, seen) = foldl (load_row ops cd) (s, {}) rows" by (metis surj_pair)
  have "s' = s1" using assms Inr p l[symmetric] by (auto simp: sql_initialLoad_def split: option.splits)
  then show ?thesis using load_row_more[OF l] by simp
qed (use assms in \<open>auto simp: sql_initialLoad_def\<close>)

lemma provision_load_columns:
  assumes "s' = provision_load ops cd db now s"
  shows "sqTable s' = sqTable s \<and> sqKeyColumn s' = sqKeyColumn s \<and> sqConfigColumn s' = sqConfigColumn s \<and>
    sqDeletedAtColumn s' = sqDeletedAtColumn s"
proof -
  obtain e s1 where i: "sql_initialLoad ops cd db s = (e, s1)" by fastforce
  have "sqTable s1 = sqTable s" "sqKeyColumn s1 = sqKeyColumn s" "sqConfigColumn s1 = sqConfigColumn s"
    "sqDeletedAtColumn s1 = sqDeletedAtColumn s"
    using initialLoad_more[OF i] by (cases s; cases s1; simp)+
  then show ?thesis
    using assms i by (auto simp: provision_load_def initIncrementalCursor_def Let_def split: option.splits sum.splits)
qed

lemma provision_columns:
  assumes "(None, g', s) = sql_Provision ops cd db now self g s0"
  shows "validate_columns s = None \<and> sqDeletedAtColumn s = sqDeletedAtColumn s0"
proof -
  let ?d = "sql_defaults s0"
  let ?s1 = "?d\<lparr>src_cache := NewRouteCache ops (sqMaxCacheSize ?d), src_healthy := True\<rparr>"
  have v: "validate_columns ?d = None"
    using assms by (cases "validate_columns ?d") (auto simp: sql_Provision_def)
  then obtain n where s: "s = (provision_load ops cd db now ?s1)\<lparr>src_adminName := n\<rparr>"
    using assms by (auto simp: sql_Provision_def Let_def split: option.splits prod.splits)
  have cols: "sqTable s = sqTable ?d" "sqKeyColumn s = sqKeyColumn ?d" "sqConfigColumn s = sqConfigColumn ?d"
    "sqDeletedAtColumn s = sqDeletedAtColumn ?d"
    using s provision_load_columns[OF refl, of ops cd db now ?s1] by simp_all
  have "validate_columns s = validate_columns ?d" by (rule validate_columns_cong[OF cols(1-3)])
  moreover have "sqDeletedAtColumn ?d = sqDeletedAtColumn s0" by (simp add: sql_defaults_def)
  ultimately show ?thesis using v cols(4) by simp
qed

text \<open>
  The identifiers of a provisioned source are safe. If \<open>Provision\<close> returns no error and no
  soft-deletion column is configured, then the texts of the lookup and of the listing consist of
  letters, digits, underscores, dots and the punctuation of the fixed part; and if the
  source is incremental and passes \<open>Validate\<close>, so does the text of the incremental query. No
  quote, semicolon or comment sign can come in through a name.
\<close>

theorem sql_identifiers_safe:
  assumes "(None, g', s) = sql_Provision ops cd db now self g s0" and "sqDeletedAtColumn s = []"
    and "x \<in> set (get_query s) \<union> set (list_query s) \<or>
      sqRefreshMode s = refreshModeIncremental \<and> sql_Validate s = None \<and> x \<in> set (fst (changes_query s))"
  shows "ident_char x \<or> x \<in> set ''. =$?,()>''"
proof -
  have s: "validate_columns s = None" using provision_columns[OF assms(1)] by simp
  have cols: "y \<in> set (sqTable s) \<union> set (sqKeyColumn s) \<union> set (sqConfigColumn s) \<Longrightarrow> ident_char y \<or> y = CHR ''.''" for y
    using s validated_chars by (auto simp: validate_columns_def split: option.splits)
  have upd: "sqRefreshMode s = refreshModeIncremental \<Longrightarrow> sql_Validate s = None \<Longrightarrow> y \<in> set (sqUpdatedAtColumn s) \<Longrightarrow>
      ident_char y \<or> y = CHR ''.''" for y
    using validated_chars[of "''updated_at_column''" "sqUpdatedAtColumn s"]
    by (auto simp: sql_Validate_def split: if_splits option.splits)
  show ?thesis
    using assms(3)
  proof
    assume "x \<in> set (get_query s) \<union> set (list_query s)"
    then have "x \<in> set (sqTable s) \<union> set (sqKeyColumn s) \<union> set (sqConfigColumn s) \<or> x \<in> set fixed_text"
      using assms(2) by (auto simp: get_query_def list_query_def fixed_text_def Let_def split: if_splits)
    then show ?thesis using cols fixed_text_safe by fastforce
  next
    assume a: "sqRefreshMode s = refreshModeIncremental \<and> sql_Validate s = None \<and> x \<in> set (fst (changes_query s))"
    then have "x \<in> set (sqTable s) \<union> set (sqKeyColumn s) \<union> set (sqConfigColumn s) \<union> set (sqUpdatedAtColumn s) \<or> x \<in> set fixed_text"
      using assms(2) by (auto simp: changes_query_def changes_text_def fixed_text_def Let_def split: if_splits)
    then show ?thesis using cols upd a fixed_text_safe by fastforce
  qed
qed

definition demo_plain :: "RouteConfig option list_lru SQLSource" where
  "demo_plain = demo_sql\<lparr>sqDeletedAtColumn := '''', sqRefreshMode := ''full''\<rparr>"

lemma demo_columns: "validate_columns (sql_defaults demo_plain) = None"
  by code_simp

theorem sql_identifiers_safe_witness:
  "\<exists>g s. sql_Provision list_lru_ops null_codec (demo_db []) 0 () globalAdminRegistry demo_plain = (None, g, s) \<and>
     (\<forall>x \<in> set (list_query s). ident_char x \<or> x \<in> set ''. =$?,()>'')"
proof -
  let ?p = "sql_Provision list_lru_ops null_codec (demo_db []) 0 () globalAdminRegistry demo_plain"
  have "fst ?p = None"
    by (simp add: sql_Provision_def demo_columns case_prod_beta Let_def) (simp add: demo_db_def split: prod.splits)
  then obtain g s where p: "?p = (None, g, s)" by (cases ?p) simp
  have "sqDeletedAtColumn s = []" using provision_columns[OF p[symmetric]] by (simp add: demo_plain_def)
  from sql_identifiers_safe[OF p[symmetric] this] p show ?thesis by blast
qed

text \<open>
  The soft-deletion column is not checked in full mode. Whatever text a source that passes
  \<open>Validate\<close> in the full mode is given as \<open>deleted_at_column\<close>, it still passes \<open>Validate\<close> and the
  identifier checks of \<open>Provision\<close>, and the text stands unquoted in the queries.
\<close>

theorem sql_deleted_column_unchecked:
  assumes "sql_Validate s = None" and "validate_columns s = None" and "sqRefreshMode s = refreshModeFull" and "bad \<noteq> []"
    and "s' = s\<lparr>sqDeletedAtColumn := bad\<rparr>"
  shows "sql_Validate s' = None \<and> validate_columns s' = None \<and>
    list_query s' = list_query (s\<lparr>sqDeletedAtColumn := ''''\<rparr>) @ '' WHERE '' @ bad @ '' IS NULL'' \<and>
    get_query s' = get_query (s\<lparr>sqDeletedAtColumn := ''''\<rparr>) @ '' AND '' @ bad @ '' IS NULL''"
proof -
  have mode: "sqRefreshMode s' = sqRefreshMode s" "refreshModeFull \<noteq> refreshModeIncremental" "refreshModeFull \<noteq> []"
    by (simp_all add: assms(5) refreshModeFull_def refreshModeIncremental_def)
  have "sql_Validate s' = None" using assms(1,3,5) mode by (auto simp: sql_Validate_def split: if_splits)
  moreover have "validate_columns s' = None"
    using assms(2,5) validate_columns_cong[of s' s] by simp
  ultimately show ?thesis using assms(4,5) by (simp add: list_query_def get_query_def Let_def)
qed

theorem sql_deleted_column_unchecked_witness:
  "sql_Validate (demo_plain\<lparr>sqDeletedAtColumn := ''1=1; DROP TABLE routes; --''\<rparr>) = None"
proof -
  have v: "sql_Validate demo_plain = None" by code_simp
  have c: "validate_columns demo_plain = None" by code_simp
  show ?thesis
    using sql_deleted_column_unchecked[OF v c _ _ refl, of "''1=1; DROP TABLE routes; --''"]
    by (simp add: demo_plain_def refreshModeFull_def)
qed

text \<open>
  The cursor orders rows by time stamp and then key, so a row that is written within the same
  time stamp as the cursor, under a smaller key, is never fetched.
\<close>

lemma sql_write_behind_cursor_missed:
  assumes "irUpdatedAt r = incCursorTime s" and "irKey r < incCursorKey s" and "\<forall>q \<in> set tab. \<not> beyond s q"
    and "answers db s (put_row r tab)"
  shows "refreshIncremental ops cd db s = (None, s)"
proof -
  have "\<not> beyond s r" using assms(1,2) by (auto simp: beyond_def is_later_def)
  then have none: "{q \<in> set (put_row r tab). beyond s q} = {}" using assms(3) by (auto simp: put_row_def)
  obtain rows where rows: "db_changes db (fst (changes_query s)) (snd (changes_query s)) = Inr (map Some rows, None)"
    "set rows = {q \<in> set (put_row r tab). beyond s q}" using assms(4) by (auto simp: answers_def)
  have "rows = []" using rows(2) by (simp only: none set_empty)
  then have "db_changes db (fst (changes_query s)) (snd (changes_query s)) = Inr ([], None)" using rows(1) by simp
  then show ?thesis by (simp add: refreshIncremental_def case_prod_beta Let_def)
qed

text \<open>The error of a value that does not parse is gone when \<open>Get\<close> returns.\<close>

lemma sql_parse_error_hidden:
  assumes "sql_Get ops cd ts db s k = (Inr None, s')" and "fst (rc_Get ops (ts 0) (src_cache s) k) = None"
    and "\<not> fst (rc_IsNegativeCached (ts 1) (snd (rc_Get ops (ts 0) (src_cache s) k)) k)" and "src_healthy s"
  shows "sql_AdminLastError s' = ''''"
  using assms by (auto simp: sql_Get_def look_with_def sql_AdminLastError_def case_prod_beta Let_def split: sum.splits)

end
