(* ===== verification/Kubernetes.thy ===== *)
theory Kubernetes
  imports SoftSource
begin

section \<open>The Kubernetes source: datasource/kubernetes/kubernetes.go\<close>

text \<open>
  \<open>KubernetesSource\<close>: provisioning with the initial load by name or by label, lookups in the
  named ConfigMap, the watch with its event handlers, validation and the admin methods. The
  API server is a parameter (\<open>k8s_api\<close>). The data of a ConfigMap are a Go map: an
  association list with distinct keys, in the order of the iteration. An event whose object is not
  a ConfigMap is \<open>NotConfigMap\<close>; an event of a type that the code has no case for is
  \<open>OtherEvent\<close>. The end of a list of events is the closed channel or the cancelled context.
\<close>

record configmap =
  cmName :: string
  cmData :: "(string \<times> string) list"

record k8s_api =
  k8_config :: "string \<Rightarrow> string option"
  k8_inCluster :: "string option"
  k8_client :: "string option"
  k8_get :: "string \<Rightarrow> string \<Rightarrow> configmap res"
  k8_list :: "string \<Rightarrow> string \<Rightarrow> configmap list res"

record 'c KubernetesSource = "'c source" +
  kNamespace :: string
  kConfigMapName :: string
  kLabelSelector :: string
  kKubeconfig :: string
  kMaxCacheSize :: int
  kInitialLoadTimeout :: duration

datatype k8s_event =
    Added configmap
  | Modified configmap
  | Deleted configmap
  | NotConfigMap
  | WatchError
  | OtherEvent

definition k8s_AdminType :: string where
  "k8s_AdminType = ''kubernetes''"

subsection \<open>Loading\<close>

definition loadConfigMapData :: "'c route_lru \<Rightarrow> codec \<Rightarrow> ('c, 'x) KubernetesSource_scheme \<Rightarrow> configmap \<Rightarrow>
    ('c, 'x) KubernetesSource_scheme" where
  "loadConfigMapData ops cd k cm = fst (foldl (load_row ops cd) (k, {}) (map Some (cmData cm)))"

definition loadByConfigMapName :: "'c route_lru \<Rightarrow> codec \<Rightarrow> k8s_api \<Rightarrow> ('c, 'x) KubernetesSource_scheme \<Rightarrow>
    string option \<times> ('c, 'x) KubernetesSource_scheme" where
  "loadByConfigMapName ops cd api k =
     (case k8_get api (kNamespace k) (kConfigMapName k) of
        Inl err \<Rightarrow> (Some (''failed to get configmap '' @ kConfigMapName k @ '': '' @ err), k)
      | Inr cm \<Rightarrow> (None, loadConfigMapData ops cd k cm))"

definition loadByLabelSelector :: "'c route_lru \<Rightarrow> codec \<Rightarrow> k8s_api \<Rightarrow> ('c, 'x) KubernetesSource_scheme \<Rightarrow>
    string option \<times> ('c, 'x) KubernetesSource_scheme" where
  "loadByLabelSelector ops cd api k =
     (case k8_list api (kNamespace k) (kLabelSelector k) of
        Inl err \<Rightarrow> (Some (''failed to list configmaps: '' @ err), k)
      | Inr items \<Rightarrow> (None, foldl (loadConfigMapData ops cd) k items))"

definition k8s_initialLoad :: "'c route_lru \<Rightarrow> codec \<Rightarrow> k8s_api \<Rightarrow> ('c, 'x) KubernetesSource_scheme \<Rightarrow>
    string option \<times> ('c, 'x) KubernetesSource_scheme" where
  "k8s_initialLoad ops cd api k =
     (if kLabelSelector k \<noteq> [] then loadByLabelSelector ops cd api k else loadByConfigMapName ops cd api k)"

subsection \<open>Provision, Cleanup and Get\<close>

definition k8s_defaults :: "('c, 'x) KubernetesSource_scheme \<Rightarrow> ('c, 'x) KubernetesSource_scheme" where
  "k8s_defaults k =
     k\<lparr>kNamespace := (if kNamespace k = [] then ''default'' else kNamespace k),
       kConfigMapName := (if kConfigMapName k = [] then ''caddy-routing'' else kConfigMapName k),
       kMaxCacheSize := (if kMaxCacheSize k \<le> 0 then 10000 else kMaxCacheSize k)\<rparr>"

text \<open>The errors of the client library before the initial load, in the order of the calls.\<close>

definition k8s_connect :: "k8s_api \<Rightarrow> ('c, 'x) KubernetesSource_scheme \<Rightarrow> string option" where
  "k8s_connect api k =
     (case (if kKubeconfig k \<noteq> [] then map_option (\<lambda>e. ''failed to load kubeconfig: '' @ e) (k8_config api (kKubeconfig k))
            else map_option (\<lambda>e. ''failed to get in-cluster config: '' @ e) (k8_inCluster api)) of
        Some e \<Rightarrow> Some e
      | None \<Rightarrow> map_option (\<lambda>e. ''failed to create kubernetes client: '' @ e) (k8_client api))"

definition k8s_Provision :: "'c route_lru \<Rightarrow> codec \<Rightarrow> k8s_api \<Rightarrow> 'd \<Rightarrow> 'd adminRegistry \<Rightarrow>
    ('c, 'x) KubernetesSource_scheme \<Rightarrow> string option \<times> 'd adminRegistry \<times> ('c, 'x) KubernetesSource_scheme" where
  "k8s_Provision ops cd api self g k0 =
     (let k = k8s_defaults k0; k = k\<lparr>src_cache := NewRouteCache ops (kMaxCacheSize k)\<rparr> in
      case k8s_connect api k of
        Some e \<Rightarrow> (Some e, g, k)
      | None \<Rightarrow>
          let k1 = (case k8s_initialLoad ops cd api k of
                      (Some e, k1) \<Rightarrow> k1\<lparr>src_lastError := e, src_healthy := False\<rparr>
                    | (None, k1) \<Rightarrow> k1\<lparr>src_healthy := True, src_lastError := ''''\<rparr>);
              (name, g') = RegisterAdminSource g (Some self) k8s_AdminType ''''
          in (None, g', k1\<lparr>src_adminName := name\<rparr>))"

definition k8s_Cleanup :: "'d adminRegistry \<Rightarrow> ('c, 'x) KubernetesSource_scheme \<Rightarrow>
    'd adminRegistry \<times> ('c, 'x) KubernetesSource_scheme" where
  "k8s_Cleanup g k = (UnregisterAdminSource g (src_adminName k), k\<lparr>src_adminName := ''''\<rparr>)"

text \<open>\<open>Get\<close> reads the named ConfigMap, whatever the label selector.\<close>

definition k8s_backend :: "k8s_api \<Rightarrow> ('c, 'x) KubernetesSource_scheme \<Rightarrow> string \<Rightarrow> fetched" where
  "k8s_backend api k key =
     (case k8_get api (kNamespace k) (kConfigMapName k) of
        Inl e \<Rightarrow> FetchError e
      | Inr cm \<Rightarrow> (case map_of (cmData cm) key of None \<Rightarrow> Missing | Some v \<Rightarrow> Value v))"

definition k8s_Get :: "'c route_lru \<Rightarrow> codec \<Rightarrow> (nat \<Rightarrow> time) \<Rightarrow> k8s_api \<Rightarrow> ('c, 'x) KubernetesSource_scheme \<Rightarrow>
    string \<Rightarrow> RouteConfig option res \<times> ('c, 'x) KubernetesSource_scheme" where
  "k8s_Get ops cd ts api k key =
     look_with ops ts
       (\<lambda>s key. soft_fetch True (\<lambda>e. ''failed to get configmap: '' @ e) ops cd ts (k8s_backend api s) s key) k key"

definition k8s_Healthy :: "('c, 'x) KubernetesSource_scheme \<Rightarrow> bool" where
  "k8s_Healthy k = src_healthy k"

definition k8s_AdminLastError :: "('c, 'x) KubernetesSource_scheme \<Rightarrow> string" where
  "k8s_AdminLastError k = src_lastError k"

definition k8s_AdminListRoutes :: "'c route_lru \<Rightarrow> ('c, 'x) KubernetesSource_scheme \<Rightarrow> AdminRouteInfo list" where
  "k8s_AdminListRoutes ops k = src_AdminListRoutes ops id k"

definition k8s_AdminCacheStats :: "'c route_lru \<Rightarrow> ('c, 'x) KubernetesSource_scheme \<Rightarrow> AdminCacheStats" where
  "k8s_AdminCacheStats ops k = src_AdminCacheStats ops k"

definition k8s_AdminClearCache :: "'c route_lru \<Rightarrow> ('c, 'x) KubernetesSource_scheme \<Rightarrow> ('c, 'x) KubernetesSource_scheme" where
  "k8s_AdminClearCache ops k = src_AdminClearCache ops k"

definition k8s_Validate :: "('c, 'x) KubernetesSource_scheme \<Rightarrow> string option" where
  "k8s_Validate k = (if kMaxCacheSize k < 0 then Some ''max_cache_size must be non-negative'' else None)"

subsection \<open>The watch\<close>

text \<open>The selectors of the watch: label, field.\<close>

definition k8s_listOptions :: "('c, 'x) KubernetesSource_scheme \<Rightarrow> string \<times> string" where
  "k8s_listOptions k =
     (if kLabelSelector k \<noteq> [] then (kLabelSelector k, '''') else ('''', ''metadata.name='' @ kConfigMapName k))"

definition handleConfigMapUpdate :: "'c route_lru \<Rightarrow> codec \<Rightarrow> ('c, 'x) KubernetesSource_scheme \<Rightarrow> configmap \<Rightarrow>
    ('c, 'x) KubernetesSource_scheme" where
  "handleConfigMapUpdate ops cd k cm =
     (if kLabelSelector k = [] then reload ops cd (map Some (cmData cm)) k
      else fst (foldl (load_row ops cd) (k, {}) (map Some (cmData cm))))"

definition handleConfigMapDelete :: "'c route_lru \<Rightarrow> ('c, 'x) KubernetesSource_scheme \<Rightarrow> configmap \<Rightarrow>
    ('c, 'x) KubernetesSource_scheme" where
  "handleConfigMapDelete ops k cm =
     foldl (\<lambda>k key. k\<lparr>src_cache := rc_Delete ops (src_cache k) key\<rparr>) k (map fst (cmData cm))"

fun handleWatchEvents :: "'c route_lru \<Rightarrow> codec \<Rightarrow> ('c, 'x) KubernetesSource_scheme \<Rightarrow> k8s_event list \<Rightarrow>
    ('c, 'x) KubernetesSource_scheme" where
  "handleWatchEvents ops cd k [] = k"
| "handleWatchEvents ops cd k (Added cm # evs) = handleWatchEvents ops cd (handleConfigMapUpdate ops cd k cm) evs"
| "handleWatchEvents ops cd k (Modified cm # evs) = handleWatchEvents ops cd (handleConfigMapUpdate ops cd k cm) evs"
| "handleWatchEvents ops cd k (Deleted cm # evs) = handleWatchEvents ops cd (handleConfigMapDelete ops k cm) evs"
| "handleWatchEvents ops cd k (NotConfigMap # evs) = handleWatchEvents ops cd k evs"
| "handleWatchEvents ops cd k (WatchError # _) = k\<lparr>src_healthy := False\<rparr>"
| "handleWatchEvents ops cd k (OtherEvent # evs) = handleWatchEvents ops cd k evs"

text \<open>
  \<open>watchConfigMaps\<close>: per turn the error of creating the watcher or its events, until the context
  is cancelled (the end of the list); the sleeps are recorded.
\<close>

fun watchConfigMaps :: "'c route_lru \<Rightarrow> codec \<Rightarrow> ('c, 'x) KubernetesSource_scheme \<Rightarrow> k8s_event list res list \<Rightarrow>
    duration list \<times> ('c, 'x) KubernetesSource_scheme" where
  "watchConfigMaps ops cd k [] = ([], k)"
| "watchConfigMaps ops cd k (Inl err # turns) =
     apfst (Cons 5000000000) (watchConfigMaps ops cd (k\<lparr>src_healthy := False\<rparr>) turns)"
| "watchConfigMaps ops cd k (Inr evs # turns) =
     watchConfigMaps ops cd (handleWatchEvents ops cd (k\<lparr>src_healthy := True\<rparr>) evs) turns"

subsection \<open>The cache follows the ConfigMap\<close>

text \<open>
  A history of a source that watches one ConfigMap: events of the watch, lookups and cache
  clears. The state of the cluster is the data of the ConfigMap, \<open>None\<close> while there is none.
\<close>

datatype k8s_act = KEvent k8s_event | KGet "nat \<Rightarrow> time" k8s_api string | KClear

fun k8s_cluster :: "(string \<rightharpoonup> string) option \<Rightarrow> k8s_act \<Rightarrow> (string \<rightharpoonup> string) option" where
  "k8s_cluster m (KEvent (Added cm)) = Some (map_of (cmData cm))"
| "k8s_cluster m (KEvent (Modified cm)) = Some (map_of (cmData cm))"
| "k8s_cluster m (KEvent (Deleted cm)) = None"
| "k8s_cluster m _ = m"

definition cluster_map :: "(string \<rightharpoonup> string) option \<Rightarrow> string \<rightharpoonup> string" where
  "cluster_map m = (case m of None \<Rightarrow> Map.empty | Some d \<Rightarrow> d)"

text \<open>An API server that answers with an error or with the present ConfigMap.\<close>

definition k8s_api_ok :: "k8s_api \<Rightarrow> (string \<rightharpoonup> string) option \<Rightarrow> ('c, 'x) KubernetesSource_scheme \<Rightarrow> bool" where
  "k8s_api_ok api m k \<longleftrightarrow>
     (case k8_get api (kNamespace k) (kConfigMapName k) of Inl e \<Rightarrow> True | Inr cm \<Rightarrow> m = Some (map_of (cmData cm)))"

text \<open>
  What the API server promises of an event: the keys of a ConfigMap are distinct, and a deletion
  carries the last data.
\<close>

fun k8s_act_ok :: "(string \<rightharpoonup> string) option \<Rightarrow> ('c, 'x) KubernetesSource_scheme \<Rightarrow> k8s_act \<Rightarrow> bool" where
  "k8s_act_ok m k (KEvent (Added cm)) \<longleftrightarrow> distinct (map fst (cmData cm))"
| "k8s_act_ok m k (KEvent (Modified cm)) \<longleftrightarrow> distinct (map fst (cmData cm))"
| "k8s_act_ok m k (KEvent (Deleted cm)) \<longleftrightarrow> m = Some (map_of (cmData cm))"
| "k8s_act_ok m k (KEvent _) \<longleftrightarrow> True"
| "k8s_act_ok m k (KGet ts api key) \<longleftrightarrow> k8s_api_ok api m k"
| "k8s_act_ok m k KClear \<longleftrightarrow> True"

fun k8s_do :: "'c route_lru \<Rightarrow> codec \<Rightarrow> ('c, 'x) KubernetesSource_scheme \<Rightarrow> k8s_act \<Rightarrow> ('c, 'x) KubernetesSource_scheme" where
  "k8s_do ops cd k (KEvent ev) = handleWatchEvents ops cd k [ev]"
| "k8s_do ops cd k (KGet ts api key) = snd (k8s_Get ops cd ts api k key)"
| "k8s_do ops cd k KClear = k8s_AdminClearCache ops k"

inductive k8s_history :: "'c route_lru \<Rightarrow> codec \<Rightarrow> (string \<rightharpoonup> string) option \<Rightarrow> ('c, 'x) KubernetesSource_scheme \<Rightarrow>
    (string \<rightharpoonup> string) option \<Rightarrow> ('c, 'x) KubernetesSource_scheme \<Rightarrow> bool" for ops cd m0 k0 where
  k8s_refl: "k8s_history ops cd m0 k0 m0 k0"
| k8s_step: "k8s_history ops cd m0 k0 m k \<Longrightarrow> k8s_act_ok m k a \<Longrightarrow>
     k8s_history ops cd m0 k0 (k8s_cluster m a) (k8s_do ops cd k a)"

lemma k8s_update_coherent:
  assumes "route_lru ops cap ok" and "src_inv cap ok k" and "kLabelSelector k = []" and "distinct (map fst (cmData cm))"
    and "k' = handleConfigMapUpdate ops cd k cm"
  shows "src_inv cap ok k' \<and> coherent ops cd (map_of (cmData cm)) k' \<and> source.more k' = source.more k"
proof -
  have "k' = reload ops cd (map Some (cmData cm)) k" using assms(3,5) by (simp add: handleConfigMapUpdate_def)
  moreover have "\<forall>(key, v) \<in> set (scanned (map Some (cmData cm))). map_of (cmData cm) key = Some v"
    unfolding scanned_simps using assms(4) by auto
  ultimately show ?thesis using reload_coherent[OF assms(1,2)] by blast
qed

lemma k8s_delete_coherent:
  assumes "route_lru ops cap ok" and "src_inv cap ok k" and "coherent ops cd m k"
    and "k' = foldl (\<lambda>k key. k\<lparr>src_cache := rc_Delete ops (src_cache k) key\<rparr>) k keys"
  shows "src_inv cap ok k' \<and> coherent ops cd (m |` (- set keys)) k' \<and> source.more k' = source.more k"
  using assms(2-4)
proof (induction keys arbitrary: k m)
  case Nil
  then show ?case by simp
next
  case (Cons key keys)
  let ?k = "k\<lparr>src_cache := rc_Delete ops (src_cache k) key\<rparr>"
  have inv: "src_inv cap ok ?k" using route_lru.rc_inv_Delete[OF assms(1)] Cons.prems(1) by (simp add: src_inv_def)
  have co: "coherent ops cd (m(key := None)) ?k" by (rule route_lru.coherent_Delete[OF assms(1) Cons.prems(1,2)])
  have m: "(m(key := None)) |` (- set keys) = m |` (- set (key # keys))" by (auto simp: restrict_map_def fun_eq_iff)
  have k': "k' = foldl (\<lambda>k key. k\<lparr>src_cache := rc_Delete ops (src_cache k) key\<rparr>) ?k keys" using Cons.prems(3) by simp
  from Cons.IH[OF inv co k'] show ?case unfolding m by simp
qed

lemma k8s_same_more:
  assumes "source.more k' = source.more k"
  shows "kNamespace k' = kNamespace k" "kConfigMapName k' = kConfigMapName k" "kLabelSelector k' = kLabelSelector k"
  using assms by (cases k; cases k'; simp)+

lemma k8s_Get_coherent:
  assumes "route_lru ops cap ok" and "src_inv cap ok k" and "coherent ops cd (cluster_map m) k" and "k8s_api_ok api m k"
    and "k8s_Get ops cd ts api k key = (r, k')"
  shows "src_inv cap ok k' \<and> coherent ops cd (cluster_map m) k' \<and> source.more k' = source.more k \<and>
    (\<forall>c. r = Inr (Some c) \<longrightarrow> parses_to cd (cluster_map m) key c)"
proof -
  have b: "k8s_backend api k key = backend_of (cluster_map m) key \<or> (\<exists>e. k8s_backend api k key = FetchError e)"
    using assms(4) by (auto simp: k8s_api_ok_def k8s_backend_def backend_of_def cluster_map_def split: sum.splits)
  have q: "k8s_backend api (k\<lparr>src_cache := c\<rparr>) = k8s_backend api k" for c
    by (simp add: k8s_backend_def fun_eq_iff)
  have g: "look_with ops ts (soft_fetch True (\<lambda>e. ''failed to get configmap: '' @ e) ops cd ts (k8s_backend api k)) k key = (r, k')"
    unfolding assms(5)[symmetric] k8s_Get_def by (rule look_with_cong) (simp only: q)
  have co: "coherent_on UNIV ops cd (cluster_map m) k" using assms(3) by (simp add: coherent_on_UNIV)
  from route_lru.soft_Get_coherent_on[where backend = "k8s_backend api k", OF assms(1,2) co b g] show ?thesis
    by (simp add: coherent_on_UNIV)
qed

lemma k8s_do_coherent:
  assumes "route_lru ops cap ok" and "src_inv cap ok k" and "coherent ops cd (cluster_map m) k" and "kLabelSelector k = []"
    and "k8s_act_ok m k a"
  shows "src_inv cap ok (k8s_do ops cd k a) \<and> coherent ops cd (cluster_map (k8s_cluster m a)) (k8s_do ops cd k a) \<and>
    source.more (k8s_do ops cd k a) = source.more k"
proof (cases a)
  case (KEvent ev)
  have upd: "src_inv cap ok (handleConfigMapUpdate ops cd k cm) \<and>
      coherent ops cd (cluster_map (Some (map_of (cmData cm)))) (handleConfigMapUpdate ops cd k cm) \<and>
      source.more (handleConfigMapUpdate ops cd k cm) = source.more k" if "distinct (map fst (cmData cm))" for cm
    using k8s_update_coherent[OF assms(1,2,4) that refl] by (simp add: cluster_map_def)
  show ?thesis
  proof (cases ev)
    case (Deleted cm)
    have "cluster_map m |` (- fst ` set (cmData cm)) = Map.empty"
      using assms(5) KEvent Deleted by (auto simp: cluster_map_def restrict_map_def fun_eq_iff map_of_eq_None_iff)
    then show ?thesis
      using KEvent Deleted k8s_delete_coherent[OF assms(1-3) refl, of "map fst (cmData cm)"]
      by (simp add: handleConfigMapDelete_def cluster_map_def)
  qed (use KEvent upd assms(2,3,5) in \<open>auto simp: src_inv_def coherent_def\<close>)
next
  case (KGet ts api key)
  obtain r k' where "k8s_Get ops cd ts api k key = (r, k')" by fastforce
  then show ?thesis using k8s_Get_coherent[OF assms(1-3)] assms(5) KGet by simp
next
  case KClear
  have "lru_peek ops (lru_purge ops (rc_cache (src_cache k))) key = None" for key
    by (rule lru.purge_peek[OF route_lru.axioms[OF assms(1)] route_lru.src_inv_ok[OF assms(1,2)]])
  then show ?thesis
    using KClear route_lru.rc_inv_Clear[OF assms(1)] assms(2)
    by (simp add: k8s_AdminClearCache_def src_AdminClearCache_def src_inv_def coherent_def rc_Clear_def)
qed

lemma k8s_history_coherent:
  assumes "route_lru ops cap ok" and "src_inv cap ok k0" and "coherent ops cd (cluster_map m0) k0" and "kLabelSelector k0 = []"
    and "k8s_history ops cd m0 k0 m k"
  shows "src_inv cap ok k \<and> coherent ops cd (cluster_map m) k \<and> source.more k = source.more k0"
  using assms(5)
proof (induction rule: k8s_history.induct)
  case k8s_refl
  then show ?case using assms(2,3) by simp
next
  case (k8s_step m k a)
  have "kLabelSelector k = []" using k8s_same_more(3)[of k k0] k8s_step.IH assms(4) by simp
  from k8s_do_coherent[OF assms(1) _ _ this k8s_step.hyps(2)] k8s_step.IH show ?case by simp
qed


definition demo_k8s :: "RouteConfig option list_lru KubernetesSource" where
  "demo_k8s = \<lparr>src_cache = NewRouteCache list_lru_ops 3, src_healthy = True, src_lastError = '''', src_adminName = '''',
     src_parseErrors = 0, kNamespace = ''default'', kConfigMapName = ''caddy-routing'', kLabelSelector = '''',
     kKubeconfig = '''', kMaxCacheSize = 3, kInitialLoadTimeout = 0\<rparr>"

definition demo_cm :: "(string \<times> string) list \<Rightarrow> configmap" where
  "demo_cm d = \<lparr>cmName = ''caddy-routing'', cmData = d\<rparr>"

definition demo_api :: "(string \<times> string) list \<Rightarrow> k8s_api" where
  "demo_api d = \<lparr>k8_config = (\<lambda>_. None), k8_inCluster = None, k8_client = None, k8_get = (\<lambda>_ _. Inr (demo_cm d)),
     k8_list = (\<lambda>_ _. Inr [demo_cm d])\<rparr>"

lemma demo_k8s_inv: "src_inv ll_cap ll_ok demo_k8s" "coherent list_lru_ops cd m demo_k8s"
proof -
  show "src_inv ll_cap ll_ok demo_k8s" by (simp add: src_inv_def demo_k8s_def list_rc.rc_inv_new)
  show "coherent list_lru_ops cd m demo_k8s"
    using list_rc.coherent_new[where s = demo_k8s and n = 3] by (simp add: demo_k8s_def)
qed


text \<open>
  With a label selector an update only adds: a key that was removed from its ConfigMap stays in
  the cache (here with room in the cache, so that nothing is evicted).
\<close>

lemma k8s_label_mode_keeps_removed_keys:
  assumes "route_lru ops cap ok" and "src_inv cap ok k" and "kLabelSelector k \<noteq> []" and "distinct (map fst (cmData cm))"
    and "card (set (rc_Keys ops (src_cache k)) \<union> fst ` set (cmData cm)) \<le> cap (rc_cache (src_cache k))"
    and "key \<notin> fst ` set (cmData cm)"
  shows "lru_peek ops (rc_cache (src_cache (handleConfigMapUpdate ops cd k cm))) key = lru_peek ops (rc_cache (src_cache k)) key"
proof -
  let ?K = "set (rc_Keys ops (src_cache k)) \<union> fst ` set (cmData cm)"
  obtain k1 seen where l: "(k1, seen) = foldl (load_row ops cd) (k, {}) (map Some (cmData cm))" by (metis surj_pair)
  have fits: "fits ops cap ?K k" using assms(5) by (simp add: fits_def)
  have "handleConfigMapUpdate ops cd k cm = k1" using assms(3) l[symmetric] by (simp add: handleConfigMapUpdate_def)
  moreover have "map_of (cmData cm) key = None" using assms(6) by (simp add: map_of_eq_None_iff)
  ultimately show ?thesis using route_lru.load_rows[OF assms(1,2) fits _ _ l] assms(4) by simp
qed

end
