(* ===== verification/Http.thy ===== *)
theory Http
  imports SoftSource
begin

section \<open>The HTTP source: datasource/http/http.go\<close>

text \<open>
  \<open>HTTPSource\<close>: a request with its retries, lookups, the refresh of the cached keys, health
  checks, provisioning, validation and the admin methods. The server is a parameter: what it
  answers to the \<open>n\<close>-th attempt of a request. A request is its method, its URL and the calls
  of \<open>Header.Set\<close> in their order. \<open>ctxErr n\<close> is the error of the context when it is cancelled
  during the wait before attempt \<open>n\<close>. The delays between the attempts are not modelled.
\<close>

record http_req =
  rqMethod :: string
  rqURL :: string
  rqSets :: "(string \<times> string) list"

datatype http_reply =
    RequestError string
  | DoError string
  | Reply int "string res"

type_synonym http_server = "http_req \<Rightarrow> nat \<Rightarrow> http_reply"

record 'c HTTPSource = "'c source" +
  hURL :: string
  hHeaders :: "(string \<times> string) list"
  hMethod :: string
  hTimeout :: duration
  hCacheTTL :: duration
  hRefreshInterval :: duration
  hRetryCount :: int
  hRetryDelay :: duration
  hTLSSkipVerify :: bool
  hHealthEndpoint :: string
  hMaxCacheSize :: int

definition http_AdminType :: string where
  "http_AdminType = ''http''"

subsection \<open>Requests\<close>

datatype fetch_error = ErrNotFound | FetchFailed string

definition http_request_for :: "('c, 'x) HTTPSource_scheme \<Rightarrow> string \<Rightarrow> http_req" where
  "http_request_for h url =
     \<lparr>rqMethod = hMethod h, rqURL = url, rqSets = hHeaders h @ [(''Accept'', ''application/json'')]\<rparr>"

text \<open>The answer to one request; the flag says that the body did not parse, which a metric counts.\<close>

definition doFetch :: "codec \<Rightarrow> http_reply \<Rightarrow> (fetch_error + RouteConfig option) \<times> bool" where
  "doFetch cd reply =
     (case reply of
        RequestError e \<Rightarrow> (Inl (FetchFailed (''creating request: '' @ e)), False)
      | DoError e \<Rightarrow> (Inl (FetchFailed (''executing request: '' @ e)), False)
      | Reply status body \<Rightarrow>
          if status = 404 then (Inl ErrNotFound, False)
          else if 500 \<le> status then (Inl (FetchFailed (''server error: '' @ itoa status)), False)
          else if status \<noteq> 200 then (Inl (FetchFailed (''unexpected status: '' @ itoa status)), False)
          else case body of
            Inl e \<Rightarrow> (Inl (FetchFailed (''reading response: '' @ e)), False)
          | Inr b \<Rightarrow>
              (case ParseRouteConfig cd b of
                 Inl e \<Rightarrow> (Inl (FetchFailed (''parsing response: '' @ e)), True)
               | Inr config \<Rightarrow> (Inr config, False)))"

record attempts_result =
  arAnswer :: "RouteConfig option res"
  arRequests :: nat
  arParseErrors :: nat

text \<open>
  The loop of \<open>fetch\<close> from an attempt on, with the requests and parse errors so far and the last
  error; \<open>%v\<close> of a nil error is \<open><nil>\<close>. (The counter of the loop does not overflow for a
  \<open>retry_count\<close> below the largest integer.)
\<close>

function http_attempts :: "codec \<Rightarrow> (nat \<Rightarrow> http_reply) \<Rightarrow> (nat \<Rightarrow> string option) \<Rightarrow> int \<Rightarrow> nat \<Rightarrow> nat \<Rightarrow> string \<Rightarrow>
    attempts_result" where
  "http_attempts cd reply ctxErr retryCount attempt bad lastErr =
     (if retryCount < int attempt
      then \<lparr>arAnswer = Inl (''all '' @ itoa (wrap64 (retryCount + 1)) @ '' attempts failed: '' @ lastErr),
            arRequests = attempt, arParseErrors = bad\<rparr>
      else case (if 0 < attempt then ctxErr attempt else None) of
        Some e \<Rightarrow> \<lparr>arAnswer = Inl e, arRequests = attempt, arParseErrors = bad\<rparr>
      | None \<Rightarrow>
          (case doFetch cd (reply attempt) of
             (Inr config, _) \<Rightarrow> \<lparr>arAnswer = Inr config, arRequests = Suc attempt, arParseErrors = bad\<rparr>
           | (Inl ErrNotFound, _) \<Rightarrow> \<lparr>arAnswer = Inr None, arRequests = Suc attempt, arParseErrors = bad\<rparr>
           | (Inl (FetchFailed e), unparsed) \<Rightarrow>
               http_attempts cd reply ctxErr retryCount (Suc attempt) (if unparsed then Suc bad else bad) e))"
  by pat_completeness auto
termination
  by (relation "measure (\<lambda>(_, _, _, retryCount, attempt, _, _). nat (retryCount + 1 - int attempt))") auto

declare http_attempts.simps [simp del]

definition http_fetch :: "codec \<Rightarrow> http_server \<Rightarrow> (nat \<Rightarrow> string option) \<Rightarrow> ('c, 'x) HTTPSource_scheme \<Rightarrow> string \<Rightarrow>
    attempts_result" where
  "http_fetch cd server ctxErr h key =
     http_attempts cd (server (http_request_for h (hURL h @ ''/'' @ key))) ctxErr (hRetryCount h) 0 0 ''<nil>''"

subsection \<open>Health\<close>

definition health_request :: "('c, 'x) HTTPSource_scheme \<Rightarrow> http_req" where
  "health_request h = \<lparr>rqMethod = ''HEAD'', rqURL = hHealthEndpoint h, rqSets = hHeaders h\<rparr>"

definition healthCheck :: "http_server \<Rightarrow> ('c, 'x) HTTPSource_scheme \<Rightarrow> string option" where
  "healthCheck server h =
     (case server (health_request h) 0 of
        RequestError e \<Rightarrow> Some e
      | DoError e \<Rightarrow> Some e
      | Reply status _ \<Rightarrow> if 500 \<le> status then Some (''health check returned '' @ itoa status) else None)"

definition doHealthCheck :: "http_server \<Rightarrow> ('c, 'x) HTTPSource_scheme \<Rightarrow> ('c, 'x) HTTPSource_scheme" where
  "doHealthCheck server h =
     (case healthCheck server h of Some _ \<Rightarrow> h\<lparr>src_healthy := False\<rparr> | None \<Rightarrow> h\<lparr>src_healthy := True\<rparr>)"

subsection \<open>Provision, Cleanup and Get\<close>

definition http_defaults :: "('c, 'x) HTTPSource_scheme \<Rightarrow> ('c, 'x) HTTPSource_scheme" where
  "http_defaults h =
     h\<lparr>hMethod := (if hMethod h = [] then ''GET'' else hMethod h),
       hTimeout := (if hTimeout h = 0 then 5000000000 else hTimeout h),
       hCacheTTL := (if hCacheTTL h = 0 then 60000000000 else hCacheTTL h),
       hHealthEndpoint := (if hHealthEndpoint h = [] then hURL h else hHealthEndpoint h),
       hRetryCount := (if hRetryCount h = 0 then 2 else hRetryCount h),
       hRetryDelay := (if hRetryDelay h = 0 then 100000000 else hRetryDelay h),
       hMaxCacheSize := (if hMaxCacheSize h \<le> 0 then 10000 else hMaxCacheSize h)\<rparr>"

definition http_Provision :: "'c route_lru \<Rightarrow> http_server \<Rightarrow> 'd \<Rightarrow> 'd adminRegistry \<Rightarrow> ('c, 'x) HTTPSource_scheme \<Rightarrow>
    string option \<times> 'd adminRegistry \<times> ('c, 'x) HTTPSource_scheme" where
  "http_Provision ops server self g h0 =
     (let h = http_defaults h0 in
      if hURL h = [] then (Some ''url is required'', g, h)
      else
        let h1 = h\<lparr>src_cache := NewRouteCache ops (hMaxCacheSize h)\<rparr>;
            h2 = (case healthCheck server h1 of
                    Some e \<Rightarrow> h1\<lparr>src_lastError := e, src_healthy := False\<rparr>
                  | None \<Rightarrow> h1\<lparr>src_healthy := True, src_lastError := ''''\<rparr>);
            (name, g') = RegisterAdminSource g (Some self) http_AdminType ''''
        in (None, g', h2\<lparr>src_adminName := name\<rparr>))"

definition http_Cleanup :: "'d adminRegistry \<Rightarrow> ('c, 'x) HTTPSource_scheme \<Rightarrow> 'd adminRegistry \<times> ('c, 'x) HTTPSource_scheme" where
  "http_Cleanup g h = (UnregisterAdminSource g (src_adminName h), h\<lparr>src_adminName := ''''\<rparr>)"

text \<open>The function under \<open>singleflight\<close>.\<close>

definition http_lookup :: "'c route_lru \<Rightarrow> codec \<Rightarrow> (nat \<Rightarrow> time) \<Rightarrow> http_server \<Rightarrow> (nat \<Rightarrow> string option) \<Rightarrow>
    ('c, 'x) HTTPSource_scheme \<Rightarrow> string \<Rightarrow> RouteConfig option res \<times> ('c, 'x) HTTPSource_scheme" where
  "http_lookup ops cd ts server ctxErr h key =
     (let (cached, c1) = rc_Get ops (ts 2) (src_cache h) key in
      case cached of
        Some config \<Rightarrow> (Inr (Some config), h\<lparr>src_cache := c1\<rparr>)
      | None \<Rightarrow>
          let res = http_fetch cd server ctxErr h key;
              h1 = h\<lparr>src_cache := c1, src_parseErrors := src_parseErrors h + arParseErrors res\<rparr> in
          case arAnswer res of
            Inl e \<Rightarrow> (Inl e, h1\<lparr>src_lastError := e\<rparr>)
          | Inr None \<Rightarrow> (Inr None, h1\<lparr>src_cache := rc_SetNegative (ts 3) c1 key\<rparr>)
          | Inr (Some config) \<Rightarrow> (Inr (Some config), h1\<lparr>src_cache := rc_Set ops c1 key (Some config)\<rparr>))"

definition http_Get :: "'c route_lru \<Rightarrow> codec \<Rightarrow> (nat \<Rightarrow> time) \<Rightarrow> http_server \<Rightarrow> (nat \<Rightarrow> string option) \<Rightarrow>
    ('c, 'x) HTTPSource_scheme \<Rightarrow> string \<Rightarrow> RouteConfig option res \<times> ('c, 'x) HTTPSource_scheme" where
  "http_Get ops cd ts server ctxErr h key = look_with ops ts (http_lookup ops cd ts server ctxErr) h key"

definition http_Healthy :: "('c, 'x) HTTPSource_scheme \<Rightarrow> bool" where
  "http_Healthy h = src_healthy h"

definition http_AdminLastError :: "('c, 'x) HTTPSource_scheme \<Rightarrow> string" where
  "http_AdminLastError h = src_lastError h"

definition http_AdminListRoutes :: "'c route_lru \<Rightarrow> ('c, 'x) HTTPSource_scheme \<Rightarrow> AdminRouteInfo list" where
  "http_AdminListRoutes ops h = src_AdminListRoutes ops id h"

definition http_AdminCacheStats :: "'c route_lru \<Rightarrow> ('c, 'x) HTTPSource_scheme \<Rightarrow> AdminCacheStats" where
  "http_AdminCacheStats ops h = src_AdminCacheStats ops h"

definition http_AdminClearCache :: "'c route_lru \<Rightarrow> ('c, 'x) HTTPSource_scheme \<Rightarrow> ('c, 'x) HTTPSource_scheme" where
  "http_AdminClearCache ops h = src_AdminClearCache ops h"

definition http_Validate :: "('c, 'x) HTTPSource_scheme \<Rightarrow> string option" where
  "http_Validate h =
     (if hURL h = [] then Some ''url is required''
      else if hMethod h \<noteq> [] \<and> hMethod h \<noteq> ''GET'' \<and> hMethod h \<noteq> ''POST''
      then Some (''method must be '' @ quoted ''GET'' @ '' or '' @ quoted ''POST'')
      else if hTimeout h < 0 then Some ''timeout must be non-negative''
      else if hCacheTTL h < 0 then Some ''cache_ttl must be non-negative''
      else if hRefreshInterval h < 0 then Some ''refresh_interval must be non-negative''
      else if hRetryCount h < 0 then Some ''retry_count must be non-negative''
      else if hRetryDelay h < 0 then Some ''retry_delay must be non-negative''
      else None)"

subsection \<open>The refresh\<close>

definition refreshKey :: "'c route_lru \<Rightarrow> codec \<Rightarrow> http_server \<Rightarrow> (nat \<Rightarrow> string option) \<Rightarrow>
    ('c, 'x) HTTPSource_scheme \<Rightarrow> string \<Rightarrow> ('c, 'x) HTTPSource_scheme" where
  "refreshKey ops cd server ctxErr h key =
     (let res = http_fetch cd server ctxErr h key;
          h1 = h\<lparr>src_parseErrors := src_parseErrors h + arParseErrors res\<rparr> in
      case arAnswer res of
        Inl _ \<Rightarrow> h1
      | Inr (Some config) \<Rightarrow> h1\<lparr>src_cache := rc_Set ops (src_cache h1) key (Some config)\<rparr>
      | Inr None \<Rightarrow> h1\<lparr>src_cache := rc_Delete ops (src_cache h1) key\<rparr>)"

definition refreshCache :: "'c route_lru \<Rightarrow> codec \<Rightarrow> http_server \<Rightarrow> (nat \<Rightarrow> string option) \<Rightarrow>
    ('c, 'x) HTTPSource_scheme \<Rightarrow> ('c, 'x) HTTPSource_scheme" where
  "refreshCache ops cd server ctxErr h = foldl (refreshKey ops cd server ctxErr) h (rc_Keys ops (src_cache h))"

fun refreshLoop :: "'c route_lru \<Rightarrow> codec \<Rightarrow> ('c, 'x) HTTPSource_scheme \<Rightarrow> (http_server \<times> (nat \<Rightarrow> string option)) list \<Rightarrow>
    ('c, 'x) HTTPSource_scheme" where
  "refreshLoop ops cd h [] = h"
| "refreshLoop ops cd h ((server, ctxErr) # ticks) =
     refreshLoop ops cd (doHealthCheck server (refreshCache ops cd server ctxErr h)) ticks"

subsection \<open>The source implements the interface\<close>

lemma http_lookup_ok:
  fixes ops :: "'c route_lru"
  assumes "route_lru ops cap ok"
  shows "fetch_ok ops cap ok (http_lookup ops cd ts server ctxErr :: ('c, 'x) HTTPSource_scheme \<Rightarrow> _)"
  unfolding fetch_ok_def
proof (intro allI impI)
  fix k r and h h' :: "('c, 'x) HTTPSource_scheme"
  assume inv: "src_inv cap ok h" and f: "http_lookup ops cd ts server ctxErr h k = (r, h')"
  obtain v c1 where g: "rc_Get ops (ts 2) (src_cache h) k = (v, c1)" by fastforce
  have okc: "ok (rc_cache (src_cache h))" by (rule route_lru.src_inv_ok[OF assms inv])
  have i1: "rc_inv cap ok c1"
    using route_lru.rc_inv_Get[OF assms, of "src_cache h" "ts 2" k] inv g by (simp add: src_inv_def)
  then have ok1: "ok (rc_cache c1)" by (simp add: rc_inv_def)
  have hit: "v = Some x \<Longrightarrow> rc_view ops t c1 k = Some x" for x t
    using route_lru.rc_Get_hit_view[OF assms okc, of "ts 2" k x c1] g by blast
  show "src_inv cap ok h' \<and> src_healthy h' = src_healthy h \<and> (\<forall>c t. r = Inr (Some c) \<longrightarrow> src_view ops t h' k = Some c)"
    using f g i1 hit route_lru.rc_inv_Set[OF assms i1] route_lru.rc_inv_SetNegative[OF assms i1]
      route_lru.rc_Set_view_same[OF assms ok1]
    by (auto simp: http_lookup_def src_inv_def src_view_def Let_def split: option.splits sum.splits)
qed

lemma http_data_source:
  assumes "route_lru ops cap ok"
  shows "data_source (\<lambda>(ts, server, ctxErr). http_Get ops cd ts server ctxErr) http_Healthy (src_inv cap ok)
    (\<lambda>(ts, server, ctxErr). src_view ops (ts 0))"
proof -
  let ?fetch = "\<lambda>(ts, server, ctxErr). http_lookup ops cd ts server ctxErr"
  have "fetch_ok ops cap ok (?fetch e)" for e :: "(nat \<Rightarrow> time) \<times> http_server \<times> (nat \<Rightarrow> string option)"
    using http_lookup_ok[OF assms] by (auto split: prod.splits)
  from route_lru.look_with_data_source[where fetch = ?fetch and clock = fst, OF assms this]
  show ?thesis by (simp add: http_Get_def[abs_def] http_Healthy_def[abs_def] case_prod_beta')
qed

interpretation list_http: data_source
  "\<lambda>(ts, server, ctxErr). http_Get list_lru_ops cd ts server ctxErr" http_Healthy "src_inv ll_cap ll_ok"
  "\<lambda>(ts, server, ctxErr). src_view list_lru_ops (ts 0)" for cd
  by (rule http_data_source[OF list_rc.route_lru_axioms])

subsection \<open>Properties of the HTTP source\<close>

text \<open>An attempt that is worth a retry, and the answer of one that is not.\<close>

definition retryable :: "codec \<Rightarrow> http_reply \<Rightarrow> bool" where
  "retryable cd reply = (case doFetch cd reply of (Inl (FetchFailed e), _) \<Rightarrow> True | _ \<Rightarrow> False)"

definition final_answer :: "codec \<Rightarrow> http_reply \<Rightarrow> RouteConfig option" where
  "final_answer cd reply = (case doFetch cd reply of (Inr c, _) \<Rightarrow> c | _ \<Rightarrow> None)"

lemma http_attempts_spec:
  assumes "\<forall>n. ctxErr n = None" and "int a \<le> retryCount + 1"
    and "res = http_attempts cd reply ctxErr retryCount a bad lastErr"
  shows "a \<le> arRequests res \<and> int (arRequests res) \<le> retryCount + 1 \<and>
    (\<forall>i. a \<le> i \<and> Suc i < arRequests res \<longrightarrow> retryable cd (reply i)) \<and>
    (case arAnswer res of
       Inr c \<Rightarrow> a < arRequests res \<and> \<not> retryable cd (reply (arRequests res - 1)) \<and> c = final_answer cd (reply (arRequests res - 1))
     | Inl e \<Rightarrow> int (arRequests res) = retryCount + 1 \<and> (\<forall>i. a \<le> i \<and> i < arRequests res \<longrightarrow> retryable cd (reply i)))"
  using assms
proof (induction cd reply ctxErr retryCount a bad lastErr rule: http_attempts.induct)
  case (1 cd reply ctxErr retryCount a bad lastErr)
  show ?case
  proof (cases "retryCount < int a")
    case True
    then have "arRequests res = a \<and> (\<exists>e. arAnswer res = Inl e)"
      using "1.prems"(3) by (simp add: http_attempts.simps[of cd reply])
    then show ?thesis using True "1.prems"(2) by auto
  next
    case False
    have none: "(if 0 < a then ctxErr a else None) = None" using "1.prems"(1) by simp
    show ?thesis
    proof (cases "retryable cd (reply a)")
      case False
      then have "arRequests res = Suc a \<and> arAnswer res = Inr (final_answer cd (reply a))"
        using "1.prems"(3) none \<open>\<not> retryCount < int a\<close>
        by (auto simp: http_attempts.simps[of cd reply] retryable_def final_answer_def
            split: prod.splits sum.splits fetch_error.splits)
      then show ?thesis using False \<open>\<not> retryCount < int a\<close> by auto
    next
      case True
      then obtain e b where d: "doFetch cd (reply a) = (Inl (FetchFailed e), b)"
        by (auto simp: retryable_def split: prod.splits sum.splits fetch_error.splits)
      have res: "res = http_attempts cd reply ctxErr retryCount (Suc a) (if b then Suc bad else bad) e"
        using "1.prems"(3) none \<open>\<not> retryCount < int a\<close> d by (simp add: http_attempts.simps[of cd reply])
      have le: "int (Suc a) \<le> retryCount + 1" using \<open>\<not> retryCount < int a\<close> by simp
      note ih = "1.IH"[OF \<open>\<not> retryCount < int a\<close> none d[symmetric] refl refl "1.prems"(1) le res]
      have step: "retryable cd (reply i)" if "a \<le> i" "Suc a \<le> i \<Longrightarrow> retryable cd (reply i)" for i
        using that True by (cases "i = a") auto
      show ?thesis using ih step by (auto split: sum.splits)
    qed
  qed
qed


definition demo_http :: "RouteConfig option list_lru HTTPSource" where
  "demo_http = \<lparr>src_cache = rc_Set list_lru_ops (NewRouteCache list_lru_ops 3) ''a'' (Some empty_config), src_healthy = True,
     src_lastError = '''', src_adminName = '''', src_parseErrors = 0, hURL = ''http://cfg'', hHeaders = [], hMethod = ''GET'',
     hTimeout = 1, hCacheTTL = 1, hRefreshInterval = 1, hRetryCount = 2, hRetryDelay = 1, hTLSSkipVerify = False,
     hHealthEndpoint = ''http://cfg'', hMaxCacheSize = 3\<rparr>"

text \<open>A server that fails once and then answers.\<close>

definition demo_server :: http_server where
  "demo_server r n = (if n = 0 then Reply 503 (Inr '''') else Reply 200 (Inr ''up:80''))"

lemma demo_fetch: "arAnswer (http_fetch null_codec demo_server (\<lambda>_. None) demo_http ''a'') =
    Inr (Some (empty_config\<lparr>cUpstream := ''up:80''\<rparr>))"
  by (simp add: http_fetch_def demo_http_def http_attempts.simps demo_server_def doFetch_def demo_parse)


text \<open>
  What a refresh does to one key that is cached, and to the others. No key is evicted, because
  only keys that are in the cache are set.
\<close>

lemma http_fetch_more:
  assumes "source.more h' = source.more h"
  shows "http_fetch cd server ctxErr h' key = http_fetch cd server ctxErr h key"
proof -
  have "hURL h' = hURL h" "hHeaders h' = hHeaders h" "hMethod h' = hMethod h" "hRetryCount h' = hRetryCount h"
    using assms by (cases h; cases h'; simp)+
  then show ?thesis by (simp add: http_fetch_def http_request_for_def)
qed

definition refreshed :: "codec \<Rightarrow> http_server \<Rightarrow> (nat \<Rightarrow> string option) \<Rightarrow> ('c, 'x) HTTPSource_scheme \<Rightarrow> string \<Rightarrow>
    RouteConfig option \<Rightarrow> RouteConfig option" where
  "refreshed cd server ctxErr h key old =
     (case arAnswer (http_fetch cd server ctxErr h key) of Inl _ \<Rightarrow> old | Inr answer \<Rightarrow> answer)"

lemma refreshKey_props:
  assumes "route_lru ops cap ok" and "src_inv cap ok h" and "key \<in> set (rc_Keys ops (src_cache h))"
    and "h' = refreshKey ops cd server ctxErr h key"
  shows "src_inv cap ok h' \<and> source.more h' = source.more h \<and> src_healthy h' = src_healthy h \<and>
    (\<forall>j. j \<noteq> key \<longrightarrow> (j \<in> set (rc_Keys ops (src_cache h')) \<longleftrightarrow> j \<in> set (rc_Keys ops (src_cache h))) \<and>
       src_view ops now h' j = src_view ops now h j) \<and>
    src_view ops now h' key = refreshed cd server ctxErr h key (src_view ops now h key)"
proof -
  have okc: "ok (rc_cache (src_cache h))" by (rule route_lru.src_inv_ok[OF assms(1,2)])
  have l: "lru ops cap ok" by (rule route_lru.axioms[OF assms(1)])
  have keys: "j \<in> set (lru_keys ops c) \<longleftrightarrow> lru_peek ops c j \<noteq> None" if "ok c" for c j
    by (simp only: lru.peek_keys[OF l that] not_not)
  let ?set = "\<lambda>c. rc_Set ops (src_cache h) key (Some c)"
  have setp: "lru_peek ops (lru_add ops (rc_cache (src_cache h)) key (Some c)) = (lru_peek ops (rc_cache (src_cache h)))(key \<mapsto> Some c)" for c
    using lru.add_same[OF l okc] lru.add_room[OF l okc] assms(3) by (auto simp: fun_eq_iff rc_Keys_def)
  have ok_set: "ok (lru_add ops (rc_cache (src_cache h)) key (Some c))" for c by (rule lru.add_ok[OF l okc])
  have ok_rem: "ok (lru_remove ops (rc_cache (src_cache h)) key)" by (rule lru.remove_ok[OF l okc])
  show ?thesis
  proof (cases "arAnswer (http_fetch cd server ctxErr h key)")
    case (Inl e)
    then show ?thesis using assms(2,4) by (simp add: refreshKey_def refreshed_def src_inv_def src_view_def Let_def)
  next
    case (Inr answer)
    show ?thesis
    proof (cases answer)
      case None
      then show ?thesis
        using Inr assms(2,4) route_lru.rc_inv_Delete[OF assms(1)] keys[OF okc] keys[OF ok_rem] lru.remove_peek[OF l okc]
        by (simp add: refreshKey_def refreshed_def src_inv_def src_view_def rc_view_def neg_live_def rc_Delete_def rc_Keys_def Let_def)
    next
      case (Some c)
      then show ?thesis
        using Inr assms(2,4) route_lru.rc_inv_Set[OF assms(1)] keys[OF okc] keys[OF ok_set] setp
        by (simp add: refreshKey_def refreshed_def src_inv_def src_view_def rc_view_def neg_live_def rc_Set_def rc_Keys_def Let_def)
    qed
  qed
qed

lemma refreshKeys_props:
  assumes "route_lru ops cap ok" and "src_inv cap ok h" and "set ks \<subseteq> set (rc_Keys ops (src_cache h))" and "distinct ks"
    and "h' = foldl (refreshKey ops cd server ctxErr) h ks"
  shows "src_inv cap ok h' \<and> src_healthy h' = src_healthy h \<and>
    (\<forall>j. src_view ops now h' j =
       (if j \<in> set ks then refreshed cd server ctxErr h j (src_view ops now h j) else src_view ops now h j))"
  using assms(2-5)
proof (induction ks arbitrary: h)
  case Nil
  then show ?case by simp
next
  case (Cons key ks)
  define h1 where "h1 = refreshKey ops cd server ctxErr h key"
  have key: "key \<in> set (rc_Keys ops (src_cache h))" using Cons.prems(2) by simp
  note p = refreshKey_props[OF assms(1) Cons.prems(1) key h1_def, of now]
  have same: "refreshed cd server ctxErr h1 = refreshed cd server ctxErr h"
    using http_fetch_more[of h1 h] p by (simp add: refreshed_def fun_eq_iff)
  have sub: "set ks \<subseteq> set (rc_Keys ops (src_cache h1))" using p Cons.prems(2,3) by auto
  have "src_inv cap ok h' \<and> src_healthy h' = src_healthy h1 \<and>
    (\<forall>j. src_view ops now h' j =
       (if j \<in> set ks then refreshed cd server ctxErr h1 j (src_view ops now h1 j) else src_view ops now h1 j))"
    by (rule Cons.IH[OF _ sub]) (use p Cons.prems(3,4) h1_def in simp_all)
  then show ?case using p Cons.prems(3) unfolding same by auto
qed

text \<open>
  C29: what a refresh does to the cache. Every key that was cached has its new configuration if
  the server delivered one, is gone if the server answered that there is none, and keeps its
  old configuration if the fetch failed; no other key changes, and nothing is evicted. The
  health is left to the health check.
\<close>

theorem http_refresh_exact:
  assumes "route_lru ops cap ok" and "src_inv cap ok h" and "h' = refreshCache ops cd server ctxErr h"
  shows "src_inv cap ok h' \<and> http_Healthy h' = http_Healthy h \<and>
    src_view ops now h' =
      (\<lambda>k. if k \<in> set (rc_Keys ops (src_cache h)) then refreshed cd server ctxErr h k (src_view ops now h k)
          else src_view ops now h k)"
proof -
  have "distinct (rc_Keys ops (src_cache h))"
    using lru.keys_distinct[OF route_lru.axioms[OF assms(1)] route_lru.src_inv_ok[OF assms(1,2)]] by (simp add: rc_Keys_def)
  from refreshKeys_props[OF assms(1,2) subset_refl this, of h' cd server ctxErr now] assms(3) show ?thesis
    by (auto simp: refreshCache_def http_Healthy_def)
qed

lemma demo_http_inv: "src_inv ll_cap ll_ok demo_http"
  by (simp add: src_inv_def demo_http_def list_rc.rc_inv_new list_rc.rc_inv_Set)

theorem http_refresh_exact_witness:
  "src_view list_lru_ops 9 (refreshCache list_lru_ops null_codec demo_server (\<lambda>_. None) demo_http) ''a'' =
     Some (empty_config\<lparr>cUpstream := ''up:80''\<rparr>)"
proof -
  have "''a'' \<in> set (rc_Keys list_lru_ops (src_cache demo_http))" by code_simp
  then show ?thesis
    using http_refresh_exact[OF list_rc.route_lru_axioms demo_http_inv refl, of null_codec demo_server "\<lambda>_. None" 9]
    by (simp add: refreshed_def demo_fetch)
qed

end
