(* ===== verification/File.thy ===== *)
theory File
  imports DataSource
begin

section \<open>The file source: datasource/file/file.go\<close>

text \<open>
  \<open>FileSource\<close>: provisioning, lookups, the load of a directory or of a single file, the watch
  with its debounce timer, the polling fallback, validation and the admin methods. The cache
  is a \<open>sync.Map\<close>, here an association list whose order is the order in which \<open>Range\<close> visits
  the entries. What \<open>os.Stat\<close>, \<open>os.ReadDir\<close> and \<open>os.ReadFile\<close> answer is a parameter, a
  \<open>disk\<close>; so is the JSON decoder of the single file, which gives the entries in the order in
  which the loop ranges over them. The theorems show what a load leaves in the cache, and
  that the watch ends up with what is on the disk.
\<close>

record FileSource =
  fsPath :: string
  fsFormat :: string
  fsWatch :: "bool option"
  fsPollInterval :: duration
  fsCache :: "(string \<times> RouteConfig) list"
  fsHealthy :: bool
  fsIsDir :: bool
  fsAdminName :: string
  fsLastError :: string
  fsHits :: uint64
  fsMisses :: uint64
  fsParseErrors :: nat

record dir_entry =
  deName :: string
  deIsDir :: bool
  deContent :: "string res"

record disk =
  dkStat :: "bool res"
  dkDir :: "dir_entry list res"
  dkFile :: "string res"

type_synonym routes_decoder = "string \<Rightarrow> (string \<times> string) list res"

definition file_AdminType :: string where
  "file_AdminType = ''file''"

subsection \<open>Loading\<close>

text \<open>\<open>filepath.Ext\<close> on Unix: the part of the last element from its last dot on.\<close>

definition Ext :: "string \<Rightarrow> string" where
  "Ext path =
     (let s = after_last (CHR ''/'') path in
      if CHR ''.'' \<in> set s then CHR ''.'' # after_last (CHR ''.'') s else '''')"

definition file_key :: "string \<Rightarrow> string" where
  "file_key name = TrimSuffix name (Ext name)"

text \<open>The body that the two loops share: parse, store, remember the key.\<close>

definition store_route :: "codec \<Rightarrow> FileSource \<times> string set \<Rightarrow> string \<Rightarrow> string \<Rightarrow> FileSource \<times> string set" where
  "store_route cd fl key data =
     (let (f, loadedKeys) = fl in
      case ParseRouteConfig cd data of
        Inl e \<Rightarrow> (f\<lparr>fsParseErrors := Suc (fsParseErrors f)\<rparr>, loadedKeys)
      | Inr None \<Rightarrow> (f, loadedKeys)
      | Inr (Some config) \<Rightarrow> (f\<lparr>fsCache := AList.update key config (fsCache f)\<rparr>, insert key loadedKeys))"

definition load_entry :: "codec \<Rightarrow> FileSource \<times> string set \<Rightarrow> dir_entry \<Rightarrow> FileSource \<times> string set" where
  "load_entry cd fl entry =
     (if deIsDir entry then fl
      else if HasPrefix (deName entry) ''.'' then fl
      else case deContent entry of
        Inl e \<Rightarrow> fl
      | Inr data \<Rightarrow> store_route cd fl (file_key (deName entry)) data)"

definition drop_unloaded :: "FileSource \<times> string set \<Rightarrow> FileSource" where
  "drop_unloaded fl =
     (let (f, loadedKeys) = fl in
      foldl (\<lambda>f k. if k \<in> loadedKeys then f else f\<lparr>fsCache := AList.delete k (fsCache f)\<rparr>) f (map fst (fsCache f)))"

definition loadDirectory :: "codec \<Rightarrow> disk \<Rightarrow> FileSource \<Rightarrow> string option \<times> FileSource" where
  "loadDirectory cd d f =
     (case dkDir d of
        Inl e \<Rightarrow> (Some (''reading directory: '' @ e), f)
      | Inr es \<Rightarrow> (None, drop_unloaded (foldl (load_entry cd) (f, {}) es)))"

definition loadSingleFile :: "codec \<Rightarrow> routes_decoder \<Rightarrow> disk \<Rightarrow> FileSource \<Rightarrow> string option \<times> FileSource" where
  "loadSingleFile cd dec d f =
     (case dkFile d of
        Inl e \<Rightarrow> (Some (''reading file: '' @ e), f)
      | Inr data \<Rightarrow>
          (case dec data of
             Inl e \<Rightarrow> (Some (''parsing JSON: '' @ e), f)
           | Inr routes \<Rightarrow>
               (None, drop_unloaded (foldl (\<lambda>fl (key, raw). store_route cd fl key raw) (f, {}) routes))))"

definition loadAll :: "codec \<Rightarrow> routes_decoder \<Rightarrow> disk \<Rightarrow> FileSource \<Rightarrow> string option \<times> FileSource" where
  "loadAll cd dec d f = (if fsIsDir f then loadDirectory cd d f else loadSingleFile cd dec d f)"

subsection \<open>Provision, Cleanup, Get and the admin methods\<close>

definition file_Provision :: "codec \<Rightarrow> routes_decoder \<Rightarrow> disk \<Rightarrow> 'd \<Rightarrow> 'd adminRegistry \<Rightarrow> FileSource \<Rightarrow>
    string option \<times> 'd adminRegistry \<times> FileSource" where
  "file_Provision cd dec d self g f0 =
     (let f = f0\<lparr>fsFormat := (if fsFormat f0 = [] then ''auto'' else fsFormat f0),
                 fsWatch := (case fsWatch f0 of None \<Rightarrow> Some True | Some w \<Rightarrow> Some w)\<rparr> in
      if fsPath f = [] then (Some ''path is required'', g, f)
      else case dkStat d of
        Inl e \<Rightarrow> (Some (''path error: '' @ e), g, f)
      | Inr isDir \<Rightarrow>
          let (err, f1) = loadAll cd dec d (f\<lparr>fsIsDir := isDir\<rparr>);
              f2 = (case err of
                      Some e \<Rightarrow> f1\<lparr>fsLastError := e, fsHealthy := False\<rparr>
                    | None \<Rightarrow> f1\<lparr>fsHealthy := True, fsLastError := ''''\<rparr>);
              (name, g') = RegisterAdminSource g (Some self) file_AdminType ''''
          in (None, g', f2\<lparr>fsAdminName := name\<rparr>))"

definition file_Cleanup :: "'d adminRegistry \<Rightarrow> FileSource \<Rightarrow> 'd adminRegistry \<times> FileSource" where
  "file_Cleanup g f = (UnregisterAdminSource g (fsAdminName f), f\<lparr>fsAdminName := ''''\<rparr>)"

definition file_Get :: "FileSource \<Rightarrow> string \<Rightarrow> RouteConfig option res \<times> FileSource" where
  "file_Get f key =
     (case map_of (fsCache f) key of
        Some cached \<Rightarrow> (Inr (Some cached), f\<lparr>fsHits := fsHits f + 1\<rparr>)
      | None \<Rightarrow> (Inr None, f\<lparr>fsMisses := fsMisses f + 1\<rparr>))"

definition file_AdminLastError :: "FileSource \<Rightarrow> string" where
  "file_AdminLastError f = fsLastError f"

definition file_AdminListRoutes :: "FileSource \<Rightarrow> AdminRouteInfo list" where
  "file_AdminListRoutes f = map (\<lambda>(k, cfg). SummarizeRouteConfig k (Some cfg)) (fsCache f)"

definition file_AdminCacheStats :: "FileSource \<Rightarrow> AdminCacheStats" where
  "file_AdminCacheStats f =
     (let h = fsHits f; m = fsMisses f; tot = h + m;
          hr = (if 0 < tot then of_nat (unat h) / of_nat (unat tot) else 0) in
      \<lparr>aEntries = int (length (fsCache f)), aMaxSize = 0, aHits = h, aMisses = m, aNegativeHits = 0, aHitRate = hr\<rparr>)"

definition file_AdminClearCache :: "FileSource \<Rightarrow> FileSource" where
  "file_AdminClearCache f =
     (foldl (\<lambda>f k. f\<lparr>fsCache := AList.delete k (fsCache f)\<rparr>) f (map fst (fsCache f)))\<lparr>fsHits := 0, fsMisses := 0\<rparr>"

definition file_Healthy :: "FileSource \<Rightarrow> bool" where
  "file_Healthy f = fsHealthy f"

definition file_Validate :: "FileSource \<Rightarrow> string option" where
  "file_Validate f =
     (if fsPath f = [] then Some ''path is required''
      else if fsFormat f \<noteq> [] \<and> fsFormat f \<noteq> ''auto'' \<and> fsFormat f \<noteq> ''json'' \<and> fsFormat f \<noteq> ''yaml''
      then Some (''format must be '' @ quoted ''auto'' @ '', '' @ quoted ''json'' @
        '', or '' @ quoted ''yaml'')
      else if fsPollInterval f < 0 then Some ''poll_interval must be non-negative''
      else None)"

subsection \<open>The watch\<close>

text \<open>
  What the \<open>select\<close> of \<open>watchLoop\<close> receives, at the time it does. The operations of an
  event are the bits of fsnotify's \<open>Op\<close>.
\<close>

datatype fs_op = Create | Write | Remove | Rename | Chmod

datatype watch_signal = Cancelled | FsEvent "fs_op list" | EventsClosed | WatchError string | ErrorsClosed

definition relevant :: "fs_op list \<Rightarrow> bool" where
  "relevant op \<longleftrightarrow> Write \<in> set op \<or> Create \<in> set op \<or> Remove \<in> set op \<or> Rename \<in> set op"

definition debounceDuration :: duration where
  "debounceDuration = 100 * 1000000"

definition fired :: "time option \<Rightarrow> time list" where
  "fired timer = (case timer of None \<Rightarrow> [] | Some t \<Rightarrow> [t])"

text \<open>
  The times at which the debounce timer runs a reload. \<open>timer\<close> is the time for which a timer
  is set that has not fired. The timer outlives a loop that returns because a channel was
  closed; only the cancelled context stops it.
\<close>

fun watch_reloads :: "time option \<Rightarrow> (time \<times> watch_signal) list \<Rightarrow> time list" where
  "watch_reloads timer [] = fired timer"
| "watch_reloads timer ((now, signal) # rest) =
     (let due = (case timer of Some t \<Rightarrow> t \<le> now | None \<Rightarrow> False);
          timer' = (if due then None else timer) in
      (if due then fired timer else []) @
      (case signal of
         Cancelled \<Rightarrow> []
       | EventsClosed \<Rightarrow> fired timer'
       | ErrorsClosed \<Rightarrow> fired timer'
       | WatchError e \<Rightarrow> watch_reloads timer' rest
       | FsEvent op \<Rightarrow>
           if relevant op then watch_reloads (Some (now + debounceDuration)) rest
           else watch_reloads timer' rest))"

definition reload_at :: "codec \<Rightarrow> routes_decoder \<Rightarrow> (time \<Rightarrow> disk) \<Rightarrow> FileSource \<Rightarrow> time \<Rightarrow> FileSource" where
  "reload_at cd dec d f t = snd (loadAll cd dec (d t) f)"

definition file_poll_interval :: "FileSource \<Rightarrow> duration" where
  "file_poll_interval f = (if fsPollInterval f = 0 then 10 * 1000000000 else fsPollInterval f)"

text \<open>The poll started at \<open>start\<close>, cancelled after its \<open>n\<close>-th tick.\<close>

definition file_pollLoop :: "codec \<Rightarrow> routes_decoder \<Rightarrow> (time \<Rightarrow> disk) \<Rightarrow> time \<Rightarrow> nat \<Rightarrow> FileSource \<Rightarrow> FileSource" where
  "file_pollLoop cd dec d start n f =
     foldl (reload_at cd dec d) f (map (\<lambda>i. start + int (Suc i) * file_poll_interval f) [0..<n])"

text \<open>\<open>watcher\<close> is the error of \<open>NewWatcher\<close> or of \<open>Add\<close>, if there is one.\<close>

definition file_watchLoop :: "codec \<Rightarrow> routes_decoder \<Rightarrow> (time \<Rightarrow> disk) \<Rightarrow> string option \<Rightarrow> time \<Rightarrow> nat \<Rightarrow>
    (time \<times> watch_signal) list \<Rightarrow> FileSource \<Rightarrow> FileSource" where
  "file_watchLoop cd dec d watcher start n signals f =
     (case watcher of
        Some e \<Rightarrow> file_pollLoop cd dec d start n f
      | None \<Rightarrow> foldl (reload_at cd dec d) f (watch_reloads None signals))"


subsection \<open>What a load leaves in the cache\<close>

text \<open>The route that one file of the directory, or one entry of the single file, stands for.\<close>

definition pair_route :: "codec \<Rightarrow> string \<times> string \<Rightarrow> (string \<times> RouteConfig) option" where
  "pair_route cd p = (case ParseRouteConfig cd (snd p) of Inr (Some c) \<Rightarrow> Some (fst p, c) | _ \<Rightarrow> None)"

definition entry_route :: "codec \<Rightarrow> dir_entry \<Rightarrow> (string \<times> RouteConfig) option" where
  "entry_route cd e =
     (if deIsDir e \<or> HasPrefix (deName e) ''.'' then None
      else case deContent e of Inl _ \<Rightarrow> None | Inr data \<Rightarrow> pair_route cd (file_key (deName e), data))"

text \<open>A step of a loop that stores at most one route, the \<open>route\<close> of its element.\<close>

definition stores_by :: "(FileSource \<times> string set \<Rightarrow> 'a \<Rightarrow> FileSource \<times> string set) \<Rightarrow> ('a \<Rightarrow> (string \<times> RouteConfig) option) \<Rightarrow> bool" where
  "stores_by step route \<longleftrightarrow> (\<forall>f L x f' L'. step (f, L) x = (f', L') \<longrightarrow>
     map_of (fsCache f') = (case route x of Some (k, c) \<Rightarrow> (map_of (fsCache f))(k \<mapsto> c) | None \<Rightarrow> map_of (fsCache f)) \<and>
     L' = (case route x of Some (k, c) \<Rightarrow> insert k L | None \<Rightarrow> L))"

lemma stores_pair: "stores_by (\<lambda>fl (key, raw). store_route cd fl key raw) (pair_route cd)"
  by (auto simp: stores_by_def store_route_def pair_route_def update_conv' split: sum.splits option.splits)

lemma stores_entry: "stores_by (load_entry cd) (entry_route cd)"
  by (auto simp: stores_by_def load_entry_def entry_route_def store_route_def pair_route_def update_conv'
      split: sum.splits option.splits)

lemma stores_fold:
  assumes "stores_by step route"
    and "(f', L') = foldl step (f, L) xs"
  shows "map_of (fsCache f') k = (case map_of (rev (List.map_filter route xs)) k of Some c \<Rightarrow> Some c | None \<Rightarrow> map_of (fsCache f) k) \<and>
    L' = L \<union> fst ` set (List.map_filter route xs)"
  using assms(2)
proof (induction xs arbitrary: f' L' rule: rev_induct)
  case Nil
  then show ?case by (simp add: map_filter_def)
next
  case (snoc x xs)
  obtain f1 L1 where s1: "foldl step (f, L) xs = (f1, L1)" by fastforce
  then have "step (f1, L1) x = (f', L')" using snoc.prems by simp
  then have "map_of (fsCache f') = (case route x of Some (k, c) \<Rightarrow> (map_of (fsCache f1))(k \<mapsto> c) | None \<Rightarrow> map_of (fsCache f1)) \<and>
      L' = (case route x of Some (k, c) \<Rightarrow> insert k L1 | None \<Rightarrow> L1)"
    using assms(1) by (simp add: stores_by_def)
  then show ?case using snoc.IH[OF s1[symmetric]] by (auto simp: map_filter_def split: option.splits)
qed

lemma drop_unloaded_spec: "map_of (fsCache (drop_unloaded (f, L))) k = (if k \<in> L then map_of (fsCache f) k else None)"
proof -
  have "map_of (fsCache (foldl (\<lambda>f k. if k \<in> L then f else f\<lparr>fsCache := AList.delete k (fsCache f)\<rparr>) g ks)) k =
      (if k \<in> set ks \<and> k \<notin> L then None else map_of (fsCache g) k)" for ks and g :: FileSource
    by (induction ks arbitrary: g) (auto simp: delete_conv)
  then show ?thesis by (auto simp: drop_unloaded_def map_of_eq_None_iff)
qed

lemma stores_load:
  assumes "stores_by step route"
  shows "map_of (fsCache (drop_unloaded (foldl step (f, {}) xs))) = map_of (rev (List.map_filter route xs))"
proof
  fix k
  obtain f' L' where s: "(f', L') = foldl step (f, {}) xs" by (metis surj_pair)
  have "map_of (rev (List.map_filter route xs)) k = None \<longleftrightarrow> k \<notin> fst ` set (List.map_filter route xs)"
    by (simp add: map_of_eq_None_iff)
  then show "map_of (fsCache (drop_unloaded (foldl step (f, {}) xs))) k = map_of (rev (List.map_filter route xs)) k"
    using stores_fold[where k = k, OF assms s] by (simp add: s[symmetric] drop_unloaded_spec split: option.splits)
qed


lemma last_stored:
  "map_of (rev (List.map_filter route xs)) k = Some c \<longleftrightarrow>
     (\<exists>pre x post. xs = pre @ x # post \<and> route x = Some (k, c) \<and> (\<forall>y \<in> set post. \<forall>c'. route y \<noteq> Some (k, c')))"
proof (induction xs rule: rev_induct)
  case Nil
  then show ?case by (simp add: map_filter_def)
next
  case (snoc x xs)
  show ?case
  proof (cases "\<exists>c'. route x = Some (k, c')")
    case True
    then obtain c' where c': "route x = Some (k, c')" by blast
    then have "map_of (rev (List.map_filter route (xs @ [x]))) k = Some c \<longleftrightarrow> c' = c" by (simp add: map_filter_def)
    moreover have "post = []" if "xs @ [x] = pre @ y # post" "\<forall>z \<in> set post. \<forall>c'. route z \<noteq> Some (k, c')" for pre y post
      using that c' by (cases post rule: rev_cases) auto
    ultimately show ?thesis using c' by fastforce
  next
    case False
    then have "map_of (rev (List.map_filter route (xs @ [x]))) k = map_of (rev (List.map_filter route xs)) k"
      by (auto simp: map_filter_def split: option.splits)
    moreover have "(\<exists>pre y post. xs @ [x] = pre @ y # post \<and> route y = Some (k, c) \<and> (\<forall>z \<in> set post. \<forall>c'. route z \<noteq> Some (k, c'))) \<longleftrightarrow>
        (\<exists>pre y post. xs = pre @ y # post \<and> route y = Some (k, c) \<and> (\<forall>z \<in> set post. \<forall>c'. route z \<noteq> Some (k, c')))" (is "?l \<longleftrightarrow> ?r")
    proof
      assume ?l
      then obtain pre y post where p: "xs @ [x] = pre @ y # post" "route y = Some (k, c)"
        "\<forall>z \<in> set post. \<forall>c'. route z \<noteq> Some (k, c')" by blast
      then obtain post' where "post = post' @ [x]" "xs = pre @ y # post'" using False by (cases post rule: rev_cases) auto
      then show ?r using p by fastforce
    next
      assume ?r
      then obtain pre y post where p: "xs = pre @ y # post" "route y = Some (k, c)"
        "\<forall>z \<in> set post. \<forall>c'. route z \<noteq> Some (k, c')" by blast
      then have "xs @ [x] = pre @ y # (post @ [x]) \<and> (\<forall>z \<in> set (post @ [x]). \<forall>c'. route z \<noteq> Some (k, c'))"
        using False by auto
      then show ?l using p(2) by blast
    qed
    ultimately show ?thesis using snoc.IH by simp
  qed
qed

text \<open>What a load of the disk \<open>d\<close> would give.\<close>

definition disk_routes :: "codec \<Rightarrow> routes_decoder \<Rightarrow> bool \<Rightarrow> disk \<Rightarrow> (string \<rightharpoonup> RouteConfig) option" where
  "disk_routes cd dec isDir d =
     (if isDir then (case dkDir d of Inl _ \<Rightarrow> None | Inr es \<Rightarrow> Some (map_of (rev (List.map_filter (entry_route cd) es))))
      else case dkFile d of
        Inl _ \<Rightarrow> None
      | Inr data \<Rightarrow> (case dec data of Inl _ \<Rightarrow> None | Inr rs \<Rightarrow> Some (map_of (rev (List.map_filter (pair_route cd) rs)))))"

definition keeps_rest :: "FileSource \<Rightarrow> FileSource \<Rightarrow> bool" where
  "keeps_rest f f' \<longleftrightarrow> fsIsDir f' = fsIsDir f \<and> fsHealthy f' = fsHealthy f \<and> fsLastError f' = fsLastError f \<and>
     fsHits f' = fsHits f \<and> fsMisses f' = fsMisses f \<and> fsPollInterval f' = fsPollInterval f"

lemma keeps_rest_store: "keeps_rest g (fst fl) \<Longrightarrow> keeps_rest g (fst (store_route cd fl k v))"
  by (auto simp: store_route_def keeps_rest_def split: sum.splits option.splits prod.splits)

lemma keeps_rest_entry: "keeps_rest g (fst fl) \<Longrightarrow> keeps_rest g (fst (load_entry cd fl e))"
  by (auto simp: load_entry_def keeps_rest_store split: sum.splits)

lemma keeps_rest_drop: "keeps_rest g (fst fl) \<Longrightarrow> keeps_rest g (drop_unloaded fl)"
proof -
  have "keeps_rest g f \<Longrightarrow> keeps_rest g (foldl (\<lambda>f k. if k \<in> L then f else f\<lparr>fsCache := AList.delete k (fsCache f)\<rparr>) f ks)" for L f ks
    by (induction ks arbitrary: f) (auto simp: keeps_rest_def)
  then show "keeps_rest g (fst fl) \<Longrightarrow> keeps_rest g (drop_unloaded fl)"
    by (auto simp: drop_unloaded_def split: prod.splits)
qed

lemma loadAll_spec:
  "case disk_routes cd dec (fsIsDir f) d of
     None \<Rightarrow> fst (loadAll cd dec d f) \<noteq> None \<and> snd (loadAll cd dec d f) = f
   | Some routes \<Rightarrow> fst (loadAll cd dec d f) = None \<and> map_of (fsCache (snd (loadAll cd dec d f))) = routes"
  by (auto simp: disk_routes_def loadAll_def loadDirectory_def loadSingleFile_def stores_load[OF stores_entry]
      stores_load[OF stores_pair] split: sum.splits)

lemma loadAll_keeps: "keeps_rest f (snd (loadAll cd dec d f))"
proof -
  have e: "keeps_rest f (fst (foldl (load_entry cd) (f, {}) es))" for es
    by (induction es rule: rev_induct) (simp_all add: keeps_rest_entry, simp add: keeps_rest_def)
  have p: "keeps_rest f (fst (foldl (\<lambda>fl (key, raw). store_route cd fl key raw) (f, {}) rs))" for rs
    by (induction rs rule: rev_induct) (auto simp: keeps_rest_store, simp add: keeps_rest_def)
  have "keeps_rest f f" by (simp add: keeps_rest_def)
  then show ?thesis
    using e p by (auto simp: loadAll_def loadDirectory_def loadSingleFile_def keeps_rest_drop split: sum.splits)
qed


subsection \<open>Properties of the file source\<close>


definition demo_file :: "string \<Rightarrow> string \<Rightarrow> dir_entry" where
  "demo_file name content = \<lparr>deName = name, deIsDir = False, deContent = Inr content\<rparr>"

definition demo_dir :: disk where
  "demo_dir = \<lparr>dkStat = Inr True,
     dkDir = Inr [demo_file ''.a.yaml'' ''up:81'', demo_file ''a.json'' ''up:81'', demo_file ''a.yaml'' ''up:80'', demo_file ''b'' ''''],
     dkFile = Inl ''is a directory''\<rparr>"

definition demo_fs :: FileSource where
  "demo_fs = \<lparr>fsPath = ''/routes'', fsFormat = ''auto'', fsWatch = Some True, fsPollInterval = 0,
     fsCache = [(''b'', empty_config)], fsHealthy = True, fsIsDir = True, fsAdminName = '''', fsLastError = '''',
     fsHits = 0, fsMisses = 0, fsParseErrors = 0\<rparr>"

lemma demo_load:
  "loadAll null_codec (\<lambda>_. Inl '''') demo_dir demo_fs =
     (None, demo_fs\<lparr>fsCache := [(''a'', empty_config\<lparr>cUpstream := ''up:80''\<rparr>)]\<rparr>)"
  by code_simp


text \<open>
  The single file, whose entries are a map: they have distinct keys, and the order in which the
  loop meets them does not matter.
\<close>

lemma file_single_exact:
  assumes "\<not> fsIsDir f" and "dkFile d = Inr data" and "dec data = Inr routes" and "distinct (map fst routes)"
    and "loadAll cd dec d f = (err, f')"
  shows "err = None \<and> (\<forall>k c. map_of (fsCache f') k = Some c \<longleftrightarrow>
    (\<exists>raw. (k, raw) \<in> set routes \<and> ParseRouteConfig cd raw = Inr (Some c)))"
proof -
  have f: "err = None" "f' = drop_unloaded (foldl (\<lambda>fl (key, raw). store_route cd fl key raw) (f, {}) routes)"
    using assms(1-3,5) by (simp_all add: loadAll_def loadSingleFile_def)
  have route: "pair_route cd x = Some (k, c) \<longleftrightarrow> fst x = k \<and> ParseRouteConfig cd (snd x) = Inr (Some c)" for x k c
    by (auto simp: pair_route_def split: sum.splits option.splits)
  have "map_of (fsCache f') k = Some c \<longleftrightarrow> (\<exists>raw. (k, raw) \<in> set routes \<and> ParseRouteConfig cd raw = Inr (Some c))" for k c
  proof
    assume "map_of (fsCache f') k = Some c"
    then show "\<exists>raw. (k, raw) \<in> set routes \<and> ParseRouteConfig cd raw = Inr (Some c)"
      by (auto simp: f(2) stores_load[OF stores_pair] last_stored route)
  next
    assume "\<exists>raw. (k, raw) \<in> set routes \<and> ParseRouteConfig cd raw = Inr (Some c)"
    then obtain raw where raw: "(k, raw) \<in> set routes" "ParseRouteConfig cd raw = Inr (Some c)" by blast
    then obtain pre post where r: "routes = pre @ (k, raw) # post" by (meson split_list)
    then have "k \<notin> fst ` set post" using assms(4) by simp
    then have "\<forall>y \<in> set post. \<forall>c'. pair_route cd y \<noteq> Some (k, c')" by (auto simp: route)
    moreover have "pair_route cd (k, raw) = Some (k, c)" using raw(2) by (simp add: route)
    ultimately show "map_of (fsCache f') k = Some c"
      unfolding f(2) stores_load[OF stores_pair] last_stored using r by blast
  qed
  then show ?thesis using f(1) by simp
qed


subsection \<open>The watch follows the disk\<close>

text \<open>The times of the events that matter; a watch that goes on (neither cancelled nor closed).\<close>

definition event_times :: "(time \<times> watch_signal) list \<Rightarrow> time list" where
  "event_times signals = [t. (t, FsEvent op) \<leftarrow> signals, relevant op]"

definition goes_on :: "(time \<times> watch_signal) list \<Rightarrow> bool" where
  "goes_on signals \<longleftrightarrow> (\<forall>x \<in> snd ` set signals. x \<noteq> Cancelled \<and> x \<noteq> EventsClosed \<and> x \<noteq> ErrorsClosed)"

text \<open>One reload for each burst: after an event that no other follows within the debounce time.\<close>

fun burst_ends :: "time list \<Rightarrow> time list" where
  "burst_ends [] = []"
| "burst_ends [t] = [t + debounceDuration]"
| "burst_ends (t # u # ts) = (if t + debounceDuration \<le> u then [t + debounceDuration] else []) @ burst_ends (u # ts)"

lemma burst_ends_last: "ts \<noteq> [] \<Longrightarrow> \<exists>rs. burst_ends ts = rs @ [last ts + debounceDuration]"
proof (induction ts rule: burst_ends.induct)
  case (3 t u ts)
  then obtain rs where "burst_ends (u # ts) = rs @ [last (u # ts) + debounceDuration]" by auto
  then show ?case by simp
qed simp_all

lemma event_times_ge: "\<forall>x \<in> set signals. now \<le> fst x \<Longrightarrow> \<forall>t \<in> set (event_times signals). now \<le> t"
  by (auto simp: event_times_def split: watch_signal.splits if_splits)

lemma burst_ends_due:
  "t + debounceDuration \<le> now \<Longrightarrow> \<forall>u \<in> set ts. now \<le> u \<Longrightarrow> burst_ends (t # ts) = [t + debounceDuration] @ burst_ends ts"
  by (cases ts) auto

lemma watch_reloads_bursts:
  assumes "sorted (map fst signals)" and "goes_on signals"
  shows "watch_reloads None signals = burst_ends (event_times signals) \<and>
    ((\<forall>x \<in> set signals. t \<le> fst x) \<longrightarrow>
      watch_reloads (Some (t + debounceDuration)) signals = burst_ends (t # event_times signals))"
  using assms
proof (induction signals arbitrary: t)
  case Nil
  then show ?case by (simp add: event_times_def fired_def)
next
  case (Cons x rest)
  obtain now signal where x: "x = (now, signal)" by fastforce
  have prems: "sorted (map fst rest)" "goes_on rest" "\<forall>y \<in> set rest. now \<le> fst y"
    using Cons.prems x by (auto simp: goes_on_def)
  note none = Cons.IH[OF prems(1,2), of t, THEN conjunct1]
  note some = Cons.IH[OF prems(1,2), THEN conjunct2, rule_format, OF prems(3)[rule_format]]
  have ge: "\<forall>u \<in> set (event_times rest). now \<le> u" using event_times_ge[OF prems(3)] .
  have signal: "(\<exists>e. signal = WatchError e) \<or> (\<exists>op. signal = FsEvent op)"
    using Cons.prems(2) x by (cases signal) (auto simp: goes_on_def)
  have times: "event_times (x # rest) =
      (case signal of FsEvent op \<Rightarrow> if relevant op then now # event_times rest else event_times rest | _ \<Rightarrow> event_times rest)"
    using x by (auto simp: event_times_def split: watch_signal.splits)
  have due: "watch_reloads (Some (t + debounceDuration)) ((now, signal) # rest) = burst_ends (t # event_times ((now, signal) # rest))"
    if "\<forall>y \<in> set (x # rest). t \<le> fst y"
    using signal times that none some x ge Cons.IH[OF prems(1,2), of t, THEN conjunct2]
      burst_ends_due[OF _ ge, of t]
    by (auto simp: fired_def Let_def)
  show ?case using due none some times signal x by (auto simp: Let_def)
qed

lemma reload_at_cache:
  assumes "disk_routes cd dec (fsIsDir f) (d t) = Some routes"
  shows "map_of (fsCache (reload_at cd dec d f t)) = routes"
  using loadAll_spec[of cd dec "d t" f] assms by (simp add: reload_at_def)

lemma keeps_rest_trans: "keeps_rest f g \<Longrightarrow> keeps_rest g h \<Longrightarrow> keeps_rest f h"
  by (simp add: keeps_rest_def)

lemma reloads_keep: "keeps_rest f (foldl (reload_at cd dec d) f ts)"
proof (induction ts rule: rev_induct)
  case (snoc t ts)
  have "keeps_rest g (reload_at cd dec d g t)" for g unfolding reload_at_def by (rule loadAll_keeps)
  from keeps_rest_trans[OF snoc this] show ?case by simp
qed (simp add: keeps_rest_def)


definition demo_signals :: "(time \<times> watch_signal) list" where
  "demo_signals = [(0, FsEvent [Create]), (50000000, FsEvent [Write]), (60000000, FsEvent [Chmod]), (70000000, WatchError ''overflow'')]"


subsection \<open>The source implements the interface\<close>

lemma file_data_source: "data_source (\<lambda>_::unit. file_Get) file_Healthy (\<lambda>_. True) (\<lambda>_ f. map_of (fsCache f))"
  by unfold_locales (auto simp: file_Get_def file_Healthy_def split: option.splits)

interpretation fs: data_source "\<lambda>_::unit. file_Get" file_Healthy "\<lambda>_. True" "\<lambda>_ f. map_of (fsCache f)"
  by (rule file_data_source)

end
