(* ===== verification/Zookeeper.thy ===== *)
theory Zookeeper
  imports SoftSource
begin

section \<open>The ZooKeeper source: datasource/zookeeper/zookeeper.go\<close>

text \<open>
  \<open>ZookeeperSource\<close>: the paths of the nodes, provisioning with the initial load, lookups, the
  session events, and the watches. ZooKeeper is a parameter (\<open>zk_api\<close>): what \<open>Connect\<close>,
  \<open>AddAuth\<close>, \<open>Exists\<close>, \<open>Children\<close> and \<open>Get\<close> answer. There is one goroutine per watched
  node, and several may watch the same node; their steps (read, write to the cache, event), the
  changes of the nodes and the lookups interleave freely in \<open>zk_history\<close>, except that a lookup
  is one step.
\<close>

record zk_api =
  zk_connect :: "string option"
  zk_addAuth :: "string \<Rightarrow> string option"
  zk_exists :: "string \<Rightarrow> bool res"
  zk_children :: "string \<Rightarrow> string list res"
  zk_get :: "string \<Rightarrow> fetched"

record 'c ZookeeperSource = "'c source" +
  zServers :: "string list"
  zBasePath :: string
  zSessionTimeout :: duration
  zMaxCacheSize :: int
  zInitialLoadTimeout :: duration
  zUsername :: string
  zPassword :: string

definition zk_AdminType :: string where
  "zk_AdminType = ''zookeeper''"

subsection \<open>Paths\<close>

text \<open>
  \<open>path.Clean\<close> and \<open>path.Join\<close> of two elements. \<open>st\<close> holds the elements kept so far, the last
  one first.
\<close>

fun clean_elems :: "bool \<Rightarrow> string list \<Rightarrow> string list \<Rightarrow> string list" where
  "clean_elems rooted st [] = rev st"
| "clean_elems rooted st (p # ps) =
     (if p = [] \<or> p = ''.'' then clean_elems rooted st ps
      else if p = ''..'' then
        (case st of
           [] \<Rightarrow> clean_elems rooted (if rooted then [] else [''..'']) ps
         | q # st' \<Rightarrow> clean_elems rooted (if q = ''..'' then p # st else st') ps)
      else clean_elems rooted (p # st) ps)"

fun join_elems :: "string list \<Rightarrow> string" where
  "join_elems [] = []"
| "join_elems [p] = p"
| "join_elems (p # q # ps) = p @ ''/'' @ join_elems (q # ps)"

definition Clean :: "string \<Rightarrow> string" where
  "Clean path =
     (let rooted = HasPrefix path ''/''; es = clean_elems rooted [] (Split path (CHR ''/'')) in
      if es = [] then (if rooted then ''/'' else ''.'') else (if rooted then ''/'' else []) @ join_elems es)"

definition Join :: "string \<Rightarrow> string \<Rightarrow> string" where
  "Join a b = (if a = [] \<and> b = [] then [] else Clean (if a = [] then b else a @ ''/'' @ b))"

definition zk_nodePath :: "('c, 'x) ZookeeperSource_scheme \<Rightarrow> string \<Rightarrow> string" where
  "zk_nodePath z key = Join (zBasePath z) key"

subsection \<open>The initial load\<close>

text \<open>\<open>ctxErr n\<close> is the error of the context at its \<open>n\<close>-th check.\<close>

fun load_children :: "'c route_lru \<Rightarrow> codec \<Rightarrow> zk_api \<Rightarrow> (nat \<Rightarrow> string option) \<Rightarrow> nat \<Rightarrow> ('c, 'x) ZookeeperSource_scheme \<Rightarrow>
    string list \<Rightarrow> string option \<times> ('c, 'x) ZookeeperSource_scheme" where
  "load_children ops cd api ctxErr n z [] = (None, z)"
| "load_children ops cd api ctxErr n z (child # children) =
     (case ctxErr n of
        Some e \<Rightarrow> (Some e, z)
      | None \<Rightarrow>
          load_children ops cd api ctxErr (Suc n)
            (case zk_get api (zk_nodePath z child) of
               Value data \<Rightarrow> fst (load_row ops cd (z, {}) (Some (child, data)))
             | _ \<Rightarrow> z) children)"

definition zk_initialLoad :: "'c route_lru \<Rightarrow> codec \<Rightarrow> zk_api \<Rightarrow> (nat \<Rightarrow> string option) \<Rightarrow> ('c, 'x) ZookeeperSource_scheme \<Rightarrow>
    string option \<times> ('c, 'x) ZookeeperSource_scheme" where
  "zk_initialLoad ops cd api ctxErr z =
     (case ctxErr 0 of
        Some e \<Rightarrow> (Some e, z)
      | None \<Rightarrow>
          case zk_exists api (zBasePath z) of
            Inl err \<Rightarrow> (Some (''failed to check base path: '' @ err), z)
          | Inr found \<Rightarrow>
              if \<not> found then (None, z)
              else case zk_children api (zBasePath z) of
                Inl err \<Rightarrow> (Some (''failed to get children: '' @ err), z)
              | Inr children \<Rightarrow> load_children ops cd api ctxErr 1 z children)"

subsection \<open>Provision, Cleanup, Get and the admin methods\<close>

definition zk_defaults :: "('c, 'x) ZookeeperSource_scheme \<Rightarrow> ('c, 'x) ZookeeperSource_scheme" where
  "zk_defaults z =
     z\<lparr>zBasePath := (if zBasePath z = [] then ''/caddy/routing'' else zBasePath z),
       zSessionTimeout := (if zSessionTimeout z = 0 then 10000000000 else zSessionTimeout z),
       zMaxCacheSize := (if zMaxCacheSize z \<le> 0 then 10000 else zMaxCacheSize z)\<rparr>"

definition zk_connected :: "zk_api \<Rightarrow> ('c, 'x) ZookeeperSource_scheme \<Rightarrow> string option" where
  "zk_connected api z =
     (case zk_connect api of
        Some err \<Rightarrow> Some (''failed to connect to zookeeper: '' @ err)
      | None \<Rightarrow>
          if zUsername z \<noteq> [] \<and> zPassword z \<noteq> []
          then map_option (\<lambda>err. ''zookeeper authentication failed: '' @ err) (zk_addAuth api (zUsername z @ '':'' @ zPassword z))
          else None)"

definition zk_Provision :: "'c route_lru \<Rightarrow> codec \<Rightarrow> zk_api \<Rightarrow> (nat \<Rightarrow> string option) \<Rightarrow> 'd \<Rightarrow> 'd adminRegistry \<Rightarrow>
    ('c, 'x) ZookeeperSource_scheme \<Rightarrow> string option \<times> 'd adminRegistry \<times> ('c, 'x) ZookeeperSource_scheme" where
  "zk_Provision ops cd api ctxErr self g z0 =
     (let z = zk_defaults z0; z = z\<lparr>src_cache := NewRouteCache ops (zMaxCacheSize z)\<rparr> in
      case zk_connected api z of
        Some e \<Rightarrow> (Some e, g, z)
      | None \<Rightarrow>
          let z1 = (case zk_initialLoad ops cd api ctxErr z of
                      (Some e, z1) \<Rightarrow> z1\<lparr>src_lastError := e, src_healthy := False\<rparr>
                    | (None, z1) \<Rightarrow> z1\<lparr>src_healthy := True, src_lastError := ''''\<rparr>);
              (name, g') = RegisterAdminSource g (Some self) zk_AdminType ''''
          in (None, g', z1\<lparr>src_adminName := name\<rparr>))"

definition zk_Cleanup :: "'d adminRegistry \<Rightarrow> ('c, 'x) ZookeeperSource_scheme \<Rightarrow> 'd adminRegistry \<times> ('c, 'x) ZookeeperSource_scheme" where
  "zk_Cleanup g z = (UnregisterAdminSource g (src_adminName z), z\<lparr>src_adminName := ''''\<rparr>)"

definition zk_Get :: "'c route_lru \<Rightarrow> codec \<Rightarrow> (nat \<Rightarrow> time) \<Rightarrow> (string \<Rightarrow> fetched) \<Rightarrow> ('c, 'x) ZookeeperSource_scheme \<Rightarrow>
    string \<Rightarrow> RouteConfig option res \<times> ('c, 'x) ZookeeperSource_scheme" where
  "zk_Get ops cd ts conn z key =
     (let nodePath = zk_nodePath z in
      look_with ops ts
        (soft_fetch False (\<lambda>e. ''failed to get znode '' @ nodePath key @ '': '' @ e) ops cd ts (\<lambda>key. conn (nodePath key))) z key)"

definition zk_Healthy :: "('c, 'x) ZookeeperSource_scheme \<Rightarrow> bool" where
  "zk_Healthy z = src_healthy z"

definition zk_AdminLastError :: "('c, 'x) ZookeeperSource_scheme \<Rightarrow> string" where
  "zk_AdminLastError z = src_lastError z"

definition zk_AdminListRoutes :: "'c route_lru \<Rightarrow> ('c, 'x) ZookeeperSource_scheme \<Rightarrow> AdminRouteInfo list" where
  "zk_AdminListRoutes ops z = src_AdminListRoutes ops id z"

definition zk_AdminCacheStats :: "'c route_lru \<Rightarrow> ('c, 'x) ZookeeperSource_scheme \<Rightarrow> AdminCacheStats" where
  "zk_AdminCacheStats ops z = src_AdminCacheStats ops z"

definition zk_AdminClearCache :: "'c route_lru \<Rightarrow> ('c, 'x) ZookeeperSource_scheme \<Rightarrow> ('c, 'x) ZookeeperSource_scheme" where
  "zk_AdminClearCache ops z = src_AdminClearCache ops z"

fun zk_Validate_servers :: "string list \<Rightarrow> string option" where
  "zk_Validate_servers [] = None"
| "zk_Validate_servers (server # servers) =
     (if \<not> Contains server '':'' then Some (''server address must include port: '' @ server) else zk_Validate_servers servers)"

definition zk_Validate :: "('c, 'x) ZookeeperSource_scheme \<Rightarrow> string option" where
  "zk_Validate z =
     (if zServers z = [] then Some ''at least one server is required''
      else case zk_Validate_servers (zServers z) of
        Some e \<Rightarrow> Some e
      | None \<Rightarrow>
          if zSessionTimeout z < 0 then Some ''session_timeout must be non-negative''
          else if zMaxCacheSize z < 0 then Some ''max_cache_size must be non-negative''
          else None)"

subsection \<open>Session events and watches\<close>

text \<open>The session states that the code has a case for, and the others.\<close>

datatype zk_state = StateConnected | StateHasSession | StateDisconnected | StateExpired | OtherState

fun handleSessionEvents :: "('c, 'x) ZookeeperSource_scheme \<Rightarrow> zk_state list \<Rightarrow> ('c, 'x) ZookeeperSource_scheme" where
  "handleSessionEvents z [] = z"
| "handleSessionEvents z (st # sts) =
     handleSessionEvents
       (case st of
          StateConnected \<Rightarrow> z\<lparr>src_healthy := True\<rparr>
        | StateHasSession \<Rightarrow> z\<lparr>src_healthy := True\<rparr>
        | StateDisconnected \<Rightarrow> z\<lparr>src_healthy := False\<rparr>
        | StateExpired \<Rightarrow> z\<lparr>src_healthy := False\<rparr>
        | OtherState \<Rightarrow> z) sts"

text \<open>One turn of \<open>watchChildren\<close>: the sleep before the next one, the nodes that get a watcher.\<close>

datatype children_answer = NoBasePath | ChildrenError string | ChildrenOf "string list"

fun watchChildren_turn :: "children_answer \<Rightarrow> duration option \<times> string list" where
  "watchChildren_turn NoBasePath = (Some 5000000000, [])"
| "watchChildren_turn (ChildrenError e) = (Some 1000000000, [])"
| "watchChildren_turn (ChildrenOf children) = (None, children)"

text \<open>
  A goroutine in \<open>watchNode\<close>: about to call \<open>GetW\<close>; back from it with the answer; or waiting for the
  event. \<open>wEvent\<close> is the event that its watch has received and that it has not read.
\<close>

datatype node_event = EventNodeDeleted | EventNodeDataChanged | OtherNodeEvent

datatype watch_phase = Reading | Got fetched | Waiting

record watcher =
  wKey :: string
  wPhase :: watch_phase
  wEvent :: "node_event option"

definition new_watcher :: "string \<Rightarrow> watcher" where
  "new_watcher key = \<lparr>wKey = key, wPhase = Reading, wEvent = None\<rparr>"

text \<open>\<open>GetW\<close> with the answer \<open>r\<close>; it sets the watch when it succeeds.\<close>

definition watch_read :: "fetched \<Rightarrow> watcher \<Rightarrow> watcher" where
  "watch_read r w = w\<lparr>wPhase := Got r, wEvent := None\<rparr>"

text \<open>The code after \<open>GetW\<close>, up to the wait; \<open>None\<close> when the goroutine returns.\<close>

definition watch_write :: "'c route_lru \<Rightarrow> codec \<Rightarrow> fetched \<Rightarrow> watcher \<Rightarrow> ('c, 'x) ZookeeperSource_scheme \<Rightarrow>
    watcher option \<times> ('c, 'x) ZookeeperSource_scheme" where
  "watch_write ops cd r w z =
     (case r of
        Missing \<Rightarrow> (None, z\<lparr>src_cache := rc_Delete ops (src_cache z) (wKey w)\<rparr>)
      | FetchError e \<Rightarrow> (None, z)
      | Value data \<Rightarrow> (Some (w\<lparr>wPhase := Waiting\<rparr>), fst (load_row ops cd (z, {}) (Some (wKey w, data)))))"

definition watch_event :: "'c route_lru \<Rightarrow> node_event \<Rightarrow> watcher \<Rightarrow> ('c, 'x) ZookeeperSource_scheme \<Rightarrow>
    watcher option \<times> ('c, 'x) ZookeeperSource_scheme" where
  "watch_event ops ev w z =
     (case ev of
        EventNodeDeleted \<Rightarrow> (None, z\<lparr>src_cache := rc_Delete ops (src_cache z) (wKey w)\<rparr>)
      | _ \<Rightarrow> (Some (w\<lparr>wPhase := Reading, wEvent := None\<rparr>), z))"


subsection \<open>Interleaved watchers\<close>

text \<open>
  The nodes of ZooKeeper (the data at a path), the source and the goroutines in \<open>watchNode\<close>. An action is
  a change of a node, one step of the goroutine at a position, a turn of \<open>watchChildren\<close>, a
  session event, a lookup or a clear. A change fires every watch that is set on the path.
\<close>

record 'c zk_world =
  zwNodes :: "string \<rightharpoonup> string"
  zwSource :: "'c ZookeeperSource"
  zwWatchers :: "watcher list"

datatype zk_act =
    ZChange string "string option"
  | ZRead nat fetched
  | ZWrite nat
  | ZEvent nat
  | ZChildren children_answer
  | ZSession zk_state
  | ZGet "nat \<Rightarrow> time" "string \<Rightarrow> fetched" string
  | ZClear

definition watch_path :: "'c zk_world \<Rightarrow> string \<Rightarrow> string" where
  "watch_path w key = zk_nodePath (zwSource w) key"

definition armed :: "watcher \<Rightarrow> bool" where
  "armed wt \<longleftrightarrow> wEvent wt = None \<and> (case wPhase wt of Waiting \<Rightarrow> True | Got (Value d) \<Rightarrow> True | _ \<Rightarrow> False)"

definition fire :: "'c zk_world \<Rightarrow> string \<Rightarrow> string option \<Rightarrow> watcher \<Rightarrow> watcher" where
  "fire w p v wt =
     (if watch_path w (wKey wt) = p \<and> armed wt
      then wt\<lparr>wEvent := Some (if v = None then EventNodeDeleted else EventNodeDataChanged)\<rparr> else wt)"

definition put_watcher :: "nat \<Rightarrow> watcher option \<Rightarrow> watcher list \<Rightarrow> watcher list" where
  "put_watcher i wo ws = take i ws @ (case wo of None \<Rightarrow> [] | Some wt \<Rightarrow> [wt]) @ drop (Suc i) ws"

fun zk_do :: "'c route_lru \<Rightarrow> codec \<Rightarrow> 'c zk_world \<Rightarrow> zk_act \<Rightarrow> 'c zk_world" where
  "zk_do ops cd w (ZChange p v) = w\<lparr>zwNodes := (zwNodes w)(p := v), zwWatchers := map (fire w p v) (zwWatchers w)\<rparr>"
| "zk_do ops cd w (ZRead i r) =
     w\<lparr>zwWatchers := put_watcher i (Some (watch_read r (zwWatchers w ! i))) (zwWatchers w)\<rparr>"
| "zk_do ops cd w (ZWrite i) =
     (case wPhase (zwWatchers w ! i) of
        Got r \<Rightarrow>
          let (wo, z) = watch_write ops cd r (zwWatchers w ! i) (zwSource w)
          in w\<lparr>zwSource := z, zwWatchers := put_watcher i wo (zwWatchers w)\<rparr>
      | _ \<Rightarrow> w)"
| "zk_do ops cd w (ZEvent i) =
     (case wEvent (zwWatchers w ! i) of
        Some ev \<Rightarrow>
          let (wo, z) = watch_event ops ev (zwWatchers w ! i) (zwSource w)
          in w\<lparr>zwSource := z, zwWatchers := put_watcher i wo (zwWatchers w)\<rparr>
      | None \<Rightarrow> w)"
| "zk_do ops cd w (ZChildren ans) = w\<lparr>zwWatchers := zwWatchers w @ map new_watcher (snd (watchChildren_turn ans))\<rparr>"
| "zk_do ops cd w (ZSession st) = w\<lparr>zwSource := handleSessionEvents (zwSource w) [st]\<rparr>"
| "zk_do ops cd w (ZGet ts conn key) = w\<lparr>zwSource := snd (zk_Get ops cd ts conn (zwSource w) key)\<rparr>"
| "zk_do ops cd w ZClear = w\<lparr>zwSource := zk_AdminClearCache ops (zwSource w)\<rparr>"

text \<open>
  When an action can happen. The answers of ZooKeeper are what the nodes hold; a lookup may also get an
  error, a watcher not (it would give up the node).
\<close>

fun zk_act_ok :: "'c zk_world \<Rightarrow> zk_act \<Rightarrow> bool" where
  "zk_act_ok w (ZRead i r) \<longleftrightarrow> i < length (zwWatchers w) \<and> wPhase (zwWatchers w ! i) = Reading \<and>
     r = backend_of (zwNodes w) (watch_path w (wKey (zwWatchers w ! i)))"
| "zk_act_ok w (ZWrite i) \<longleftrightarrow> i < length (zwWatchers w) \<and>
     (case wPhase (zwWatchers w ! i) of Got r \<Rightarrow> True | _ \<Rightarrow> False)"
| "zk_act_ok w (ZEvent i) \<longleftrightarrow> i < length (zwWatchers w) \<and> wPhase (zwWatchers w ! i) = Waiting \<and> wEvent (zwWatchers w ! i) \<noteq> None"
| "zk_act_ok w (ZGet ts conn key) \<longleftrightarrow> (\<forall>p. conn p = backend_of (zwNodes w) p \<or> (\<exists>e. conn p = FetchError e))"
| "zk_act_ok w _ \<longleftrightarrow> True"

inductive zk_history :: "'c route_lru \<Rightarrow> codec \<Rightarrow> 'c zk_world \<Rightarrow> 'c zk_world \<Rightarrow> bool" for ops cd w0 where
  zk_refl: "zk_history ops cd w0 w0"
| zk_step: "zk_history ops cd w0 w \<Longrightarrow> zk_act_ok w a \<Longrightarrow> zk_history ops cd w0 (zk_do ops cd w a)"

text \<open>A watcher with nothing to do.\<close>

definition idle :: "watcher \<Rightarrow> bool" where
  "idle wt \<longleftrightarrow> wPhase wt = Waiting \<and> wEvent wt = None"

text \<open>The nodes by key, and a cache that agrees with the node of \<open>k\<close>, unless its text does not parse.\<close>

definition node_of :: "'c zk_world \<Rightarrow> string \<rightharpoonup> string" where
  "node_of w k = zwNodes w (watch_path w k)"

definition fresh :: "'c route_lru \<Rightarrow> codec \<Rightarrow> (string \<rightharpoonup> string) \<Rightarrow> string \<Rightarrow> ('c, 'x) source_scheme \<Rightarrow> bool" where
  "fresh ops cd m k z \<longleftrightarrow> coherent_on (if \<exists>v. m k = Some v \<and> \<not> readable cd v then {} else {k}) ops cd m z"

lemma fresh_cong: "m k = m' k \<Longrightarrow> fresh ops cd m k z = fresh ops cd m' k z"
  by (simp add: fresh_def coherent_on_def parses_to_def)

context route_lru
begin

lemma fresh_load_row:
  assumes "src_inv cap ok z" and "load_row ops cd (z, S) (Some (k', data)) = (z', S')"
  shows "src_inv cap ok z' \<and> source.more z' = source.more z \<and> (k' \<noteq> k \<longrightarrow> fresh ops cd m k z \<longrightarrow> fresh ops cd m k z') \<and>
    (m k' = Some data \<longrightarrow> fresh ops cd m k' z')"
proof (cases "ParseRouteConfig cd data")
  case (Inl e)
  then have "\<not> readable cd data" by (simp add: readable_def)
  then show ?thesis using assms Inl by (auto simp: fresh_def coherent_on_def src_inv_def)
next
  case (Inr c)
  then have z': "z' = z\<lparr>src_cache := rc_Set ops (src_cache z) k' c\<rparr>" using assms(2) by simp
  have okc: "ok (rc_cache (src_cache z))" by (rule src_inv_ok[OF assms(1)])
  have "fresh ops cd m k z'" if "k' \<noteq> k" "fresh ops cd m k z"
    using that add_sub[OF okc, of k' c k] by (fastforce simp: z' fresh_def coherent_on_def rc_Set_def)
  moreover have "fresh ops cd m k' z'" if "m k' = Some data"
    using that Inr add_same[OF okc, of k' c] by (auto simp: z' fresh_def coherent_on_def rc_Set_def parses_to_def)
  ultimately show ?thesis using assms(1) rc_inv_Set[of "src_cache z" k' c] by (simp add: z' src_inv_def)
qed

lemma fresh_Delete:
  assumes "src_inv cap ok z" and "z' = z\<lparr>src_cache := rc_Delete ops (src_cache z) k'\<rparr>"
  shows "src_inv cap ok z' \<and> source.more z' = source.more z \<and> (fresh ops cd m k z \<longrightarrow> fresh ops cd m k z') \<and> fresh ops cd m k' z'"
proof -
  have "fresh ops cd m k z \<longrightarrow> fresh ops cd m k z'"
    using Delete_coherent_on[OF assms(1) _ assms(2)] by (auto simp: fresh_def intro: coherent_on_mono)
  moreover have "coherent_on {} ops cd m z" by (simp add: coherent_on_def)
  ultimately show ?thesis
    using Delete_coherent_on[OF assms(1) _ assms(2)] assms by (auto simp: fresh_def intro: coherent_on_mono)
qed

end


text \<open>
  The invariant of the interleaving: a watcher that has read a node and has not been notified
  since holds what the node holds; and for every watched node the cache agrees with it, or
  some watcher of it still has something to do.
\<close>

definition zk_inv :: "'c route_lru \<Rightarrow> ('c \<Rightarrow> nat) \<Rightarrow> ('c \<Rightarrow> bool) \<Rightarrow> codec \<Rightarrow> 'c zk_world \<Rightarrow> bool" where
  "zk_inv ops cap ok cd w \<longleftrightarrow> src_inv cap ok (zwSource w) \<and>
     (\<forall>wt \<in> set (zwWatchers w). (\<forall>e. wPhase wt \<noteq> Got (FetchError e)) \<and>
        (\<forall>d. wPhase wt = Got (Value d) \<and> wEvent wt = None \<longrightarrow> node_of w (wKey wt) = Some d)) \<and>
     (\<forall>k \<in> wKey ` set (zwWatchers w).
        fresh ops cd (node_of w) k (zwSource w) \<or> (\<exists>wt \<in> set (zwWatchers w). wKey wt = k \<and> \<not> idle wt))"

lemma zBasePath_more: "source.more z' = source.more z \<Longrightarrow> zBasePath z' = zBasePath (z :: 'c ZookeeperSource)"
  by (cases z; cases z') (simp add: ZookeeperSource.defs)

lemma node_of_source: "source.more z = source.more (zwSource w) \<Longrightarrow> node_of (w\<lparr>zwSource := z\<rparr>) = node_of w"
  using zBasePath_more[of z "zwSource w"] by (simp add: fun_eq_iff node_of_def watch_path_def zk_nodePath_def)

lemma node_of_watchers [simp]: "node_of (w\<lparr>zwWatchers := ws\<rparr>) = node_of w"
  by (simp add: fun_eq_iff node_of_def watch_path_def zk_nodePath_def)

lemma zk_inv_source:
  assumes "zk_inv ops cap ok cd w" and "src_inv cap ok z" and "source.more z = source.more (zwSource w)"
    and "\<And>k. fresh ops cd (node_of w) k (zwSource w) \<Longrightarrow> fresh ops cd (node_of w) k z"
  shows "zk_inv ops cap ok cd (w\<lparr>zwSource := z\<rparr>)"
proof -
  have "node_of (w\<lparr>zwSource := z\<rparr>) = node_of w" by (rule node_of_source[OF assms(3)])
  then show ?thesis using assms by (auto simp: zk_inv_def)
qed

lemma zk_inv_put:
  assumes "zk_inv ops cap ok cd w" and "i < length (zwWatchers w)" and "wt = zwWatchers w ! i"
    and "src_inv cap ok z" and "source.more z = source.more (zwSource w)"
    and "\<And>k. k \<noteq> wKey wt \<Longrightarrow> fresh ops cd (node_of w) k (zwSource w) \<Longrightarrow> fresh ops cd (node_of w) k z"
    and "fresh ops cd (node_of w) (wKey wt) z \<or> (\<exists>new. wo = Some new \<and> \<not> idle new)"
    and "\<And>new. wo = Some new \<Longrightarrow> wKey new = wKey wt \<and> (\<forall>e. wPhase new \<noteq> Got (FetchError e)) \<and>
      (\<forall>d. wPhase new = Got (Value d) \<and> wEvent new = None \<longrightarrow> node_of w (wKey wt) = Some d)"
  shows "zk_inv ops cap ok cd (w\<lparr>zwSource := z, zwWatchers := put_watcher i wo (zwWatchers w)\<rparr>)"
proof -
  let ?pre = "take i (zwWatchers w)" and ?post = "drop (Suc i) (zwWatchers w)"
  have ws: "zwWatchers w = ?pre @ wt # ?post" using assms(2,3) by (simp add: id_take_nth_drop)
  have old: "set (zwWatchers w) = insert wt (set ?pre \<union> set ?post)" by (subst ws) auto
  have new: "set (put_watcher i wo (zwWatchers w)) = set ?pre \<union> set ?post \<union> set_option wo"
    by (cases wo) (auto simp: put_watcher_def)
  have "fresh ops cd (node_of w) k z \<or> (\<exists>v \<in> set (put_watcher i wo (zwWatchers w)). wKey v = k \<and> \<not> idle v)"
    if "k \<in> wKey ` set (put_watcher i wo (zwWatchers w))" for k
  proof (cases "k = wKey wt")
    case True
    then show ?thesis using assms(7,8) new by fastforce
  next
    case False
    then have "k \<in> wKey ` (set ?pre \<union> set ?post)" using that new assms(8) by auto
    then have "k \<in> wKey ` set (zwWatchers w)" using old by auto
    then consider "fresh ops cd (node_of w) k (zwSource w)" | v where "v \<in> set (zwWatchers w)" "wKey v = k" "\<not> idle v"
      using assms(1) unfolding zk_inv_def by blast
    then show ?thesis
    proof cases
      case 2
      then have "v \<in> set (put_watcher i wo (zwWatchers w))" using False old new by auto
      then show ?thesis using 2 by blast
    qed (use assms(6) False in blast)
  qed
  moreover have "(\<forall>e. wPhase v \<noteq> Got (FetchError e)) \<and>
      (\<forall>d. wPhase v = Got (Value d) \<and> wEvent v = None \<longrightarrow> node_of w (wKey v) = Some d)"
    if "v \<in> set (put_watcher i wo (zwWatchers w))" for v
  proof (cases "wo = Some v")
    case True
    then show ?thesis using assms(8)[OF True] by simp
  next
    case False
    then have "v \<in> set (zwWatchers w)" using that old new by auto
    then show ?thesis using assms(1) unfolding zk_inv_def by blast
  qed
  ultimately show ?thesis using assms(4) by (simp add: zk_inv_def node_of_source[OF assms(5)])
qed

lemma zk_inv_change:
  assumes "zk_inv ops cap ok cd w"
  shows "zk_inv ops cap ok cd (zk_do ops cd w (ZChange p v))" (is "zk_inv _ _ _ _ ?w")
proof -

  have node: "node_of (w\<lparr>zwNodes := (zwNodes w)(p := v)\<rparr>) k = (if watch_path w k = p then v else node_of w k)" for k
    by (simp add: node_of_def watch_path_def zk_nodePath_def)
  have key: "wKey (fire w p v wt) = wKey wt" "wPhase (fire w p v wt) = wPhase wt" for wt by (simp_all add: fire_def)
  have busy: "\<not> idle (fire w p v wt)" if "\<not> idle wt \<or> watch_path w (wKey wt) = p" for wt
    using that by (auto simp: idle_def fire_def armed_def split: if_splits)
  have "node_of ?w (wKey wt) = Some d"
    if "wt \<in> set (zwWatchers w)" "wPhase wt = Got (Value d)" "wEvent (fire w p v wt) = None" for wt d
    using that assms by (auto simp: zk_inv_def node fire_def armed_def split: if_splits)
  moreover have "fresh ops cd (node_of ?w) k (zwSource w) \<or> (\<exists>wt \<in> set (zwWatchers w). wKey wt = k \<and> \<not> idle (fire w p v wt))"
    if "k \<in> wKey ` set (zwWatchers w)" for k
  proof (cases "watch_path w k = p")
    case True
    then show ?thesis using that busy by auto
  next
    case False
    then have "fresh ops cd (node_of ?w) k (zwSource w) = fresh ops cd (node_of w) k (zwSource w)"
      by (intro fresh_cong) (simp add: node)
    then show ?thesis using assms that busy unfolding zk_inv_def by blast
  qed
  ultimately show ?thesis using assms by (auto simp: zk_inv_def key image_image)
qed

lemma zk_inv_read:
  assumes "route_lru ops cap ok" and "zk_inv ops cap ok cd w" and "zk_act_ok w (ZRead i r)"
  shows "zk_inv ops cap ok cd (zk_do ops cd w (ZRead i r))"
proof -
  have inv: "src_inv cap ok (zwSource w)" using assms(2) by (simp add: zk_inv_def)
  have "zk_inv ops cap ok cd (w\<lparr>zwSource := zwSource w, zwWatchers := put_watcher i (Some (watch_read r (zwWatchers w ! i))) (zwWatchers w)\<rparr>)"
    using assms(3) inv
    by (intro zk_inv_put[OF assms(2) _ refl])
      (auto simp: watch_read_def idle_def backend_of_def node_of_def split: option.splits)
  then show ?thesis by simp
qed

lemma zk_inv_write:
  assumes "route_lru ops cap ok" and "zk_inv ops cap ok cd w" and "zk_act_ok w (ZWrite i)"
  shows "zk_inv ops cap ok cd (zk_do ops cd w (ZWrite i))"
proof -
  have inv: "src_inv cap ok (zwSource w)" using assms(2) by (simp add: zk_inv_def)
  let ?wt = "zwWatchers w ! i"
  have i: "i < length (zwWatchers w)" using assms(3) by simp
  then have wt: "?wt \<in> set (zwWatchers w)" by simp
  obtain r where r: "wPhase ?wt = Got r" using assms(3) by (auto split: watch_phase.splits)
  obtain wo z where step: "watch_write ops cd r ?wt (zwSource w) = (wo, z)" by fastforce
  have "zk_inv ops cap ok cd (w\<lparr>zwSource := z, zwWatchers := put_watcher i wo (zwWatchers w)\<rparr>)"
  proof (cases r)
    case (FetchError e)
    then show ?thesis using r wt assms(2) by (auto simp: zk_inv_def)
  next
    case Missing
    then have e: "wo = None" "z = (zwSource w)\<lparr>src_cache := rc_Delete ops (src_cache (zwSource w)) (wKey ?wt)\<rparr>"
      using step by (auto simp: watch_write_def)
    note del = route_lru.fresh_Delete[OF assms(1) inv e(2)]
    show ?thesis using del e(1) by (intro zk_inv_put[OF assms(2) i refl]) auto
  next
    case (Value d)
    obtain S where e: "wo = Some (?wt\<lparr>wPhase := Waiting\<rparr>)" "load_row ops cd (zwSource w, {}) (Some (wKey ?wt, d)) = (z, S)"
      using step Value by (auto simp: watch_write_def) (metis surjective_pairing)
    note lr = route_lru.fresh_load_row[OF assms(1) inv e(2)]
    have "node_of w (wKey ?wt) = Some d" if "wEvent ?wt = None" using that r Value wt assms(2) by (auto simp: zk_inv_def)
    then show ?thesis using lr e(1) by (intro zk_inv_put[OF assms(2) i refl]) (auto simp: idle_def)
  qed
  then show ?thesis using r step by simp
qed

lemma zk_inv_event:
  assumes "route_lru ops cap ok" and "zk_inv ops cap ok cd w" and "zk_act_ok w (ZEvent i)"
  shows "zk_inv ops cap ok cd (zk_do ops cd w (ZEvent i))"
proof -
  have inv: "src_inv cap ok (zwSource w)" using assms(2) by (simp add: zk_inv_def)
  let ?wt = "zwWatchers w ! i"
  have i: "i < length (zwWatchers w)" using assms(3) by simp
  obtain ev where ev: "wEvent ?wt = Some ev" using assms(3) by auto
  obtain wo z where step: "watch_event ops ev ?wt (zwSource w) = (wo, z)" by fastforce
  have "zk_inv ops cap ok cd (w\<lparr>zwSource := z, zwWatchers := put_watcher i wo (zwWatchers w)\<rparr>)"
  proof (cases "ev = EventNodeDeleted")
    case True
    then have e: "wo = None" "z = (zwSource w)\<lparr>src_cache := rc_Delete ops (src_cache (zwSource w)) (wKey ?wt)\<rparr>"
      using step by (auto simp: watch_event_def)
    show ?thesis using route_lru.fresh_Delete[OF assms(1) inv e(2)] e(1) by (intro zk_inv_put[OF assms(2) i refl]) auto
  next
    case False
    then have "wo = Some (?wt\<lparr>wPhase := Reading, wEvent := None\<rparr>)" "z = zwSource w"
      using step by (cases ev; simp add: watch_event_def)+
    then show ?thesis using inv by (intro zk_inv_put[OF assms(2) i refl]) (auto simp: idle_def)
  qed
  then show ?thesis using ev step by simp
qed

lemma zk_inv_children:
  assumes "route_lru ops cap ok" and "zk_inv ops cap ok cd w" and "zk_act_ok w (ZChildren ans)"
  shows "zk_inv ops cap ok cd (zk_do ops cd w (ZChildren ans))"
proof -
  have inv: "src_inv cap ok (zwSource w)" using assms(2) by (simp add: zk_inv_def)
  let ?new = "map new_watcher (snd (watchChildren_turn ans))"
  have new: "wPhase wt = Reading" if "wt \<in> set ?new" for wt using that by (auto simp: new_watcher_def)
  have "fresh ops cd (node_of w) k (zwSource w) \<or> (\<exists>wt \<in> set (zwWatchers w) \<union> set ?new. wKey wt = k \<and> \<not> idle wt)"
    if "k \<in> wKey ` (set (zwWatchers w) \<union> set ?new)" for k
  proof (cases "\<exists>wt \<in> set ?new. wKey wt = k")
    case True
    then obtain wt where wt: "wt \<in> set ?new" "wKey wt = k" by blast
    then have "\<not> idle wt" using new[OF wt(1)] by (simp add: idle_def)
    then show ?thesis using wt by blast
  next
    case False
    then have "k \<in> wKey ` set (zwWatchers w)" using that by auto
    then show ?thesis using assms(2) unfolding zk_inv_def by blast
  qed
  moreover have "(\<forall>e. wPhase wt \<noteq> Got (FetchError e)) \<and>
      (\<forall>d. wPhase wt = Got (Value d) \<and> wEvent wt = None \<longrightarrow> node_of w (wKey wt) = Some d)"
    if "wt \<in> set (zwWatchers w) \<union> set ?new" for wt
    using that assms(2) new[of wt] by (cases "wt \<in> set ?new") (simp_all add: zk_inv_def)
  ultimately show ?thesis using inv by (simp add: zk_inv_def)
qed

lemma zk_inv_session:
  assumes "route_lru ops cap ok" and "zk_inv ops cap ok cd w" and "zk_act_ok w (ZSession st)"
  shows "zk_inv ops cap ok cd (zk_do ops cd w (ZSession st))"
proof -
  have inv: "src_inv cap ok (zwSource w)" using assms(2) by (simp add: zk_inv_def)
  have "zk_inv ops cap ok cd (w\<lparr>zwSource := handleSessionEvents (zwSource w) [st]\<rparr>)"
    using inv by (intro zk_inv_source[OF assms(2)]) (cases st; simp add: src_inv_def fresh_def coherent_on_def)+
  then show ?thesis by simp
qed

lemma zk_inv_get:
  assumes "route_lru ops cap ok" and "zk_inv ops cap ok cd w" and "zk_act_ok w (ZGet ts conn key)"
  shows "zk_inv ops cap ok cd (zk_do ops cd w (ZGet ts conn key))"
proof -
  have inv: "src_inv cap ok (zwSource w)" using assms(2) by (simp add: zk_inv_def)
  obtain r z where g: "zk_Get ops cd ts conn (zwSource w) key = (r, z)" by fastforce
  have b: "conn (Join (zBasePath (zwSource w)) key) = backend_of (node_of w) key \<or> (\<exists>e. conn (Join (zBasePath (zwSource w)) key) = FetchError e)"
    using assms(3) by (simp add: backend_of_def node_of_def watch_path_def zk_nodePath_def)
  have "zk_inv ops cap ok cd (w\<lparr>zwSource := z\<rparr>)"
    using route_lru.soft_Get_coherent_on[OF assms(1) inv _ b g[unfolded zk_Get_def zk_nodePath_def Let_def]]
      route_lru.soft_Get_coherent_on[OF assms(1) inv _ b g[unfolded zk_Get_def zk_nodePath_def Let_def], of "{}"]
    by (intro zk_inv_source[OF assms(2)]) (auto simp: fresh_def coherent_on_def[of "{}"])
  then show ?thesis using g by simp
qed

lemma zk_inv_clear:
  assumes "route_lru ops cap ok" and "zk_inv ops cap ok cd w" and "zk_act_ok w ZClear"
  shows "zk_inv ops cap ok cd (zk_do ops cd w ZClear)"
proof -
  have inv: "src_inv cap ok (zwSource w)" using assms(2) by (simp add: zk_inv_def)
  have "zk_inv ops cap ok cd (w\<lparr>zwSource := zk_AdminClearCache ops (zwSource w)\<rparr>)"
    using route_lru.rc_inv_Clear[OF assms(1)] inv
      lru.purge_peek[OF route_lru.axioms[OF assms(1)] route_lru.src_inv_ok[OF assms(1) inv]]
    by (intro zk_inv_source[OF assms(2)])
      (simp_all add: zk_AdminClearCache_def src_AdminClearCache_def src_inv_def fresh_def coherent_on_def rc_Clear_def)
  then show ?thesis by simp
qed

lemma zk_inv_step:
  assumes "route_lru ops cap ok" and "zk_inv ops cap ok cd w" and "zk_act_ok w a"
  shows "zk_inv ops cap ok cd (zk_do ops cd w a)"
  using zk_inv_change[OF assms(2)] zk_inv_read[OF assms(1,2)] zk_inv_write[OF assms(1,2)] zk_inv_event[OF assms(1,2)] zk_inv_children[OF assms(1,2)] zk_inv_session[OF assms(1,2)] zk_inv_get[OF assms(1,2)] zk_inv_clear[OF assms(1,2)] assms(3)
  by (cases a) simp_all


subsection \<open>The source implements the interface\<close>

definition zk_fetch :: "'c route_lru \<Rightarrow> codec \<Rightarrow> (nat \<Rightarrow> time) \<Rightarrow> (string \<Rightarrow> fetched) \<Rightarrow> ('c, 'x) ZookeeperSource_scheme \<Rightarrow>
    string \<Rightarrow> RouteConfig option res \<times> ('c, 'x) ZookeeperSource_scheme" where
  "zk_fetch ops cd ts conn z key =
     soft_fetch False (\<lambda>e. ''failed to get znode '' @ Join (zBasePath z) key @ '': '' @ e) ops cd ts
       (\<lambda>key. conn (Join (zBasePath z) key)) z key"

lemma zk_Get_look: "zk_Get ops cd ts conn z key = look_with ops ts (zk_fetch ops cd ts conn) z key"
  unfolding zk_Get_def zk_nodePath_def Let_def by (rule look_with_cong) (simp add: zk_fetch_def)

lemma zk_data_source:
  fixes ops :: "'c route_lru"
  assumes "route_lru ops cap ok"
  shows "data_source (\<lambda>(ts, conn). zk_Get ops cd ts conn) zk_Healthy
    (src_inv cap ok :: ('c, 'x) ZookeeperSource_scheme \<Rightarrow> bool) (\<lambda>(ts, conn). src_view ops (ts 0))"
proof -
  have "fetch_ok ops cap ok (zk_fetch ops cd ts conn :: ('c, 'x) ZookeeperSource_scheme \<Rightarrow> _)" for ts conn
    unfolding fetch_ok_def
  proof (intro allI impI)
    fix k r and z z' :: "('c, 'x) ZookeeperSource_scheme"
    assume "src_inv cap ok z" and "zk_fetch ops cd ts conn z k = (r, z')"
    from fetch_okD[OF route_lru.soft_fetch_ok[OF assms] this[unfolded zk_fetch_def]]
    show "src_inv cap ok z' \<and> src_healthy z' = src_healthy z \<and> (\<forall>c t. r = Inr (Some c) \<longrightarrow> src_view ops t z' k = Some c)" .
  qed
  then have "fetch_ok ops cap ok ((\<lambda>(ts, conn). zk_fetch ops cd ts conn :: ('c, 'x) ZookeeperSource_scheme \<Rightarrow> _) e)"
    for e :: "(nat \<Rightarrow> time) \<times> (string \<Rightarrow> fetched)"
    by (cases e) simp
  from route_lru.look_with_data_source[where fetch = "\<lambda>(ts, conn). zk_fetch ops cd ts conn" and clock = fst, OF assms this]
  show ?thesis by (simp add: zk_Get_look[abs_def] zk_Healthy_def[abs_def] case_prod_beta')
qed

interpretation list_zk: data_source "\<lambda>(ts, conn). zk_Get list_lru_ops cd ts conn" zk_Healthy "src_inv ll_cap ll_ok"
  "\<lambda>(ts, conn). src_view list_lru_ops (ts 0)" for cd
  by (rule zk_data_source[OF list_rc.route_lru_axioms])

subsection \<open>Properties of the ZooKeeper source\<close>

lemma zk_history_inv:
  assumes "zk_history ops cd w0 w" and "route_lru ops cap ok" and "src_inv cap ok (zwSource w0)" and "zwWatchers w0 = []"
  shows "zk_inv ops cap ok cd w"
  using assms(1)
proof induction
  case zk_refl
  show ?case using assms(3,4) by (simp add: zk_inv_def)
next
  case (zk_step w a)
  then show ?case using zk_inv_step[OF assms(2)] by blast
qed



text \<open>
  The demonstration: two watchers of one node. The first one reads ``up:80'', the node changes,
  the second one reads and writes ``up:81'', the first one writes its old text, then takes its
  event, and reads and writes again.
\<close>

definition demo_zk :: "RouteConfig option list_lru ZookeeperSource" where
  "demo_zk = \<lparr>src_cache = NewRouteCache list_lru_ops 3, src_healthy = True, src_lastError = '''', src_adminName = '''',
     src_parseErrors = 0, zServers = [''zk:2181''], zBasePath = ''/r'', zSessionTimeout = 0, zMaxCacheSize = 3,
     zInitialLoadTimeout = 0, zUsername = '''', zPassword = ''''\<rparr>"

definition demo_wt :: "watch_phase \<Rightarrow> node_event option \<Rightarrow> watcher" where
  "demo_wt ph ev = \<lparr>wKey = ''a'', wPhase = ph, wEvent = ev\<rparr>"

definition demo_world :: "string \<Rightarrow> RouteConfig option list_lru ZookeeperSource \<Rightarrow> watcher list \<Rightarrow>
    RouteConfig option list_lru zk_world" where
  "demo_world v z ws = \<lparr>zwNodes = [''/r/a'' \<mapsto> v], zwSource = z, zwWatchers = ws\<rparr>"

definition demo_store :: "string \<Rightarrow> RouteConfig option list_lru ZookeeperSource \<Rightarrow> RouteConfig option list_lru ZookeeperSource" where
  "demo_store v z = fst (load_row list_lru_ops null_codec (z, {}) (Some (''a'', v)))"

lemma demo_path: "Join ''/r'' ''a'' = ''/r/a''"
  by code_simp

lemma zBasePath_store: "zBasePath (demo_store v z) = zBasePath z"
  by (simp add: demo_store_def split: sum.splits)

lemmas demo_zk_simps = demo_world_def demo_wt_def watch_read_def watch_write_def watch_event_def put_watcher_def
  fire_def armed_def watch_path_def zk_nodePath_def demo_path new_watcher_def backend_of_def zBasePath_store

lemma demo_zk_acts:
  assumes "zBasePath z = ''/r''"
  shows "zk_do list_lru_ops null_codec (demo_world v z []) (ZChildren (ChildrenOf [''a'', ''a''])) =
      demo_world v z [demo_wt Reading None, demo_wt Reading None]"
    and "zk_do list_lru_ops null_codec (demo_world v z [demo_wt Reading None, wt]) (ZRead 0 (Value v)) =
      demo_world v z [demo_wt (Got (Value v)) None, wt]"
    and "zk_do list_lru_ops null_codec (demo_world v z [wt, demo_wt Reading None]) (ZRead 1 (Value v)) =
      demo_world v z [wt, demo_wt (Got (Value v)) None]"
    and "zk_do list_lru_ops null_codec (demo_world v z [demo_wt (Got (Value u)) None, demo_wt Reading None]) (ZChange ''/r/a'' (Some v')) =
      demo_world v' z [demo_wt (Got (Value u)) (Some EventNodeDataChanged), demo_wt Reading None]"
    and "zk_do list_lru_ops null_codec (demo_world v z [wt, demo_wt (Got (Value u)) ev]) (ZWrite 1) =
      demo_world v (demo_store u z) [wt, demo_wt Waiting ev]"
    and "zk_do list_lru_ops null_codec (demo_world v z [demo_wt (Got (Value u)) ev, wt]) (ZWrite 0) =
      demo_world v (demo_store u z) [demo_wt Waiting ev, wt]"
    and "zk_do list_lru_ops null_codec (demo_world v z [demo_wt Waiting (Some EventNodeDataChanged), wt]) (ZEvent 0) =
      demo_world v z [demo_wt Reading None, wt]"
  using assms by (simp_all add: demo_zk_simps demo_store_def)

lemma zk_step_to: "zk_history ops cd w0 w \<Longrightarrow> zk_act_ok w a \<Longrightarrow> zk_do ops cd w a = w' \<Longrightarrow> zk_history ops cd w0 w'"
  using zk_step by blast

lemma demo_zk_history:
  "zk_history list_lru_ops null_codec (demo_world ''up:80'' demo_zk [])
     (demo_world ''up:81'' (demo_store ''up:81'' (demo_store ''up:80'' (demo_store ''up:81'' demo_zk)))
       [demo_wt Waiting None, demo_wt Waiting None])"
proof -
  have base: "zBasePath demo_zk = ''/r''" by (simp add: demo_zk_def)
  have bases: "zBasePath (demo_store u (demo_store v (demo_store u' demo_zk))) = ''/r''"
    "zBasePath (demo_store v (demo_store u demo_zk)) = ''/r''" "zBasePath (demo_store u demo_zk) = ''/r''" for u v u'
    by (simp_all add: zBasePath_store base)
  have h1: "zk_history list_lru_ops null_codec (demo_world ''up:80'' demo_zk [])
      (demo_world ''up:80'' demo_zk [demo_wt Reading None, demo_wt Reading None])"
    by (rule zk_step_to[OF zk_refl _ demo_zk_acts(1)[OF base]]) simp
  have h2: "zk_history list_lru_ops null_codec (demo_world ''up:80'' demo_zk [])
      (demo_world ''up:80'' demo_zk [demo_wt (Got (Value ''up:80'')) None, demo_wt Reading None])"
    by (rule zk_step_to[OF h1 _ demo_zk_acts(2)[OF base]]) (simp_all add: demo_zk_simps base)
  have h3: "zk_history list_lru_ops null_codec (demo_world ''up:80'' demo_zk []) (demo_world ''up:81'' demo_zk
      [demo_wt (Got (Value ''up:80'')) (Some EventNodeDataChanged), demo_wt Reading None])"
    by (rule zk_step_to[OF h2 _ demo_zk_acts(4)[OF base]]) simp
  have h4: "zk_history list_lru_ops null_codec (demo_world ''up:80'' demo_zk []) (demo_world ''up:81'' demo_zk
      [demo_wt (Got (Value ''up:80'')) (Some EventNodeDataChanged), demo_wt (Got (Value ''up:81'')) None])"
    by (rule zk_step_to[OF h3 _ demo_zk_acts(3)[OF base]]) (simp add: demo_zk_simps base)
  have h5: "zk_history list_lru_ops null_codec (demo_world ''up:80'' demo_zk []) (demo_world ''up:81'' (demo_store ''up:81'' demo_zk)
      [demo_wt (Got (Value ''up:80'')) (Some EventNodeDataChanged), demo_wt Waiting None])"
    by (rule zk_step_to[OF h4 _ demo_zk_acts(5)[OF base]]) (simp add: demo_zk_simps)
  have h6: "zk_history list_lru_ops null_codec (demo_world ''up:80'' demo_zk [])
      (demo_world ''up:81'' (demo_store ''up:80'' (demo_store ''up:81'' demo_zk))
        [demo_wt Waiting (Some EventNodeDataChanged), demo_wt Waiting None])"
    by (rule zk_step_to[OF h5 _ demo_zk_acts(6)[OF bases(3)]]) (simp add: demo_zk_simps)
  have h7: "zk_history list_lru_ops null_codec (demo_world ''up:80'' demo_zk [])
      (demo_world ''up:81'' (demo_store ''up:80'' (demo_store ''up:81'' demo_zk)) [demo_wt Reading None, demo_wt Waiting None])"
    by (rule zk_step_to[OF h6 _ demo_zk_acts(7)[OF bases(2)]]) (simp add: demo_zk_simps)
  have h8: "zk_history list_lru_ops null_codec (demo_world ''up:80'' demo_zk [])
      (demo_world ''up:81'' (demo_store ''up:80'' (demo_store ''up:81'' demo_zk))
        [demo_wt (Got (Value ''up:81'')) None, demo_wt Waiting None])"
    by (rule zk_step_to[OF h7 _ demo_zk_acts(2)[OF bases(2)]]) (simp add: demo_zk_simps base)
  show ?thesis by (rule zk_step_to[OF h8 _ demo_zk_acts(6)[OF bases(2)]]) (simp add: demo_zk_simps)
qed


lemma demo_zk_inv: "src_inv ll_cap ll_ok demo_zk"
  by (simp add: src_inv_def demo_zk_def list_rc.rc_inv_new)

lemma demo_zk_served:
  "fst (zk_Get list_lru_ops null_codec (\<lambda>_. 9) (\<lambda>_. FetchError ''connection closed'')
     (demo_store ''up:81'' (demo_store ''up:80'' (demo_store ''up:81'' demo_zk))) ''a'') =
   Inr (Some (empty_config\<lparr>cUpstream := ''up:81''\<rparr>))"
  by code_simp


text \<open>The path elements that \<open>Clean\<close> keeps as they are.\<close>

definition proper_elem :: "string \<Rightarrow> bool" where
  "proper_elem p \<longleftrightarrow> p \<noteq> [] \<and> p \<noteq> ''.'' \<and> p \<noteq> ''..'' \<and> CHR ''/'' \<notin> set p"

lemma clean_elems_no_dotdot:
  "''..'' \<notin> set ps \<Longrightarrow> clean_elems rooted st ps = rev st @ filter (\<lambda>p. p \<noteq> [] \<and> p \<noteq> ''.'') ps"
  by (induction ps arbitrary: st) auto

lemma Split_join_elems:
  "bs \<noteq> [] \<Longrightarrow> \<forall>b \<in> set bs. CHR ''/'' \<notin> set b \<Longrightarrow> Split (join_elems bs @ ''/'' @ t) (CHR ''/'') = bs @ Split t (CHR ''/'')"
  by (induction bs rule: join_elems.induct) (simp_all add: Split_append_sep)

lemma join_elems_append: "bs \<noteq> [] \<Longrightarrow> ps \<noteq> [] \<Longrightarrow> join_elems (bs @ ps) = join_elems bs @ ''/'' @ join_elems ps"
  by (induction bs rule: join_elems.induct) (auto simp: neq_Nil_conv)

text \<open>
  C31: a key cannot leave the base path unless it has an element \<open>..\<close>. Under a base path in
  canonical form, the node of a key is the base path followed by the elements of the key other than
  empty ones and \<open>.\<close>; so it lies in the tree of the base path, and the node of a key that is one
  proper element is the child of that name. A lookup of the key depends on no other node.
\<close>

theorem zk_path_confined:
  assumes "bs \<noteq> []" and "\<forall>b \<in> set bs. proper_elem b" and "zBasePath z = ''/'' @ join_elems bs"
    and "''..'' \<notin> set (Split key (CHR ''/''))" and "es = filter (\<lambda>p. p \<noteq> [] \<and> p \<noteq> ''.'') (Split key (CHR ''/''))"
  shows "zk_nodePath z key = ''/'' @ join_elems (bs @ es) \<and>
    (zk_nodePath z key = zBasePath z \<or> HasPrefix (zk_nodePath z key) (zBasePath z @ ''/'')) \<and>
    (proper_elem key \<longrightarrow> zk_nodePath z key = zBasePath z @ ''/'' @ key) \<and>
    (conn (''/'' @ join_elems (bs @ es)) = conn' (''/'' @ join_elems (bs @ es)) \<longrightarrow>
      zk_Get ops cd ts conn z key = zk_Get ops cd ts conn' z key)"
proof -
  have bs: "\<forall>b \<in> set bs. CHR ''/'' \<notin> set b" "''..'' \<notin> set bs" "filter (\<lambda>p. p \<noteq> [] \<and> p \<noteq> ''.'') bs = bs"
    using assms(2) by (auto simp: proper_elem_def filter_id_conv)
  have "Split (zBasePath z @ ''/'' @ key) (CHR ''/'') = [] # bs @ Split key (CHR ''/'')"
    using Split_join_elems[OF assms(1) bs(1), of key] by (simp add: assms(3))
  then have "clean_elems True [] (Split (zBasePath z @ ''/'' @ key) (CHR ''/'')) = bs @ es"
    using clean_elems_no_dotdot[of "bs @ Split key (CHR ''/'')" True "[]"] bs assms(4,5) by simp
  then have join: "zk_nodePath z key = ''/'' @ join_elems (bs @ es)"
    using assms(1,3) by (simp add: zk_nodePath_def Join_def Clean_def Let_def HasPrefix_def)
  moreover have "zk_nodePath z key = zBasePath z \<or> HasPrefix (zk_nodePath z key) (zBasePath z @ ''/'')"
  proof (cases "es = []")
    case False
    then have "zk_nodePath z key = (zBasePath z @ ''/'') @ join_elems es"
      using join join_elems_append[OF assms(1) False] assms(3) by simp
    then show ?thesis by (simp only: HasPrefix_append simp_thms)
  qed (use join assms(3) in simp)
  moreover have "zk_nodePath z key = zBasePath z @ ''/'' @ key" if "proper_elem key"
  proof -
    have "es = [key]" using that assms(5) by (simp add: proper_elem_def Split_no_sep)
    then show ?thesis using join join_elems_append[OF assms(1), of "[key]"] assms(3) by simp
  qed
  moreover have "zk_Get ops cd ts conn z key = zk_Get ops cd ts conn' z key"
    if "conn (''/'' @ join_elems (bs @ es)) = conn' (''/'' @ join_elems (bs @ es))"
  proof -
    have same: "conn (zk_nodePath z key) = conn' (zk_nodePath z key)" using join that by simp
    show ?thesis unfolding zk_Get_def Let_def by (rule look_with_cong) (simp only: soft_fetch_def same)
  qed
  ultimately show ?thesis by blast
qed

lemma zk_path_confined_witness:
  "zk_nodePath (demo_zk\<lparr>zBasePath := ''/caddy/routing''\<rparr>) ''a/./b//'' = ''/caddy/routing/a/b''"
proof -
  have "[''a'', ''b''] = filter (\<lambda>p. p \<noteq> [] \<and> p \<noteq> ''.'') (Split ''a/./b//'' (CHR ''/''))" by simp
  then show ?thesis
    using zk_path_confined[of "[''caddy'', ''routing'']" "demo_zk\<lparr>zBasePath := ''/caddy/routing''\<rparr>" "''a/./b//''" "[''a'', ''b'']"]
    by (simp add: proper_elem_def)
qed

text \<open>A key with such elements reads a node outside the tree: \<open>Get\<close> does not check the key.\<close>

lemma zk_path_escapes: "Join ''/caddy/routing'' ''../../secret'' = ''/secret''"
  by code_simp


text \<open>Turns of \<open>watchChildren\<close> with the same child add watchers of it, and no step of theirs ends.\<close>

lemma zk_watchers_accumulate:
  assumes "w' = foldl (zk_do ops cd) w (replicate n (ZChildren (ChildrenOf [k])))"
  shows "length (filter (\<lambda>wt. wKey wt = k) (zwWatchers w')) = n + length (filter (\<lambda>wt. wKey wt = k) (zwWatchers w))"
  using assms by (induction n arbitrary: w) (simp_all add: new_watcher_def)

end
