(* ===== verification/Jwks.thy ===== *)
theory Jwks
  imports GoStrings "HOL-Library.AList"
begin

section \<open>The key set cache: gateway_jwt.go, jwksCache\<close>

text \<open>
  The cache of public keys behind the JWT handler: base64url, the conversion of RSA and EC keys,
  the parser of a key set, \<open>Refresh\<close> with its conditional request, and \<open>KeyForToken\<close>. The JSON
  decoder, \<open>url.Parse\<close> and the HTTP exchange are the fields of the parameter \<open>jwks_env\<close>; a decoded
  object is an association list with distinct keys. A big integer is an \<open>int\<close>. A public key of
  \<open>crypto/rsa\<close> or \<open>crypto/ecdsa\<close> is the datatype \<open>public_key\<close>, with the curve by its name. The
  zero time is 0.
\<close>

datatype json = JNull | JBool bool | JNum string | JStr string | JArr "json list" | JObj "(string \<times> json) list"

text \<open>The type assertion \<open>s, _ := v.(string)\<close>.\<close>

fun json_string_or_empty :: "json option \<Rightarrow> string" where
  "json_string_or_empty (Some (JStr s)) = s"
| "json_string_or_empty _ = ''''"

subsection \<open>base64url\<close>

text \<open>
  \<open>base64.RawURLEncoding.DecodeString\<close>: carriage returns and line feeds are skipped, every other
  byte outside the alphabet is an error, as is a single left-over character; left-over bits are
  dropped.
\<close>

definition b64_value :: "char \<Rightarrow> nat option" where
  "b64_value ch =
     (let n = of_char ch :: nat in
      if 65 \<le> n \<and> n \<le> 90 then Some (n - 65)
      else if 97 \<le> n \<and> n \<le> 122 then Some (n - 71)
      else if 48 \<le> n \<and> n \<le> 57 then Some (n + 4)
      else if n = 45 then Some 62
      else if n = 95 then Some 63 else None)"

fun b64_groups :: "nat list \<Rightarrow> nat list option" where
  "b64_groups [] = Some []"
| "b64_groups [a] = None"
| "b64_groups [a, b] = Some [a * 4 + b div 16]"
| "b64_groups [a, b, c] = Some [a * 4 + b div 16, (b mod 16) * 16 + c div 4]"
| "b64_groups (a # b # c # d # r) =
     map_option (\<lambda>bs. (a * 4 + b div 16) # ((b mod 16) * 16 + c div 4) # ((c mod 4) * 64 + d) # bs) (b64_groups r)"

definition decodeB64URL :: "string \<Rightarrow> string res" where
  "decodeB64URL s =
     (case those (map b64_value (filter (\<lambda>ch. ch \<noteq> CHR 0x0A \<and> ch \<noteq> CHR 0x0D) s)) of
        None \<Rightarrow> Inl ''illegal base64 data''
      | Some vs \<Rightarrow> (case b64_groups vs of None \<Rightarrow> Inl ''illegal base64 data'' | Some bs \<Rightarrow> Inr (map char_of bs)))"

subsection \<open>Public keys\<close>

datatype public_key = RSA_PublicKey int int | ECDSA_PublicKey string int int

text \<open>\<open>big.Int.SetBytes\<close>, and the loop that computes the exponent in an \<open>int\<close>.\<close>

definition set_bytes :: "string \<Rightarrow> int" where
  "set_bytes bs = foldl (\<lambda>n b. n * 256 + of_char b) 0 bs"

definition exponent :: "string \<Rightarrow> int" where
  "exponent bs = foldl (\<lambda>e b. wrap64 (wrap64 (e * 256) + of_char b)) 0 bs"

definition parseRSAJWK :: "(string \<times> json) list \<Rightarrow> public_key res" where
  "parseRSAJWK jwk =
     (let nStr = json_string_or_empty (map_of jwk ''n''); eStr = json_string_or_empty (map_of jwk ''e'') in
      if nStr = [] \<or> eStr = [] then Inl ''invalid RSA jwk: missing n/e''
      else case decodeB64URL nStr of
        Inl err \<Rightarrow> Inl (''decoding rsa n: '' @ err)
      | Inr nBytes \<Rightarrow>
          (case decodeB64URL eStr of
             Inl err \<Rightarrow> Inl (''decoding rsa e: '' @ err)
           | Inr eBytes \<Rightarrow>
               let e = exponent eBytes in
               if e = 0 then Inl ''invalid rsa exponent''
               else let n = set_bytes nBytes in
                 if n \<le> 0 then Inl ''invalid rsa modulus'' else Inr (RSA_PublicKey n e)))"

text \<open>
  The curves of \<open>crypto/elliptic\<close>: the prime and the constant of \<open>y\<^sup>2 = x\<^sup>3 - 3 x + b\<close>. \<open>IsOnCurve\<close>
  rejects the point (0, 0) and coordinates outside of the field.
\<close>

definition parseECCurve :: "string \<Rightarrow> (int \<times> int) res" where
  "parseECCurve crv =
     (if crv = ''P-256'' then
        Inr (2 ^ 256 - 2 ^ 224 + 2 ^ 192 + 2 ^ 96 - 1,
             0x5ac635d8aa3a93e7b3ebbd55769886bc651d06b0cc53b0f63bce3c3e27d2604b)
      else if crv = ''P-384'' then
        Inr (2 ^ 384 - 2 ^ 128 - 2 ^ 96 + 2 ^ 32 - 1,
             0xb3312fa7e23ee7e4988e056be3f82d19181d9c6efe8141120314088f5013875ac656398d8a2ed19d2a85c8edd3ec2aef)
      else if crv = ''P-521'' then
        Inr (2 ^ 521 - 1,
             0x51953eb9618e1c9a1f929a21a0b68540eea2da725b99b315f3b8b489918ef109e156193951ec7e937b1652c0bd3bb1bf073573df883d2c34f1ef451fd46b503f00)
      else Inl (''unsupported ec curve '' @ crv))"

definition IsOnCurve :: "int \<times> int \<Rightarrow> int \<Rightarrow> int \<Rightarrow> bool" where
  "IsOnCurve curve x y =
     (case curve of (p, b) \<Rightarrow>
        \<not> (x = 0 \<and> y = 0) \<and> 0 \<le> x \<and> x < p \<and> 0 \<le> y \<and> y < p \<and>
        (y * y) mod p = (x * x * x - 3 * x + b) mod p)"

definition parseECJWK :: "(string \<times> json) list \<Rightarrow> public_key res" where
  "parseECJWK jwk =
     (let crv = json_string_or_empty (map_of jwk ''crv''); xStr = json_string_or_empty (map_of jwk ''x'');
          yStr = json_string_or_empty (map_of jwk ''y'') in
      if crv = [] \<or> xStr = [] \<or> yStr = [] then Inl ''invalid EC jwk: missing crv/x/y''
      else case decodeB64URL xStr of
        Inl err \<Rightarrow> Inl (''decoding ec x: '' @ err)
      | Inr xBytes \<Rightarrow>
          (case decodeB64URL yStr of
             Inl err \<Rightarrow> Inl (''decoding ec y: '' @ err)
           | Inr yBytes \<Rightarrow>
               (case parseECCurve crv of
                  Inl err \<Rightarrow> Inl err
                | Inr curve \<Rightarrow>
                    let x = set_bytes xBytes; y = set_bytes yBytes in
                    if x < 0 \<or> y < 0 then Inl ''invalid ec point''
                    else if \<not> IsOnCurve curve x y then Inl ''ec point not on curve''
                    else Inr (ECDSA_PublicKey crv x y))))"

definition jwkToPublicKey :: "(string \<times> json) list \<Rightarrow> public_key res" where
  "jwkToPublicKey jwk =
     (let kty = json_string_or_empty (map_of jwk ''kty'') in
      if kty = ''RSA'' then parseRSAJWK jwk
      else if kty = ''EC'' then parseECJWK jwk
      else Inl (''unsupported jwk kty '' @ kty))"

fun parse_items :: "(string \<times> public_key) list \<Rightarrow> json list \<Rightarrow> (string \<times> public_key) list res" where
  "parse_items out [] = Inr out"
| "parse_items out (JObj m # items) =
     (let kid = json_string_or_empty (map_of m ''kid''); kty = json_string_or_empty (map_of m ''kty'') in
      if kid = [] \<or> kty = [] then parse_items out items
      else case jwkToPublicKey m of
             Inl err \<Rightarrow> Inl err
           | Inr key \<Rightarrow> parse_items (AList.update kid key out) items)"
| "parse_items out (_ # items) = parse_items out items"

subsection \<open>The cache\<close>

record jwks_response =
  rsStatus :: int
  rsETag :: string
  rsLastModified :: string
  rsBody :: string
  rsReadErr :: "string option"

record jwks_env =
  json_decode :: "string \<Rightarrow> json res"
  url_scheme :: "string \<Rightarrow> string res"
  do_get :: "string \<Rightarrow> (string \<times> string) list \<Rightarrow> jwks_response res"

definition parseJWKSKeysByKID :: "(string \<Rightarrow> json res) \<Rightarrow> string \<Rightarrow> (string \<times> public_key) list res" where
  "parseJWKSKeysByKID decode jwksJSON =
     (let unmarshalled = (case decode jwksJSON of
            Inl e \<Rightarrow> Inl e
          | Inr (JObj raw) \<Rightarrow> Inr raw
          | Inr JNull \<Rightarrow> Inr []
          | Inr _ \<Rightarrow> Inl ''cannot unmarshal into map'')
      in case unmarshalled of
           Inl e \<Rightarrow> Inl (''parsing jwks json: '' @ e)
         | Inr raw \<Rightarrow>
             (case map_of raw ''keys'' of
                None \<Rightarrow> Inl ''invalid jwks: missing keys''
              | Some (JArr keysArr) \<Rightarrow> parse_items [] keysArr
              | Some _ \<Rightarrow> Inl ''invalid jwks: keys not array''))"

record jwksCacheConfig =
  jURL :: string
  jRefresh :: duration
  jTimeout :: duration
  jAllowInsecure :: bool
  jExpectedIssuer :: string

record jwksCache =
  jConf :: jwksCacheConfig
  keysByKID :: "(string \<times> public_key) list"
  lastFetched :: time
  jEtag :: string
  lastModified :: string
  nextRefreshAt :: time

definition newJWKSCache :: "jwksCacheConfig \<Rightarrow> jwksCache" where
  "newJWKSCache conf =
     \<lparr>jConf = conf, keysByKID = [], lastFetched = 0, jEtag = '''', lastModified = '''', nextRefreshAt = 0\<rparr>"

definition keyByKID :: "jwksCache \<Rightarrow> string \<Rightarrow> public_key option" where
  "keyByKID c kid = map_of (keysByKID c) kid"

definition shouldRefresh :: "jwksCache \<Rightarrow> time \<Rightarrow> bool" where
  "shouldRefresh c now = (if nextRefreshAt c = 0 then True else nextRefreshAt c < now)"

definition conditional_headers :: "jwksCache \<Rightarrow> (string \<times> string) list" where
  "conditional_headers c =
     (if jEtag c \<noteq> [] then [(''If-None-Match'', jEtag c)] else []) @
     (if lastModified c \<noteq> [] then [(''If-Modified-Since'', lastModified c)] else [])"

text \<open>\<open>io.ReadAll(io.LimitReader(body, n))\<close>: a read error counts only if it comes before the limit.\<close>

definition read_limited :: "nat \<Rightarrow> jwks_response \<Rightarrow> string res" where
  "read_limited n resp =
     (case rsReadErr resp of
        Some e \<Rightarrow> if length (rsBody resp) < n then Inl e else Inr (take n (rsBody resp))
      | None \<Rightarrow> Inr (take n (rsBody resp)))"

definition jwks_Refresh :: "jwks_env \<Rightarrow> time \<Rightarrow> jwksCache \<Rightarrow> string option \<times> jwksCache" where
  "jwks_Refresh env now c =
     (if \<not> shouldRefresh c now then (None, c)
      else case url_scheme env (jURL (jConf c)) of
        Inl err \<Rightarrow> (Some (''invalid jwks_url: '' @ err), c)
      | Inr scheme \<Rightarrow>
          if \<not> jAllowInsecure (jConf c) \<and> scheme \<noteq> ''https'' then
            (Some ''jwks_url must be https unless allow_insecure_jwks is true'', c)
          else case do_get env (jURL (jConf c)) (conditional_headers c) of
            Inl err \<Rightarrow> (Some (''fetching jwks: '' @ err), c)
          | Inr resp \<Rightarrow>
              if rsStatus resp = 304 then
                (None, c\<lparr>lastFetched := now, nextRefreshAt := now + jRefresh (jConf c)\<rparr>)
              else if rsStatus resp < 200 \<or> 300 \<le> rsStatus resp then
                (Some (''jwks fetch status '' @ itoa (rsStatus resp) @ '': '' @ TrimSpace (take 4096 (rsBody resp))), c)
              else (case read_limited 10485760 resp of
                Inl err \<Rightarrow> (Some (''reading jwks: '' @ err), c)
              | Inr body \<Rightarrow>
                  (case parseJWKSKeysByKID (json_decode env) body of
                     Inl err \<Rightarrow> (Some err, c)
                   | Inr keys \<Rightarrow>
                       if keys = [] then (Some ''jwks contained no keys'', c)
                       else (None, c\<lparr>keysByKID := keys, jEtag := rsETag resp, lastModified := rsLastModified resp,
                                     lastFetched := now, nextRefreshAt := now + jRefresh (jConf c)\<rparr>))))"

definition KeyForToken :: "jwks_env \<Rightarrow> time \<Rightarrow> jwksCache \<Rightarrow> json option \<Rightarrow> public_key res \<times> jwksCache" where
  "KeyForToken env now c kidHeader =
     (let kid = json_string_or_empty kidHeader in
      if kid \<noteq> [] then
        (case keyByKID c kid of
           Some key \<Rightarrow> (Inr key, c)
         | None \<Rightarrow>
             (case jwks_Refresh env now c of
                (Some err, c') \<Rightarrow> (Inl err, c')
              | (None, c') \<Rightarrow>
                  (case keyByKID c' kid of Some key \<Rightarrow> (Inr key, c') | None \<Rightarrow> (Inl ''unknown kid'', c'))))
      else (case keysByKID c of
              [(k, key)] \<Rightarrow> (Inr key, c)
            | _ \<Rightarrow> (Inl ''token missing kid'', c)))"

subsection \<open>base64url decodes what RFC 4648 encodes\<close>

definition b64_char :: "nat \<Rightarrow> char" where
  "b64_char v = char_of (if v < 26 then v + 65 else if v < 52 then v + 71 else if v < 62 then v - 4 else if v = 62 then 45 else 95)"

text \<open>The encoder of RFC 4648, section 5, without padding: three bytes become four characters.\<close>

fun b64_encode_values :: "nat list \<Rightarrow> nat list" where
  "b64_encode_values [] = []"
| "b64_encode_values [x] = [x div 4, (x mod 4) * 16]"
| "b64_encode_values [x, y] = [x div 4, (x mod 4) * 16 + y div 16, (y mod 16) * 4]"
| "b64_encode_values (x # y # z # r) =
     (x div 4) # ((x mod 4) * 16 + y div 16) # ((y mod 16) * 4 + z div 64) # (z mod 64) # b64_encode_values r"

definition b64url_encode :: "string \<Rightarrow> string" where
  "b64url_encode bs = map b64_char (b64_encode_values (map of_char bs))"

lemma b64_value_char: "v < 64 \<Longrightarrow> b64_value (b64_char v) = Some v"
  by (auto simp: b64_value_def b64_char_def Let_def)

lemma b64_char_no_newline: "v < 64 \<Longrightarrow> b64_char v \<noteq> CHR 0x0A \<and> b64_char v \<noteq> CHR 0x0D"
proof -
  assume "v < 64"
  then have "(of_char (b64_char v) :: nat) > 13" by (auto simp: b64_char_def)
  then show ?thesis by auto
qed

lemma six_bits:
  fixes x y z :: nat
  assumes "x < 256" and "y < 256" and "z < 256"
  shows "x div 4 < 64" and "x mod 4 * 16 < 64" and "x mod 4 * 16 + y div 16 < 64"
    and "y mod 16 * 4 < 64" and "y mod 16 * 4 + z div 64 < 64"
proof -
  have d: "x div 4 < 64" "y div 16 < 16" "z div 64 < 4" using assms by (auto intro: less_mult_imp_div_less)
  have m: "x mod 4 < 4" "y mod 16 < 16" by simp_all
  show "x div 4 < 64" "x mod 4 * 16 < 64" "x mod 4 * 16 + y div 16 < 64" "y mod 16 * 4 < 64"
    "y mod 16 * 4 + z div 64 < 64" using d m by linarith+
qed

lemma b64_encode_range:
  "(\<And>x. x \<in> set xs \<Longrightarrow> x < 256) \<Longrightarrow> v \<in> set (b64_encode_values xs) \<Longrightarrow> v < 64"
proof (induction xs rule: b64_encode_values.induct)
  case (2 x)
  then have "x < 256" by simp
  note six_bits[OF this this this]
  then show ?case using 2 by auto
next
  case (3 x y)
  then have "x < 256" "y < 256" by simp_all
  note six_bits[OF this this(2)]
  then show ?case using 3 by auto
next
  case (4 x y z r)
  then have "x < 256" "y < 256" "z < 256" by simp_all
  note six_bits[OF this]
  then show ?case using 4 by auto
qed simp

lemma b64_groups_encode: "(\<And>x. x \<in> set xs \<Longrightarrow> x < 256) \<Longrightarrow> b64_groups (b64_encode_values xs) = Some xs"
proof (induction xs rule: b64_encode_values.induct)
  case (2 x)
  have "x div 4 * 4 + (x mod 4) * 16 div 16 = x" by simp
  then show ?case by simp
next
  case (3 x y)
  then have "y < 256" by simp
  have "x div 4 * 4 + ((x mod 4) * 16 + y div 16) div 16 = x"
    "((x mod 4) * 16 + y div 16) mod 16 * 16 + (y mod 16) * 4 div 4 = y"
    using \<open>y < 256\<close> by (simp_all add: mod_less)
  then show ?case by simp
next
  case (4 x y z r)
  then have "y < 256" "z < 256" by simp_all
  have "x div 4 * 4 + ((x mod 4) * 16 + y div 16) div 16 = x"
    "((x mod 4) * 16 + y div 16) mod 16 * 16 + ((y mod 16) * 4 + z div 64) div 4 = y"
    "((y mod 16) * 4 + z div 64) mod 4 * 64 + z mod 64 = z"
    using \<open>y < 256\<close> \<open>z < 256\<close> by (simp_all add: mod_less)
  then show ?case using 4 by simp
qed simp

lemma those_map_Some: "(\<And>v. v \<in> set vs \<Longrightarrow> f (g v) = Some v) \<Longrightarrow> those (map f (map g vs)) = Some vs"
  by (induction vs) auto

text \<open>
  C35: key material survives its encoding. \<open>decodeB64URL\<close> returns exactly the bytes that were
  encoded as RFC 4648 prescribes for key sets, whatever line breaks are inserted.
\<close>

theorem b64url_roundtrip:
  assumes "filter (\<lambda>ch. ch \<noteq> CHR 0x0A \<and> ch \<noteq> CHR 0x0D) s = b64url_encode bs"
  shows "decodeB64URL s = Inr bs"
proof -
  let ?vs = "b64_encode_values (map of_char bs)"
  have byte: "x < 256" if "x \<in> set (map of_char bs)" for x :: nat
    using that by auto
  have six: "v < 64" if "v \<in> set ?vs" for v using b64_encode_range[OF byte that] by simp
  have "those (map b64_value (map b64_char ?vs)) = Some ?vs"
    by (rule those_map_Some) (simp add: b64_value_char six)
  moreover have "b64_groups ?vs = Some (map of_char bs)" by (rule b64_groups_encode) (rule byte)
  ultimately show ?thesis unfolding decodeB64URL_def assms by (simp add: b64url_encode_def comp_def)
qed

theorem b64url_roundtrip_witness: "decodeB64URL ''AQ\<newline>AB'' = Inr (map char_of [1::nat, 0, 1])"
proof -
  have "filter (\<lambda>ch. ch \<noteq> CHR 0x0A \<and> ch \<noteq> CHR 0x0D) ''AQ\<newline>AB'' = b64url_encode (map char_of [1::nat, 0, 1])" by code_simp
  then show ?thesis by (rule b64url_roundtrip)
qed


subsection \<open>Where keys come from\<close>

text \<open>
  The answer that replaces the keys: a fetch over an allowed scheme with a success status, a
  readable body and a key set that parses to at least one key.
\<close>

definition served_keys :: "jwks_env \<Rightarrow> jwksCacheConfig \<Rightarrow> (string \<times> public_key) list \<Rightarrow> bool" where
  "served_keys env conf keys \<longleftrightarrow>
     (\<exists>scheme headers resp body. url_scheme env (jURL conf) = Inr scheme \<and> (jAllowInsecure conf \<or> scheme = ''https'') \<and>
        do_get env (jURL conf) headers = Inr resp \<and> 200 \<le> rsStatus resp \<and> rsStatus resp < 300 \<and>
        read_limited 10485760 resp = Inr body \<and> parseJWKSKeysByKID (json_decode env) body = Inr keys \<and> keys \<noteq> [])"

lemma Refresh_cases:
  assumes "jwks_Refresh env now c = (err, c')"
  shows "jConf c' = jConf c \<and>
    (c' = c \<or>
     shouldRefresh c now \<and> err = None \<and> nextRefreshAt c' = now + jRefresh (jConf c) \<and> lastFetched c' = now \<and>
       (keysByKID c' = keysByKID c \<or> served_keys env (jConf c) (keysByKID c')))"
  using assms
  by (fastforce simp: jwks_Refresh_def served_keys_def split: if_splits sum.splits)

lemma Refresh_error: "jwks_Refresh env now c = (Some err, c') \<Longrightarrow> c' = c"
  using Refresh_cases[of env now c "Some err" c'] by auto

lemma KeyForToken_state:
  "snd (KeyForToken env now c kid) = c \<or> snd (KeyForToken env now c kid) = snd (jwks_Refresh env now c)"
  by (auto simp: KeyForToken_def Let_def split: option.splits prod.splits list.splits)

lemma KeyForToken_key:
  assumes "KeyForToken env now c kid = (Inr key, c')"
  shows "\<exists>k. map_of (keysByKID c') k = Some key \<and> (json_string_or_empty kid \<noteq> [] \<longrightarrow> k = json_string_or_empty kid)"
  using assms
  by (auto simp: KeyForToken_def keyByKID_def Let_def split: if_splits option.splits prod.splits list.splits)

text \<open>The life of a cache: refreshes and key lookups at any time, against any behaviour of the network.\<close>

inductive jwks_history :: "jwksCacheConfig \<Rightarrow> (jwks_env \<times> time) list \<Rightarrow> jwksCache \<Rightarrow> bool" for conf where
  start: "jwks_history conf [] (newJWKSCache conf)"
| refresh: "jwks_history conf es c \<Longrightarrow> jwks_history conf (es @ [(env, now)]) (snd (jwks_Refresh env now c))"
| lookup: "jwks_history conf es c \<Longrightarrow> jwks_history conf (es @ [(env, now)]) (snd (KeyForToken env now c kid))"

lemma Refresh_history:
  assumes "jConf c = conf" and "keysByKID c = [] \<or> (\<exists>env now. (env, now) \<in> set es \<and> served_keys env conf (keysByKID c))"
    and "c' = c \<or> c' = snd (jwks_Refresh env now c)"
  shows "jConf c' = conf \<and>
    (keysByKID c' = [] \<or> (\<exists>e n. (e, n) \<in> set (es @ [(env, now)]) \<and> served_keys e conf (keysByKID c')))"
proof -
  obtain err d where d: "jwks_Refresh env now c = (err, d)" by fastforce
  note cases = Refresh_cases[OF d]
  have "c' = c \<or> c' = d" using assms(3) d by simp
  moreover have "keysByKID d = keysByKID c \<or> served_keys env conf (keysByKID d)" using cases assms(1) by auto
  moreover have "jConf d = conf" using cases assms(1) by simp
  ultimately show ?thesis using assms(1,2) by auto
qed

lemma history_keys:
  assumes "jwks_history conf es c"
  shows "jConf c = conf \<and> (keysByKID c = [] \<or> (\<exists>env now. (env, now) \<in> set es \<and> served_keys env conf (keysByKID c)))"
  using assms
proof induction
  case start
  then show ?case by (simp add: newJWKSCache_def)
next
  case (refresh es c env now)
  show ?case by (rule Refresh_history[where c = c]) (use refresh.IH in simp_all)
next
  case (lookup es c env now kid)
  show ?case by (rule Refresh_history[where c = c]) (use lookup.IH KeyForToken_state in simp_all)
qed

lemma history_key_published:
  assumes "jwks_history conf es c" and "KeyForToken env now c kid = (Inr key, c')"
  shows "\<exists>env' now' keys k. (env', now') \<in> set (es @ [(env, now)]) \<and> served_keys env' conf keys \<and>
      map_of keys k = Some key \<and> (json_string_or_empty kid \<noteq> [] \<longrightarrow> k = json_string_or_empty kid)"
proof -
  have "jwks_history conf (es @ [(env, now)]) c'"
    using jwks_history.lookup[OF assms(1), of env now kid] assms(2) by simp
  from history_keys[OF this] obtain k where k: "map_of (keysByKID c') k = Some key"
    "json_string_or_empty kid \<noteq> [] \<longrightarrow> k = json_string_or_empty kid"
    and src: "keysByKID c' = [] \<or> (\<exists>env' now'. (env', now') \<in> set (es @ [(env, now)]) \<and> served_keys env' conf (keysByKID c'))"
    using KeyForToken_key[OF assms(2)] by blast
  have "keysByKID c' \<noteq> []" using k(1) by auto
  then show ?thesis using src k by blast
qed

text \<open>
  C14: only published keys verify tokens. Whatever the history of the cache and of the network,
  a key that \<open>KeyForToken\<close> returns stands in a key set that the configured URL served, over https
  unless insecure fetches are allowed, with a success status; when the token names a key, it is
  the key published under that name. An error of \<open>Refresh\<close> leaves the cache as it was.
\<close>

theorem jwks_keys_published:
  assumes "jwks_history conf es c" and "(Inr key, c') = KeyForToken env now c kid"
  shows "(\<exists>env' now' keys k. (env', now') \<in> set (es @ [(env, now)]) \<and> served_keys env' conf keys \<and>
      map_of keys k = Some key \<and> (json_string_or_empty kid \<noteq> [] \<longrightarrow> k = json_string_or_empty kid)) \<and>
    (\<forall>err. fst (jwks_Refresh env now c) = Some err \<longrightarrow> snd (jwks_Refresh env now c) = c)"
proof -
  have "\<forall>err. fst (jwks_Refresh env now c) = Some err \<longrightarrow> snd (jwks_Refresh env now c) = c"
    using Refresh_error[of env now c] by (metis prod.collapse)
  then show ?thesis using history_key_published[OF assms(1) assms(2)[symmetric]] by blast
qed

definition demo_jwks_conf :: jwksCacheConfig where
  "demo_jwks_conf = \<lparr>jURL = ''https://idp/jwks'', jRefresh = 600, jTimeout = 5, jAllowInsecure = False, jExpectedIssuer = ''''\<rparr>"

definition demo_jwk :: json where
  "demo_jwk = JObj [(''kid'', JStr ''k1''), (''kty'', JStr ''RSA''), (''n'', JStr ''Dw''), (''e'', JStr ''Aw'')]"

definition demo_jwks_env :: jwks_env where
  "demo_jwks_env = \<lparr>json_decode = (\<lambda>b. Inr (JObj [(''keys'', JArr [demo_jwk])])), url_scheme = (\<lambda>u. Inr ''https''),
     do_get = (\<lambda>u hs. Inr \<lparr>rsStatus = 200, rsETag = '''', rsLastModified = '''', rsBody = '''', rsReadErr = None\<rparr>)\<rparr>"

lemma demo_jwks_keys: "parse_items [] [demo_jwk] = Inr [(''k1'', RSA_PublicKey 15 3)]"
  by code_simp

lemma demo_KeyForToken: "KeyForToken demo_jwks_env 7 (newJWKSCache demo_jwks_conf) (Some (JStr ''k1'')) =
    (Inr (RSA_PublicKey 15 3), snd (KeyForToken demo_jwks_env 7 (newJWKSCache demo_jwks_conf) (Some (JStr ''k1''))))"
  by (simp add: KeyForToken_def keyByKID_def newJWKSCache_def jwks_Refresh_def shouldRefresh_def demo_jwks_conf_def
      demo_jwks_env_def read_limited_def parseJWKSKeysByKID_def demo_jwks_keys)

theorem jwks_keys_published_witness:
  "\<exists>env' now' keys k. (env', now') \<in> set [(demo_jwks_env, 7)] \<and> served_keys env' demo_jwks_conf keys \<and>
     map_of keys k = Some (RSA_PublicKey 15 3)"
  using jwks_keys_published[OF jwks_history.start demo_KeyForToken[symmetric]] by auto

text \<open>
  A key once cached is trusted for good. While the cache holds a key under the name that
  tokens carry, no lookup contacts the network or changes the cache, however many refresh
  intervals have passed and whatever the key set now contains: a key that its issuer has
  withdrawn goes on verifying tokens until a token with another name arrives.
\<close>

theorem jwks_known_key_never_rechecked:
  assumes "keyByKID c kid = Some key" and "kid \<noteq> []"
  shows "foldl (\<lambda>(rs, c) (env, now). let (r, c') = KeyForToken env now c (Some (JStr kid)) in (rs @ [r], c')) ([], c) calls =
    (replicate (length calls) (Inr key), c)"
proof -
  have step: "KeyForToken env now c (Some (JStr kid)) = (Inr key, c)" for env now
    using assms by (simp add: KeyForToken_def)
  have "foldl (\<lambda>(rs, c) (env, now). let (r, c') = KeyForToken env now c (Some (JStr kid)) in (rs @ [r], c')) (rs, c) calls =
      (rs @ replicate (length calls) (Inr key), c)" for rs
    by (induction calls arbitrary: rs) (auto simp: step replicate_app_Cons_same)
  from this[of "[]"] show ?thesis by simp
qed

theorem jwks_known_key_never_rechecked_witness:
  "snd (foldl (\<lambda>(rs, c) (env, now). let (r, c') = KeyForToken env now c (Some (JStr ''k1'')) in (rs @ [r], c'))
     ([], (newJWKSCache demo_jwks_conf)\<lparr>keysByKID := [(''k1'', RSA_PublicKey 15 3)]\<rparr>) [(demo_jwks_env, 10 ^ 18)]) =
   (newJWKSCache demo_jwks_conf)\<lparr>keysByKID := [(''k1'', RSA_PublicKey 15 3)]\<rparr>"
  using jwks_known_key_never_rechecked[of "(newJWKSCache demo_jwks_conf)\<lparr>keysByKID := [(''k1'', RSA_PublicKey 15 3)]\<rparr>" "''k1''"
      "RSA_PublicKey 15 3" "[(demo_jwks_env, 10 ^ 18)]"]
  by (simp add: keyByKID_def)

text \<open>
  One key of a type other than RSA and EC, an Ed25519 key for instance, makes the parser refuse
  the whole set, the keys that it supports included.
\<close>

lemma parse_items_unsupported:
  assumes "JObj m \<in> set items" and "json_string_or_empty (map_of m ''kid'') \<noteq> []"
    and "json_string_or_empty (map_of m ''kty'') \<notin> {[], ''RSA'', ''EC''}"
  shows "\<exists>err. parse_items out items = Inl err"
  using assms(1)
proof (induction out items rule: parse_items.induct)
  case (2 out m' items)
  show ?case
  proof (cases "m' = m")
    case True
    then show ?thesis using assms(2,3) by (simp add: Let_def jwkToPublicKey_def)
  next
    case False
    then have "JObj m \<in> set items" using 2 by auto
    then show ?thesis using 2 by (auto simp: Let_def split: sum.splits)
  qed
qed auto

end
