(* ===== verification/NetIp.thy ===== *)
theory NetIp
  imports GoStrings
begin

section \<open>Addresses: what the code uses of net and net/netip\<close>

text \<open>
  \<open>net.SplitHostPort\<close>, \<open>netip.ParseAddr\<close>, \<open>netip.ParsePrefix\<close> and \<open>Prefix.Contains\<close>, which the JWT
  handler uses for its check of the request's source. An address is a number of 32 or 128 bits,
  the latter with a zone. An IPv4 address written inside IPv6 stays an IPv6 address, as in Go.
  The texts of the errors are abbreviated.
\<close>

datatype ip_addr = IPv4 nat | IPv6 nat string

record ip_prefix =
  pfAddr :: ip_addr
  pfBits :: nat

subsection \<open>Parsing\<close>

definition dec_value :: "string \<Rightarrow> nat" where
  "dec_value s = foldl (\<lambda>n c. n * 10 + (of_char c - 48)) 0 s"

text \<open>A field of a dotted address: digits, no leading zero, at most 255.\<close>

definition ipv4_field :: "string \<Rightarrow> nat option" where
  "ipv4_field s =
     (if s \<noteq> [] \<and> list_all is_digit s \<and> (length s = 1 \<or> hd s \<noteq> CHR ''0'') \<and> dec_value s \<le> 255
      then Some (dec_value s) else None)"

definition parseIPv4 :: "string \<Rightarrow> nat option" where
  "parseIPv4 s =
     (case those (map ipv4_field (Split s (CHR ''.''))) of
        Some [a, b, c, d] \<Rightarrow> Some (((a * 256 + b) * 256 + c) * 256 + d)
      | _ \<Rightarrow> None)"

definition hex_value :: "char \<Rightarrow> nat option" where
  "hex_value ch =
     (let n = of_char ch :: nat in
      if 48 \<le> n \<and> n \<le> 57 then Some (n - 48)
      else if 97 \<le> n \<and> n \<le> 102 then Some (n - 87)
      else if 65 \<le> n \<and> n \<le> 70 then Some (n - 55) else None)"

definition is_hex :: "char \<Rightarrow> bool" where
  "is_hex ch \<longleftrightarrow> hex_value ch \<noteq> None"

definition hex_number :: "string \<Rightarrow> nat" where
  "hex_number s = foldl (\<lambda>n c. n * 16 + the (hex_value c)) 0 s"

text \<open>
  The loop of \<open>parseIPv6\<close>: groups of up to four hexadecimal digits, an ellipsis at most once, and a
  dotted address in the last two groups. The result is the groups, and where the ellipsis stood.
\<close>

function ipv6_loop :: "nat list \<Rightarrow> nat option \<Rightarrow> string \<Rightarrow> (nat list \<times> nat option) option" where
  "ipv6_loop gs ell s =
     (if 8 \<le> length gs then (if s = [] then Some (gs, ell) else None)
      else
        let ds = takeWhile is_hex s; r = dropWhile is_hex s in
        if ds = [] \<or> 4 < length ds then None
        else if r \<noteq> [] \<and> hd r = CHR ''.'' then
          (if (ell = None \<and> length gs \<noteq> 6) \<or> 8 < length gs + 2 then None
           else map_option (\<lambda>v. (gs @ [v div 65536, v mod 65536], ell)) (parseIPv4 s))
        else
          let gs' = gs @ [hex_number ds] in
          (case r of
             [] \<Rightarrow> Some (gs', ell)
           | c # r' \<Rightarrow>
               if c \<noteq> CHR '':'' \<or> r' = [] then None
               else if hd r' = CHR '':'' then
                 (if ell \<noteq> None then None
                  else if tl r' = [] then Some (gs', Some (length gs'))
                  else ipv6_loop gs' (Some (length gs')) (tl r'))
               else ipv6_loop gs' ell r'))"
  by pat_completeness auto

lemma dropWhile_shorter: "dropWhile P s = c # r \<Longrightarrow> length r < length s"
proof -
  assume "dropWhile P s = c # r"
  then have "length (c # r) \<le> length s" by (metis length_dropWhile_le)
  then show ?thesis by simp
qed

termination ipv6_loop
  by (relation "measure (\<lambda>(gs, ell, s). length s)")
    (auto dest!: sym[of "_ # _"] dropWhile_shorter simp: less_imp_diff_less)

declare ipv6_loop.simps [simp del]

definition groups_value :: "nat list \<Rightarrow> nat" where
  "groups_value gs = foldl (\<lambda>n g. n * 65536 + g) 0 gs"

definition parseIPv6 :: "string \<Rightarrow> ip_addr option" where
  "parseIPv6 str =
     (let zoned = CHR ''%'' \<in> set str;
          s = before_first (CHR ''%'') str;
          zone = (if zoned then drop (Suc (length s)) str else '''') in
      if zoned \<and> zone = [] then None
      else
        let lead = HasPrefix s ''::''; body = (if lead then drop 2 s else s) in
        if lead \<and> body = [] then Some (IPv6 0 zone)
        else (case ipv6_loop [] (if lead then Some 0 else None) body of
                None \<Rightarrow> None
              | Some (gs, None) \<Rightarrow> if length gs < 8 then None else Some (IPv6 (groups_value gs) zone)
              | Some (gs, Some e) \<Rightarrow>
                  if 8 \<le> length gs then None
                  else Some (IPv6 (groups_value (take e gs @ replicate (8 - length gs) 0 @ drop e gs)) zone)))"

definition ParseAddr :: "string \<Rightarrow> ip_addr res" where
  "ParseAddr s =
     (case List.find (\<lambda>c. c \<in> set ''.:%'') s of
        None \<Rightarrow> Inl ''unable to parse IP''
      | Some c \<Rightarrow>
          if c = CHR ''.'' then
            (case parseIPv4 s of None \<Rightarrow> Inl ''invalid IPv4 address'' | Some n \<Rightarrow> Inr (IPv4 n))
          else if c = CHR '':'' then
            (case parseIPv6 s of None \<Rightarrow> Inl ''invalid IPv6 address'' | Some a \<Rightarrow> Inr a)
          else Inl ''missing IPv6 address'')"

definition ParsePrefix :: "string \<Rightarrow> ip_prefix res" where
  "ParsePrefix s =
     (if CHR ''/'' \<notin> set s then Inl ''no slash''
      else case ParseAddr (before_last (CHR ''/'') s) of
        Inl e \<Rightarrow> Inl e
      | Inr ip \<Rightarrow>
          let bits = after_last (CHR ''/'') s;
              maxBits = (case ip of IPv4 n \<Rightarrow> 32 | IPv6 n zone \<Rightarrow> 128) in
          if (case ip of IPv4 n \<Rightarrow> False | IPv6 n zone \<Rightarrow> zone \<noteq> []) then Inl ''IPv6 zones cannot be present in a prefix''
          else if bits = [] \<or> \<not> list_all is_digit bits \<or> (1 < length bits \<and> hd bits = CHR ''0'') then Inl ''bad bits after slash''
          else if maxBits < dec_value bits then Inl ''prefix length out of range''
          else Inr \<lparr>pfAddr = ip, pfBits = dec_value bits\<rparr>)"

definition prefix_Contains :: "ip_prefix \<Rightarrow> ip_addr \<Rightarrow> bool" where
  "prefix_Contains p ip =
     (case (pfAddr p, ip) of
        (IPv4 a, IPv4 b) \<Rightarrow> a div 2 ^ (32 - pfBits p) = b div 2 ^ (32 - pfBits p)
      | (IPv6 a z, IPv6 b zone) \<Rightarrow> zone = [] \<and> a div 2 ^ (128 - pfBits p) = b div 2 ^ (128 - pfBits p)
      | _ \<Rightarrow> False)"

text \<open>The host part of a successful \<open>net.SplitHostPort\<close>.\<close>

definition SplitHostPort :: "string \<Rightarrow> (string \<times> string) option" where
  "SplitHostPort s =
     (if CHR '':'' \<notin> set s then None
      else
        let host0 = before_last (CHR '':'') s; port = after_last (CHR '':'') s in
        if hd s = CHR ''['' then
          (let host = before_first (CHR '']'') (tl s) in
           if host0 \<noteq> ''['' @ host @ '']'' \<or> CHR ''['' \<in> set (tl s) \<or> CHR '']'' \<in> set port then None
           else Some (host, port))
        else if CHR '':'' \<in> set host0 \<or> CHR ''['' \<in> set s \<or> CHR '']'' \<in> set s then None
        else Some (host0, port))"

subsection \<open>What the prefixes contain\<close>

lemma div_eq_interval:
  fixes a b d :: nat
  assumes "0 < d"
  shows "a div d = b div d \<longleftrightarrow> (a div d) * d \<le> b \<and> b < (a div d) * d + d"
proof
  assume "a div d = b div d"
  then have "(a div d) * d = b div d * d" by simp
  then show "(a div d) * d \<le> b \<and> b < (a div d) * d + d"
    using div_mult_mod_eq[of b d] mod_less_divisor[OF assms, of b] by linarith
next
  assume "(a div d) * d \<le> b \<and> b < (a div d) * d + d"
  then show "a div d = b div d" using assms by (metis div_nat_eqI mult.commute add.commute mult_Suc_right)
qed

lemma contains_v4_range:
  "prefix_Contains \<lparr>pfAddr = IPv4 a, pfBits = n\<rparr> ip \<longleftrightarrow>
     (\<exists>b. ip = IPv4 b \<and> (a div 2 ^ (32 - n)) * 2 ^ (32 - n) \<le> b \<and> b < (a div 2 ^ (32 - n)) * 2 ^ (32 - n) + 2 ^ (32 - n))"
  using div_eq_interval[of "2 ^ (32 - n)" a] by (cases ip) (auto simp: prefix_Contains_def)

end
