(* ===== verification/GatewayJwt.thy ===== *)
theory GatewayJwt
  imports Jwks NetIp Selector Metrics
begin

section \<open>The JWT handler: gateway_jwt.go\<close>

text \<open>
  \<open>GatewayJWT\<close>, the middleware that verifies a token and turns its claims into routing keys:
  \<open>Provision\<close>, \<open>ServeHTTP\<close> with all its checks, and their helpers. \<open>golang-jwt\<close> is a third-party
  package: \<open>ParseWithClaims\<close> is the parameter \<open>parse\<close>, a function that may call the key function it
  is given; what the handler relies on is \<open>jwt_parser_ok\<close>. The digest SHA-256 and the orders in
  which the loops of \<open>renderKeyTemplate\<close> visit their maps are parameters. The handler's effect is
  its outcome: a rejection with its status, or the call of the next handler after the calls of
  \<open>caddyhttp.SetVar\<close>, listed with \<open>None\<close> for nil.
\<close>

type_synonym claims = "string \<rightharpoonup> json"

record jwt_token =
  tAlg :: string
  tHeader :: "string \<rightharpoonup> json"

type_synonym jwt_parser = "string \<Rightarrow> (jwt_token \<Rightarrow> jwksCache \<Rightarrow> public_key res \<times> jwksCache) \<Rightarrow> string list \<Rightarrow> duration \<Rightarrow>
    jwksCache \<Rightarrow> (claims \<times> bool) res \<times> jwksCache"

text \<open>
  What the documentation of \<open>ParseWithClaims\<close> says of a token that it returns as valid: the key
  function returned a key for the token, the token's algorithm is on the list of
  \<open>WithValidMethods\<close>, and the signature over these claims verifies with that key (\<open>sigok\<close>).
\<close>

definition jwt_parser_ok :: "jwt_parser \<Rightarrow> (public_key \<Rightarrow> string \<Rightarrow> claims \<Rightarrow> bool) \<Rightarrow> bool" where
  "jwt_parser_ok parse sigok \<longleftrightarrow>
     (\<forall>tokenStr keyfunc algs leeway c cl c'. parse tokenStr keyfunc algs leeway c = (Inr (cl, True), c') \<longrightarrow>
        (\<exists>t key. keyfunc t c = (Inr key, c') \<and> tAlg t \<in> set algs \<and> sigok key tokenStr cl))"

lemma jwt_parser_okD:
  assumes "jwt_parser_ok parse sigok" and "parse tokenStr keyfunc algs leeway c = (Inr (cl, True), c')"
  shows "\<exists>t key. keyfunc t c = (Inr key, c') \<and> tAlg t \<in> set algs \<and> sigok key tokenStr cl"
  using assms(1)[unfolded jwt_parser_ok_def, rule_format, OF assms(2)] .

record tls_state =
  VerifiedChains :: nat
  PeerCertificates :: "string list"

record GatewayJWT =
  JWKSURL :: string
  Issuer :: string
  Audiences :: "string list"
  AllowedAlgs :: "string list"
  Leeway :: duration
  TokenHeader :: string
  TokenPrefix :: string
  Optional :: bool
  TrustedSources :: "string list"
  RequireMTLS :: bool
  AllowedClientCertSHA256 :: "string list"
  ClaimTenant :: string
  ClaimService :: string
  ClaimVersion :: string
  ClaimInstance :: string
  VersionKeyTemplate :: string
  InstanceKeyTemplate :: string
  KeyPrefix :: string
  VersionKeyVar :: string
  InstanceKeyVar :: string
  TenantVar :: string
  ServiceVar :: string
  VersionVar :: string
  InstanceVar :: string
  JWKSRefreshInterval :: duration
  JWKSTimeout :: duration
  AllowInsecureJWKS :: bool
  trustedSourcePrefixes :: "ip_prefix list"
  allowedCertFP :: "string list"
  jwks :: jwksCache

subsection \<open>Provision\<close>

definition or_default :: "string \<Rightarrow> string \<Rightarrow> string" where
  "or_default s d = (if s = [] then d else s)"

definition gateway_defaults :: "GatewayJWT \<Rightarrow> GatewayJWT" where
  "gateway_defaults g = g\<lparr>
     TokenHeader := or_default (TokenHeader g) ''Authorization'',
     TokenPrefix := or_default (TokenPrefix g) ''Bearer '',
     AllowedAlgs := (if AllowedAlgs g = [] then [''RS256'', ''ES256''] else AllowedAlgs g),
     ClaimTenant := or_default (ClaimTenant g) ''tenant'',
     ClaimService := or_default (ClaimService g) ''service'',
     ClaimVersion := or_default (ClaimVersion g) ''version'',
     ClaimInstance := or_default (ClaimInstance g) ''instance'',
     VersionKeyTemplate := or_default (VersionKeyTemplate g) ''{tenant}/{service}/{version}'',
     InstanceKeyTemplate := or_default (InstanceKeyTemplate g) ''{tenant}/{service}/{version}/{instance}'',
     VersionKeyVar := or_default (VersionKeyVar g) ''route_version_key'',
     InstanceKeyVar := or_default (InstanceKeyVar g) ''route_instance_key'',
     TenantVar := or_default (TenantVar g) ''route_tenant'',
     ServiceVar := or_default (ServiceVar g) ''route_service'',
     VersionVar := or_default (VersionVar g) ''route_version'',
     InstanceVar := or_default (InstanceVar g) ''route_instance'',
     JWKSTimeout := (if JWKSTimeout g = 0 then 5000000000 else JWKSTimeout g),
     JWKSRefreshInterval := (if JWKSRefreshInterval g = 0 then 600000000000 else JWKSRefreshInterval g)\<rparr>"

fun parse_trusted :: "ip_prefix list \<Rightarrow> string list \<Rightarrow> ip_prefix list res" where
  "parse_trusted acc [] = Inr acc"
| "parse_trusted acc (cidr0 # rest) =
     (let cidr = TrimSpace cidr0 in
      if cidr = [] then parse_trusted acc rest
      else case ParsePrefix cidr of
             Inl e \<Rightarrow> Inl (''invalid trusted_sources CIDR '' @ cidr @ '': '' @ e)
           | Inr p \<Rightarrow> parse_trusted (acc @ [p]) rest)"

fun hex_DecodeString :: "string \<Rightarrow> string option" where
  "hex_DecodeString [] = Some []"
| "hex_DecodeString [a] = None"
| "hex_DecodeString (a # b # s) =
     (case (hex_value a, hex_value b, hex_DecodeString s) of
        (Some x, Some y, Some r) \<Rightarrow> Some (char_of (x * 16 + y) # r)
      | _ \<Rightarrow> None)"

fun parse_fingerprints :: "string list \<Rightarrow> string list \<Rightarrow> string list res" where
  "parse_fingerprints acc [] = Inr acc"
| "parse_fingerprints acc (hexFP # rest) =
     (case hex_DecodeString (TrimSpace (lower_ascii hexFP)) of
        None \<Rightarrow> Inl (''invalid allowed_client_cert_sha256 '' @ hexFP)
      | Some fp \<Rightarrow>
          if length fp \<noteq> 32 then Inl (''allowed_client_cert_sha256 must be 32 bytes hex, got '' @ itoa (int (length fp)))
          else parse_fingerprints (acc @ [fp]) rest)"

definition gateway_Provision :: "jwks_env \<Rightarrow> time \<Rightarrow> GatewayJWT \<Rightarrow> GatewayJWT res" where
  "gateway_Provision env now g0 =
     (if JWKSURL g0 = [] then Inl ''jwks_url is required''
      else case url_scheme env (JWKSURL g0) of
        Inl e \<Rightarrow> Inl (''invalid jwks_url: '' @ e)
      | Inr scheme \<Rightarrow>
          if \<not> AllowInsecureJWKS g0 \<and> scheme \<noteq> ''https'' then
            Inl ''jwks_url must be https unless allow_insecure_jwks is true''
          else
            let g = gateway_defaults g0 in
            case (if TrustedSources g = [] then Inr (trustedSourcePrefixes g) else parse_trusted [] (TrustedSources g)) of
              Inl e \<Rightarrow> Inl e
            | Inr prefixes \<Rightarrow>
                (case (if RequireMTLS g \<and> AllowedClientCertSHA256 g \<noteq> []
                       then parse_fingerprints [] (AllowedClientCertSHA256 g) else Inr (allowedCertFP g)) of
                   Inl e \<Rightarrow> Inl e
                 | Inr fps \<Rightarrow>
                     let cache = newJWKSCache \<lparr>jURL = JWKSURL g, jRefresh = JWKSRefreshInterval g, jTimeout = JWKSTimeout g,
                           jAllowInsecure = AllowInsecureJWKS g, jExpectedIssuer = Issuer g\<rparr>
                     in (case jwks_Refresh env now cache of
                           (Some err, c) \<Rightarrow> Inl err
                         | (None, c) \<Rightarrow>
                             Inr (g\<lparr>trustedSourcePrefixes := prefixes, allowedCertFP := fps, jwks := c\<rparr>))))"

definition gateway_Validate :: "GatewayJWT \<Rightarrow> string option" where
  "gateway_Validate g = (if JWKSURL g = [] then Some ''jwks_url is required'' else None)"

subsection \<open>The helpers\<close>

text \<open>The token, or \<open>None\<close> when it is missing.\<close>

definition extractToken :: "GatewayJWT \<Rightarrow> http_request \<Rightarrow> string option" where
  "extractToken g r =
     (let v = TrimSpace (rHeader r (TokenHeader g)) in
      if v = [] then None
      else if TokenPrefix g \<noteq> [] \<and> \<not> HasPrefix v (TokenPrefix g) then None
      else
        let v' = (if TokenPrefix g \<noteq> [] then TrimSpace (TrimPrefix v (TokenPrefix g)) else v) in
        if v' = [] then None else Some v')"

definition remoteIP :: "http_request \<Rightarrow> ip_addr res" where
  "remoteIP r =
     (let host = TrimSpace (rRemoteAddr r) in
      if host = [] then Inl ''missing remote addr''
      else ParseAddr (case SplitHostPort host of Some (h, _) \<Rightarrow> h | None \<Rightarrow> host))"

definition hasVerifiedClientCert :: "tls_state option \<Rightarrow> bool" where
  "hasVerifiedClientCert tls = (case tls of None \<Rightarrow> False | Some t \<Rightarrow> 0 < VerifiedChains t)"

definition audienceAllowed :: "json option \<Rightarrow> string list \<Rightarrow> bool" where
  "audienceAllowed audClaim allowed =
     (if allowed = [] then True
      else case audClaim of
        Some (JStr s) \<Rightarrow> s \<in> set allowed
      | Some (JArr items) \<Rightarrow> list_ex (\<lambda>item. case item of JStr s \<Rightarrow> s \<in> set allowed | _ \<Rightarrow> False) items
      | _ \<Rightarrow> False)"

definition claimStringRequired :: "claims \<Rightarrow> string \<Rightarrow> string res" where
  "claimStringRequired cl key =
     (if key = [] then Inl ''empty claim key''
      else case cl key of
        None \<Rightarrow> Inl (''missing claim '' @ key)
      | Some (JStr s) \<Rightarrow> if TrimSpace s = [] then Inl (''invalid claim '' @ key) else Inr s
      | Some _ \<Rightarrow> Inl (''invalid claim '' @ key))"

definition claimStringOptional :: "claims \<Rightarrow> string \<Rightarrow> string" where
  "claimStringOptional cl key =
     (if key = [] then ''''
      else case cl key of Some (JStr s) \<Rightarrow> TrimSpace s | _ \<Rightarrow> '''')"

text \<open>\<open>vars\<close> lists the map in the order in which the loop visits it.\<close>

definition renderKeyTemplate :: "string \<Rightarrow> (string \<times> string) list \<Rightarrow> string res" where
  "renderKeyTemplate tmpl vars =
     (if TrimSpace tmpl = [] then Inl ''empty key template''
      else
        let out = foldl (\<lambda>out (k, v). ReplaceAll out (''{'' @ k @ ''}'') v) tmpl vars in
        if Contains out ''{'' \<or> Contains out ''}'' then Inl ''unresolved placeholder in key template''
        else Inr out)"

subsection \<open>ServeHTTP\<close>

datatype gateway_outcome = Reject nat string | Next "(string \<times> string option) list"

definition source_check :: "GatewayJWT \<Rightarrow> http_request \<Rightarrow> string option" where
  "source_check g r =
     (if trustedSourcePrefixes g = [] then None
      else case remoteIP r of
        Inl err \<Rightarrow> Some err
      | Inr ip \<Rightarrow>
          if list_ex (\<lambda>p. prefix_Contains p ip) (trustedSourcePrefixes g) then None
          else Some ''request source not allowed'')"

definition mtls_check :: "(string \<Rightarrow> string) \<Rightarrow> GatewayJWT \<Rightarrow> tls_state option \<Rightarrow> string option" where
  "mtls_check sha256 g tls =
     (if \<not> RequireMTLS g then None
      else if \<not> hasVerifiedClientCert tls then Some ''mTLS client certificate required''
      else if allowedCertFP g \<noteq> [] \<and>
              \<not> list_ex (\<lambda>cert. sha256 cert \<in> set (allowedCertFP g)) (case tls of None \<Rightarrow> [] | Some t \<Rightarrow> PeerCertificates t)
      then Some ''mTLS client certificate not allowed''
      else None)"

text \<open>From the claims of a valid token to the variables: the second half of \<open>ServeHTTP\<close>.\<close>

definition serve_claims :: "((string \<times> string) list \<Rightarrow> (string \<times> string) list) \<Rightarrow> GatewayJWT \<Rightarrow> claims \<Rightarrow> gateway_outcome" where
  "serve_claims order g cl =
     (if Issuer g \<noteq> [] \<and> json_string_or_empty (cl ''iss'') \<noteq> Issuer g then Reject 401 ''invalid issuer''
      else if Audiences g \<noteq> [] \<and> \<not> audienceAllowed (cl ''aud'') (Audiences g) then Reject 401 ''invalid audience''
      else case claimStringRequired cl (ClaimTenant g) of
        Inl err \<Rightarrow> Reject 401 err
      | Inr tenant \<Rightarrow> (case claimStringRequired cl (ClaimService g) of
          Inl err \<Rightarrow> Reject 401 err
        | Inr service \<Rightarrow> (case claimStringRequired cl (ClaimVersion g) of
            Inl err \<Rightarrow> Reject 401 err
          | Inr version \<Rightarrow>
              let inst = claimStringOptional cl (ClaimInstance g) in
              (case renderKeyTemplate (VersionKeyTemplate g)
                      (order [(''tenant'', tenant), (''service'', service), (''version'', version)]) of
                 Inl err \<Rightarrow> Reject 401 err
               | Inr versionKey \<Rightarrow>
                   (case (if inst = [] then Inr ''''
                          else renderKeyTemplate (InstanceKeyTemplate g)
                            (order [(''tenant'', tenant), (''service'', service), (''version'', version), (''instance'', inst)])) of
                      Inl err \<Rightarrow> Reject 401 err
                    | Inr instanceKey \<Rightarrow>
                        let versionKey' = KeyPrefix g @ versionKey;
                            instanceKey' = (if instanceKey = [] then '''' else KeyPrefix g @ instanceKey) in
                        Next [(TenantVar g, Some tenant), (ServiceVar g, Some service), (VersionVar g, Some version),
                              (InstanceVar g, Some inst), (VersionKeyVar g, Some versionKey'),
                              (InstanceKeyVar g, if instanceKey' = [] then None else Some instanceKey')])))))"

definition ServeHTTP :: "jwks_env \<Rightarrow> jwt_parser \<Rightarrow> (string \<Rightarrow> string) \<Rightarrow> ((string \<times> string) list \<Rightarrow> (string \<times> string) list) \<Rightarrow> time \<Rightarrow>
    GatewayJWT \<Rightarrow> http_request \<Rightarrow> tls_state option \<Rightarrow> gateway_outcome \<times> GatewayJWT" where
  "ServeHTTP env parse sha256 order now g r tls =
     (case source_check g r of
        Some err \<Rightarrow> (Reject 403 err, g)
      | None \<Rightarrow>
          (case mtls_check sha256 g tls of
             Some err \<Rightarrow> (Reject 403 err, g)
           | None \<Rightarrow>
               (case extractToken g r of
                  None \<Rightarrow> (if Optional g then Next [] else Reject 401 ''missing token'', g)
                | Some tokenStr \<Rightarrow>
                    (case parse tokenStr (\<lambda>t c. KeyForToken env now c (tHeader t ''kid'')) (AllowedAlgs g) (Leeway g) (jwks g) of
                       (Inl err, c) \<Rightarrow> (Reject 401 err, g\<lparr>jwks := c\<rparr>)
                     | (Inr (cl, valid), c) \<Rightarrow>
                         (if \<not> valid then Reject 401 ''invalid token'' else serve_claims order g cl, g\<lparr>jwks := c\<rparr>)))))"

subsection \<open>Who reaches the next handler\<close>

lemma serve_claims_next:
  assumes "serve_claims order g cl = Next vars"
  shows "\<exists>tenant service version inst versionKey instanceKey.
    (Issuer g = [] \<or> cl ''iss'' = Some (JStr (Issuer g))) \<and> audienceAllowed (cl ''aud'') (Audiences g) \<and>
    claimStringRequired cl (ClaimTenant g) = Inr tenant \<and> claimStringRequired cl (ClaimService g) = Inr service \<and>
    claimStringRequired cl (ClaimVersion g) = Inr version \<and> inst = claimStringOptional cl (ClaimInstance g) \<and>
    renderKeyTemplate (VersionKeyTemplate g)
      (order [(''tenant'', tenant), (''service'', service), (''version'', version)]) = Inr versionKey \<and>
    (if inst = [] then instanceKey = None
     else \<exists>ik. renderKeyTemplate (InstanceKeyTemplate g)
        (order [(''tenant'', tenant), (''service'', service), (''version'', version), (''instance'', inst)]) = Inr ik \<and>
        instanceKey = (if ik = [] then None else Some (KeyPrefix g @ ik))) \<and>
    vars = [(TenantVar g, Some tenant), (ServiceVar g, Some service), (VersionVar g, Some version),
      (InstanceVar g, Some inst), (VersionKeyVar g, Some (KeyPrefix g @ versionKey)), (InstanceKeyVar g, instanceKey)]"
proof -
  have iss: "Issuer g = [] \<or> cl ''iss'' = Some (JStr (Issuer g))"
    using assms by (cases "cl ''iss''" rule: json_string_or_empty.cases) (auto simp: serve_claims_def split: if_splits)
  have aud: "audienceAllowed (cl ''aud'') (Audiences g)"
    using assms by (cases "Audiences g = []") (auto simp: serve_claims_def audienceAllowed_def split: if_splits)
  have pass: "\<not> (Issuer g \<noteq> [] \<and> json_string_or_empty (cl ''iss'') \<noteq> Issuer g)"
    "\<not> (Audiences g \<noteq> [] \<and> \<not> audienceAllowed (cl ''aud'') (Audiences g))"
    using assms by (auto simp: serve_claims_def split: if_splits)
  show ?thesis
    using assms iss aud pass unfolding serve_claims_def Let_def
    by (simp split: sum.splits if_splits) auto
qed

lemma source_check_None:
  "source_check g r = None \<longleftrightarrow> trustedSourcePrefixes g = [] \<or>
     (\<exists>ip p. remoteIP r = Inr ip \<and> p \<in> set (trustedSourcePrefixes g) \<and> prefix_Contains p ip)"
  by (auto simp: source_check_def list_ex_iff split: sum.splits)

lemma mtls_check_None:
  "mtls_check sha256 g tls = None \<longleftrightarrow> RequireMTLS g \<longrightarrow>
     (\<exists>t. tls = Some t \<and> 0 < VerifiedChains t \<and>
        (allowedCertFP g \<noteq> [] \<longrightarrow> (\<exists>cert \<in> set (PeerCertificates t). sha256 cert \<in> set (allowedCertFP g))))"
  by (auto simp: mtls_check_def hasVerifiedClientCert_def list_ex_iff split: option.splits)

lemma reject_status:
  assumes "(Reject status err, g') = ServeHTTP env parse sha256 order now g r tls"
  shows "status = 401 \<or> status = 403"
proof -
  have "Reject n e = serve_claims order g cl \<Longrightarrow> n = 401" for cl n e
    by (auto simp: serve_claims_def Let_def split: if_splits sum.splits)
  then show ?thesis
    using assms by (auto simp: ServeHTTP_def split: option.splits prod.splits sum.splits if_splits)
qed

text \<open>What a request with a token has passed when it goes on: the parser, with a key of the key set, and the claims.\<close>

lemma token_passed:
  assumes "jwt_parser_ok parse sigok" and "jwks_history conf es (jwks g)" and "extractToken g r = Some tokenStr"
    and "source_check g r = None" and "mtls_check sha256 g tls = None"
    and "(Next vars, g') = ServeHTTP env parse sha256 order now g r tls"
  obtains cl t key env' now' keys k where "sigok key tokenStr cl" "tAlg (t :: jwt_token) \<in> set (AllowedAlgs g)"
    "(env', now') \<in> set (es @ [(env, now)])" "served_keys env' conf keys" "map_of keys k = Some key"
    "serve_claims order g cl = Next vars"
proof -
  obtain cl c where p: "parse tokenStr (\<lambda>t c. KeyForToken env now c (tHeader t ''kid'')) (AllowedAlgs g) (Leeway g) (jwks g) =
      (Inr (cl, True), c)" and sv: "serve_claims order g cl = Next vars"
    using assms(3-6) by (auto simp: ServeHTTP_def split: prod.splits sum.splits if_splits)
  obtain t :: jwt_token and key where t: "KeyForToken env now (jwks g) (tHeader t ''kid'') = (Inr key, c)"
    "tAlg t \<in> set (AllowedAlgs g)" "sigok key tokenStr cl"
    using jwt_parser_okD[OF assms(1) p] by blast
  obtain env' now' keys k where "(env', now') \<in> set (es @ [(env, now)])" "served_keys env' conf keys"
    "map_of keys k = Some key"
    using history_key_published[OF assms(2) t(1)] by blast
  then show ?thesis using that t sv by blast
qed



definition demo_gateway :: GatewayJWT where
  "demo_gateway = \<lparr>JWKSURL = ''https://idp/jwks'', Issuer = '''', Audiences = [], AllowedAlgs = [''RS256'', ''ES256''], Leeway = 0,
     TokenHeader = ''Authorization'', TokenPrefix = ''Bearer '', Optional = False, TrustedSources = [], RequireMTLS = False,
     AllowedClientCertSHA256 = [], ClaimTenant = ''tenant'', ClaimService = ''service'', ClaimVersion = ''version'',
     ClaimInstance = ''instance'', VersionKeyTemplate = ''{tenant}/{service}/{version}'',
     InstanceKeyTemplate = ''{tenant}/{service}/{version}/{instance}'', KeyPrefix = '''', VersionKeyVar = ''route_version_key'',
     InstanceKeyVar = ''route_instance_key'', TenantVar = ''route_tenant'', ServiceVar = ''route_service'',
     VersionVar = ''route_version'', InstanceVar = ''route_instance'', JWKSRefreshInterval = 600000000000,
     JWKSTimeout = 5000000000, AllowInsecureJWKS = False, trustedSourcePrefixes = [\<lparr>pfAddr = IPv4 0, pfBits = 0\<rparr>],
     allowedCertFP = [], jwks = newJWKSCache demo_jwks_conf\<rparr>"

definition demo_claims :: claims where
  "demo_claims = [''tenant'' \<mapsto> JStr ''a'', ''service'' \<mapsto> JStr ''b'', ''version'' \<mapsto> JStr ''1'']"

definition demo_parse :: jwt_parser where
  "demo_parse tokenStr keyfunc algs leeway c =
     (case keyfunc \<lparr>tAlg = ''RS256'', tHeader = [''kid'' \<mapsto> JStr ''k1'']\<rparr> c of
        (Inl e, c') \<Rightarrow> (Inl e, c')
      | (Inr key, c') \<Rightarrow> if ''RS256'' \<in> set algs then (Inr (demo_claims, True), c') else (Inl ''alg'', c'))"

definition demo_jwt_request :: http_request where
  "demo_jwt_request = demo_request\<lparr>rHeader := (\<lambda>h. if h = ''Authorization'' then ''Bearer x.y.z'' else ''''), rRemoteAddr := ''0.0.0.1:9''\<rparr>"

lemma demo_parse_ok: "jwt_parser_ok demo_parse (\<lambda>_ _ _. True)"
  by (auto simp: jwt_parser_ok_def demo_parse_def split: prod.splits sum.splits if_splits)

lemma demo_fields:
  "TokenHeader demo_gateway = ''Authorization''" "TokenPrefix demo_gateway = ''Bearer ''"
  "trustedSourcePrefixes demo_gateway = [\<lparr>pfAddr = IPv4 0, pfBits = 0\<rparr>]" "RequireMTLS demo_gateway = False"
  "AllowedAlgs demo_gateway = [''RS256'', ''ES256'']" "jwks demo_gateway = newJWKSCache demo_jwks_conf"
  "Issuer demo_gateway = ''''" "Audiences demo_gateway = []" "KeyPrefix demo_gateway = ''''"
  "ClaimTenant demo_gateway = ''tenant''" "ClaimService demo_gateway = ''service''" "ClaimVersion demo_gateway = ''version''"
  "ClaimInstance demo_gateway = ''instance''" "VersionKeyTemplate demo_gateway = ''{tenant}/{service}/{version}''"
  "TenantVar demo_gateway = ''route_tenant''" "ServiceVar demo_gateway = ''route_service''"
  "VersionVar demo_gateway = ''route_version''" "InstanceVar demo_gateway = ''route_instance''"
  "VersionKeyVar demo_gateway = ''route_version_key''" "InstanceKeyVar demo_gateway = ''route_instance_key''"
  by (simp_all only: demo_gateway_def GatewayJWT.select_convs)

lemma demo_token: "extractToken demo_gateway demo_jwt_request = Some ''x.y.z''"
proof -
  have a: "TrimSpace ''Bearer x.y.z'' = ''Bearer x.y.z''" by code_simp
  have b: "TrimSpace ''x.y.z'' = ''x.y.z''" by code_simp
  show ?thesis by (simp add: a b extractToken_def demo_fields demo_jwt_request_def TrimPrefix_def)
qed

lemma demo_history: "jwks_history demo_jwks_conf [] (jwks demo_gateway)"
  using jwks_history.start[of demo_jwks_conf] by (simp add: demo_fields)


text \<open>The request of the example is let through.\<close>

lemma demo_served:
  "fst (ServeHTTP demo_jwks_env demo_parse id id 7 demo_gateway demo_jwt_request None) =
     Next [(''route_tenant'', Some ''a''), (''route_service'', Some ''b''), (''route_version'', Some ''1''),
       (''route_instance'', Some ''''), (''route_version_key'', Some ''a/b/1''), (''route_instance_key'', None)]"
proof -
  have ip: "remoteIP demo_jwt_request = Inr (IPv4 1)" unfolding demo_jwt_request_def by code_simp
  have src: "source_check demo_gateway demo_jwt_request = None"
    by (simp add: source_check_def ip demo_fields prefix_Contains_def)
  have cl: "serve_claims id demo_gateway demo_claims =
      Next [(''route_tenant'', Some ''a''), (''route_service'', Some ''b''), (''route_version'', Some ''1''),
       (''route_instance'', Some ''''), (''route_version_key'', Some ''a/b/1''), (''route_instance_key'', None)]"
  proof -
    have key: "renderKeyTemplate ''{tenant}/{service}/{version}'' [(''tenant'', ''a''), (''service'', ''b''), (''version'', ''1'')] = Inr ''a/b/1''"
      by code_simp
    have a: "TrimSpace ''a'' = ''a''" by code_simp
    have b: "TrimSpace ''b'' = ''b''" by code_simp
    have c: "TrimSpace ''1'' = ''1''" by code_simp
    show ?thesis
      by (simp add: key a b c serve_claims_def claimStringRequired_def claimStringOptional_def demo_claims_def demo_fields)
  qed
  obtain c where k: "KeyForToken demo_jwks_env 7 (newJWKSCache demo_jwks_conf) (Some (JStr ''k1'')) = (Inr (RSA_PublicKey 15 3), c)"
    using demo_KeyForToken by blast
  show ?thesis
    by (simp add: ServeHTTP_def src mtls_check_def demo_fields demo_token demo_parse_def k cl)
qed


subsection \<open>Routing keys\<close>

text \<open>A template as a sequence of literal text and placeholders.\<close>

datatype template_part = Lit string | Var string

fun show_part :: "template_part \<Rightarrow> string" where
  "show_part (Lit s) = s"
| "show_part (Var k) = ''{'' @ k @ ''}''"

fun fill_part :: "(string \<rightharpoonup> string) \<Rightarrow> template_part \<Rightarrow> string" where
  "fill_part m (Lit s) = s"
| "fill_part m (Var k) = (case m k of Some v \<Rightarrow> v | None \<Rightarrow> ''{'' @ k @ ''}'')"

definition no_braces :: "string \<Rightarrow> bool" where
  "no_braces s \<longleftrightarrow> CHR ''{'' \<notin> set s \<and> CHR ''}'' \<notin> set s"

fun part_ok :: "template_part \<Rightarrow> bool" where
  "part_ok (Lit s) = no_braces s"
| "part_ok (Var k) = no_braces k"

definition subst_part :: "string \<Rightarrow> string \<Rightarrow> template_part \<Rightarrow> template_part" where
  "subst_part k v p = (if p = Var k then Lit v else p)"

lemma braced_prefix:
  assumes "no_braces j" and "no_braces k" and "HasPrefix (j @ ''}'' @ r) (k @ ''}'')"
  shows "j = k"
proof -
  obtain t where "j @ CHR ''}'' # r = k @ CHR ''}'' # t" using assms(3) by (auto simp: HasPrefix_iff)
  then have "takeWhile (\<lambda>c. c \<noteq> CHR ''}'') (j @ CHR ''}'' # r) = takeWhile (\<lambda>c. c \<noteq> CHR ''}'') (k @ CHR ''}'' # t)" by simp
  then show ?thesis using assms(1,2) by (simp add: no_braces_def takeWhile_neq)
qed

lemma ReplaceAll_parts:
  assumes "\<forall>p \<in> set ps. part_ok p" and "no_braces k"
  shows "ReplaceAll (concat (map show_part ps)) (''{'' @ k @ ''}'') v = concat (map (\<lambda>p. show_part (subst_part k v p)) ps)"
  using assms(1)
proof (induction ps)
  case Nil
  then show ?case by simp
next
  case (Cons p ps)
  let ?rest = "concat (map show_part ps)"
  have IH: "ReplaceAll ?rest (''{'' @ k @ ''}'') v = concat (map (\<lambda>p. show_part (subst_part k v p)) ps)" using Cons by simp
  show ?case
  proof (cases p)
    case (Lit s)
    then have "CHR ''{'' \<notin> set s" using Cons.prems by (simp add: no_braces_def)
    then show ?thesis using Lit IH ReplaceAll_skip[of "CHR ''{''" s ?rest "k @ ''}''" v] by (simp add: subst_part_def)
  next
    case (Var j)
    show ?thesis
    proof (cases "j = k")
      case True
      then show ?thesis using Var IH ReplaceAll_hit[of "''{'' @ k @ ''}''" ?rest v] by (simp add: subst_part_def)
    next
      case False
      have nb: "no_braces j" using Cons.prems Var by simp
      then have skip: "CHR ''{'' \<notin> set (j @ ''}'')" by (simp add: no_braces_def)
      have "\<not> HasPrefix (CHR ''{'' # (j @ ''}'') @ ?rest) (''{'' @ k @ ''}'')"
        using braced_prefix[OF nb assms(2), of ?rest] False by auto
      then have "ReplaceAll (CHR ''{'' # (j @ ''}'') @ ?rest) (''{'' @ k @ ''}'') v =
          CHR ''{'' # (j @ ''}'') @ ReplaceAll ?rest (''{'' @ k @ ''}'') v"
        using ReplaceAll_skip[OF skip, of ?rest "k @ ''}''" v] by (simp add: ReplaceAll_miss)
      then show ?thesis using Var False IH by (simp add: subst_part_def)
    qed
  qed
qed

lemma subst_part_ok: "part_ok p \<Longrightarrow> no_braces v \<Longrightarrow> part_ok (subst_part k v p)"
  by (simp add: subst_part_def)

lemma fold_replace_parts:
  assumes "\<forall>p \<in> set ps. part_ok p" and "\<forall>(k, v) \<in> set vars. no_braces k \<and> no_braces v" and "distinct (map fst vars)"
  shows "foldl (\<lambda>out (k, v). ReplaceAll out (''{'' @ k @ ''}'') v) (concat (map show_part ps)) vars =
    concat (map (fill_part (map_of vars)) ps)"
  using assms
proof (induction vars arbitrary: ps)
  case Nil
  have "show_part p = fill_part Map.empty p" for p by (cases p) auto
  then show ?case by (simp cong: map_cong)
next
  case (Cons kv vars)
  obtain k v where kv: "kv = (k, v)" by (cases kv)
  let ?ps = "map (subst_part k v) ps"
  have ok: "\<forall>p \<in> set ?ps. part_ok p" using Cons.prems kv by (auto intro: subst_part_ok)
  have "foldl (\<lambda>out (k, v). ReplaceAll out (''{'' @ k @ ''}'') v) (concat (map show_part ps)) (kv # vars) =
      foldl (\<lambda>out (k, v). ReplaceAll out (''{'' @ k @ ''}'') v) (concat (map show_part ?ps)) vars"
    using ReplaceAll_parts[of ps k v] Cons.prems kv by (simp add: comp_def)
  also have "\<dots> = concat (map (fill_part (map_of vars)) ?ps)" using Cons.IH[OF ok] Cons.prems by simp
  also have "\<dots> = concat (map (fill_part (map_of (kv # vars))) ps)"
  proof -
    have "fill_part (map_of vars) (subst_part k v p) = fill_part (map_of (kv # vars)) p" for p
      using kv by (cases p) (auto simp: subst_part_def)
    then show ?thesis by (simp add: comp_def)
  qed
  finally show ?case .
qed

lemma key_template_rendered:
  assumes "\<forall>p \<in> set ps. part_ok p \<and> (\<forall>k. p = Var k \<longrightarrow> k \<in> fst ` set vars)"
    and "\<forall>(k, v) \<in> set vars. no_braces k \<and> no_braces v" and "distinct (map fst vars)" and "mset order = mset vars"
    and "TrimSpace (concat (map show_part ps)) \<noteq> []"
  shows "renderKeyTemplate (concat (map show_part ps)) order = Inr (concat (map (fill_part (map_of vars)) ps))"
proof -
  have set: "set order = set vars" using assms(4) by (rule mset_eq_setD)
  have "mset (map fst order) = mset (map fst vars)" using assms(4) by simp
  then have dist: "distinct (map fst order)" using assms(3) mset_eq_imp_distinct_iff by blast
  have same: "map_of order = map_of vars" using map_of_inject_set[OF dist assms(3)] set by simp
  have out: "foldl (\<lambda>out (k, v). ReplaceAll out (''{'' @ k @ ''}'') v) (concat (map show_part ps)) order =
      concat (map (fill_part (map_of vars)) ps)"
    using fold_replace_parts[of ps order] assms(1,2) dist set same by simp
  have "no_braces (fill_part (map_of vars) p)" if "p \<in> set ps" for p
  proof (cases p)
    case (Lit s)
    then show ?thesis using assms(1) that by auto
  next
    case (Var k)
    then have "k \<in> fst ` set vars" using assms(1) that by blast
    then have "map_of vars k \<noteq> None" by (simp only: map_of_eq_None_iff not_not)
    then obtain v where "map_of vars k = Some v" by blast
    moreover from this have "no_braces v" using assms(2) by (auto dest!: map_of_SomeD)
    ultimately show ?thesis using Var by simp
  qed
  then have "no_braces (concat (map (fill_part (map_of vars)) ps))" by (auto simp: no_braces_def)
  then show ?thesis
    unfolding renderKeyTemplate_def out Let_def using assms(5) by (auto simp: no_braces_def)
qed

definition key_claims :: "string \<Rightarrow> string \<Rightarrow> string \<Rightarrow> (string \<times> string) list" where
  "key_claims t s v = [(''tenant'', t), (''service'', s), (''version'', v)]"

lemma default_version_template:
  "''{tenant}/{service}/{version}'' = concat (map show_part [Var ''tenant'', Lit ''/'', Var ''service'', Lit ''/'', Var ''version''])"
  by simp

lemma default_version_key:
  assumes "no_braces t" and "no_braces s" and "no_braces v" and "mset order = mset (key_claims t s v)"
  shows "renderKeyTemplate ''{tenant}/{service}/{version}'' order = Inr (t @ ''/'' @ s @ ''/'' @ v)"
proof -
  have ne: "TrimSpace ''{tenant}/{service}/{version}'' \<noteq> []" by code_simp
  show ?thesis
    using key_template_rendered[OF _ _ _ assms(4), of "[Var ''tenant'', Lit ''/'', Var ''service'', Lit ''/'', Var ''version'']"]
      ne assms(1-3)
    unfolding default_version_template[symmetric] by (simp add: key_claims_def no_braces_def)
qed

lemma cut_at_slash:
  "CHR ''/'' \<notin> set a \<Longrightarrow> CHR ''/'' \<notin> set b \<Longrightarrow> a @ CHR ''/'' # x = b @ CHR ''/'' # y \<Longrightarrow> a = b \<and> x = y"
  by (metis takeWhile_neq append_same_eq same_append_eq list.inject)

text \<open>
  C34: routing keys separate tenants. With the default template and claims without braces, the
  version key is tenant, service and version joined by slashes, in whatever order the loop visits
  its map; and if no claim contains a slash, different claims have different keys.
\<close>

theorem version_key_separates:
  assumes "no_braces t" and "no_braces s" and "no_braces v" and "no_braces t'" and "no_braces s'" and "no_braces v'"
    and "mset order = mset (key_claims t s v)" and "mset order' = mset (key_claims t' s' v')"
  shows "renderKeyTemplate ''{tenant}/{service}/{version}'' order = Inr (t @ ''/'' @ s @ ''/'' @ v) \<and>
    (CHR ''/'' \<notin> set (t @ s @ v @ t' @ s' @ v') \<longrightarrow>
      renderKeyTemplate ''{tenant}/{service}/{version}'' order = renderKeyTemplate ''{tenant}/{service}/{version}'' order' \<longrightarrow>
      (t, s, v) = (t', s', v'))"
proof -
  note a = default_version_key[OF assms(1-3,7)] and b = default_version_key[OF assms(4-6,8)]
  have "(t, s, v) = (t', s', v')"
    if "CHR ''/'' \<notin> set (t @ s @ v @ t' @ s' @ v')" "t @ ''/'' @ s @ ''/'' @ v = t' @ ''/'' @ s' @ ''/'' @ v'"
    using that cut_at_slash[of t t'] cut_at_slash[of s s' v v'] by auto
  then show ?thesis using a b by auto
qed

theorem version_key_separates_witness:
  "renderKeyTemplate ''{tenant}/{service}/{version}'' (rev (key_claims ''a'' ''b'' ''1'')) = Inr ''a/b/1''"
  using version_key_separates[of "''a''" "''b''" "''1''" "''a''" "''b''" "''2''" "rev (key_claims ''a'' ''b'' ''1'')" "key_claims ''a'' ''b'' ''2''"]
  by (simp add: no_braces_def)

text \<open>
  With a slash inside a claim, two tenants share a key: tenant \<open>a/b\<close> with service \<open>c\<close>, and tenant
  \<open>a\<close> with service \<open>b/c\<close>.
\<close>

lemma version_key_collision:
  "renderKeyTemplate ''{tenant}/{service}/{version}'' (key_claims ''a/b'' ''c'' ''1'') =
     renderKeyTemplate ''{tenant}/{service}/{version}'' (key_claims ''a'' ''b/c'' ''1'')"
  using default_version_key[OF _ _ _ refl, of "''a/b''" "''c''" "''1''"] default_version_key[OF _ _ _ refl, of "''a''" "''b/c''" "''1''"]
  by (simp add: no_braces_def)

text \<open>
  With a brace inside a claim, the key depends on the random order of the map: the claim \<open>{service}\<close>
  of the tenant is expanded if the service is visited after the tenant, and rejected if before.
\<close>

lemma version_key_expanded:
  "renderKeyTemplate ''{tenant}/{service}/{version}'' (key_claims ''{service}'' ''c'' ''1'') = Inr ''c/c/1''"
  by code_simp

lemma version_key_refused:
  "renderKeyTemplate ''{tenant}/{service}/{version}'' (rev (key_claims ''{service}'' ''c'' ''1'')) =
     Inl ''unresolved placeholder in key template''"
  by code_simp

end
