(* ===== verification/AdminApi.thy ===== *)
theory AdminApi
  imports File RouteStats Metrics
begin

section \<open>The admin endpoints: admin.go\<close>

text \<open>
  \<open>AdminAPI\<close>: the handlers of the five endpoints, from the request method to the value that is
  encoded as JSON, or the error of the status 405. What a handler asks of a registered source is an
  argument (\<open>admin_ops\<close>), with the laws of a source as a locale; the entries come in the order
  in which the registry lists them. A map of the response is an association list.
\<close>

record 'd admin_ops =
  ao_stats :: "'d \<Rightarrow> AdminCacheStats"
  ao_routes :: "'d \<Rightarrow> AdminRouteInfo list"
  ao_healthy :: "'d \<Rightarrow> bool"
  ao_lastError :: "'d \<Rightarrow> string"
  ao_clear :: "'d \<Rightarrow> 'd"

datatype api_error = MethodNotAllowed

record StatsResponse =
  sRouteHits :: "string \<rightharpoonup> int"
  sRouteMisses :: "string \<rightharpoonup> int"
  sCacheHits :: uint64
  sCacheMisses :: uint64
  sCacheHitRate :: rat

record DataSourceHealthInfo =
  hiHealthy :: bool
  hiType :: string
  hiConfigCount :: int
  hiLastError :: string

record HealthResponse =
  hrDataSources :: "(string \<times> DataSourceHealthInfo) list"
  hrOverall :: string
  hrParseErrors :: "string \<rightharpoonup> RouteConfigParseErrorInfo"

record RouteInfo =
  riSource :: string
  riSourceType :: string
  riKey :: string
  riUpstream :: string
  riUpstreams :: "string list"
  riRuleCount :: int

record RoutesResponse =
  roRoutes :: "RouteInfo list"
  roTotal :: int

record CacheResponse =
  crEntries :: int
  crHitRate :: rat
  crMaxSize :: int
  crHits :: uint64
  crMisses :: uint64
  crNegativeHits :: uint64
  crSources :: "(string \<times> AdminCacheStats) list"
  crParseErrors :: "string \<rightharpoonup> RouteConfigParseErrorInfo"

record PoliciesResponse =
  poPolicies :: "SelectionPolicyInfo list"
  poTotal :: int

datatype http_method = GET | DELETE | OtherMethod string

definition api_hit_rate :: "uint64 \<Rightarrow> uint64 \<Rightarrow> rat" where
  "api_hit_rate h m = (if 0 < h + m then of_nat (unat h) / of_nat (unat (h + m)) else 0)"

definition handleStats :: "'d admin_ops \<Rightarrow> ('c, int) lru_ops \<Rightarrow> 'c RouteStatsRegistry \<Rightarrow> 'd adminRegistry \<Rightarrow> http_method \<Rightarrow>
    api_error + StatsResponse" where
  "handleStats ao lops rs g method =
     (if method \<noteq> GET then Inl MethodNotAllowed
      else
        let stats = GetStats lops rs;
            (cacheHits, cacheMisses) = foldl (\<lambda>(h, m) e. let cs = ao_stats ao (eDS e) in (h + aHits cs, m + aMisses cs))
              (0, 0) (ListAdminEntries g)
        in Inr \<lparr>sRouteHits = statHits stats, sRouteMisses = statMisses stats, sCacheHits = cacheHits,
                sCacheMisses = cacheMisses, sCacheHitRate = api_hit_rate cacheHits cacheMisses\<rparr>)"

definition handleHealth :: "'d admin_ops \<Rightarrow> metrics \<Rightarrow> 'd adminRegistry \<Rightarrow> http_method \<Rightarrow> api_error + HealthResponse" where
  "handleHealth ao ms g method =
     (if method \<noteq> GET then Inl MethodNotAllowed
      else
        let (info, overall) = foldl (\<lambda>(info, overall) e.
              (AList.update (eName e) \<lparr>hiHealthy = ao_healthy ao (eDS e), hiType = eType e,
                 hiConfigCount = int (length (ao_routes ao (eDS e))), hiLastError = ao_lastError ao (eDS e)\<rparr> info,
               if \<not> ao_healthy ao (eDS e) then ''degraded'' else overall)) ([], ''healthy'') (ListAdminEntries g)
        in Inr \<lparr>hrDataSources = info, hrOverall = overall, hrParseErrors = RouteConfigParseErrorSnapshot ms\<rparr>)"

definition handleRoutes :: "'d admin_ops \<Rightarrow> 'd adminRegistry \<Rightarrow> http_method \<Rightarrow> api_error + RoutesResponse" where
  "handleRoutes ao g method =
     (if method \<noteq> GET then Inl MethodNotAllowed
      else
        let routes = foldl (\<lambda>routes e. foldl (\<lambda>routes ri. routes @
              [\<lparr>riSource = eName e, riSourceType = eType e, riKey = iKey ri, riUpstream = iUpstream ri,
                riUpstreams = iUpstreams ri, riRuleCount = iRuleCount ri\<rparr>]) routes (ao_routes ao (eDS e)))
              [] (ListAdminEntries g)
        in Inr \<lparr>roRoutes = routes, roTotal = int (length routes)\<rparr>)"

definition handlePolicies :: "selectionPolicyRegistry \<Rightarrow> http_method \<Rightarrow> api_error + PoliciesResponse" where
  "handlePolicies pg method =
     (if method \<noteq> GET then Inl MethodNotAllowed
      else Inr \<lparr>poPolicies = listSelectionPolicies pg, poTotal = int (length (listSelectionPolicies pg))\<rparr>)"

definition add_cache_stats :: "CacheResponse \<Rightarrow> string \<Rightarrow> AdminCacheStats \<Rightarrow> CacheResponse" where
  "add_cache_stats r name cs =
     r\<lparr>crEntries := wrap64 (crEntries r + aEntries cs), crMaxSize := wrap64 (crMaxSize r + aMaxSize cs),
       crHits := crHits r + aHits cs, crMisses := crMisses r + aMisses cs,
       crNegativeHits := crNegativeHits r + aNegativeHits cs, crSources := AList.update name cs (crSources r)\<rparr>"

definition getCacheStats :: "'d admin_ops \<Rightarrow> metrics \<Rightarrow> 'd adminRegistry \<Rightarrow> CacheResponse" where
  "getCacheStats ao ms g =
     (let r = foldl (\<lambda>r e. add_cache_stats r (eName e) (ao_stats ao (eDS e)))
            \<lparr>crEntries = 0, crHitRate = 0, crMaxSize = 0, crHits = 0, crMisses = 0, crNegativeHits = 0, crSources = [],
             crParseErrors = RouteConfigParseErrorSnapshot ms\<rparr> (ListAdminEntries g)
      in r\<lparr>crHitRate := api_hit_rate (crHits r) (crMisses r)\<rparr>)"

text \<open>The sources are shared with the requests: \<open>AdminClearCache\<close> changes them in place.\<close>

definition clearCache :: "'d admin_ops \<Rightarrow> 'd adminRegistry \<Rightarrow> int \<times> 'd adminRegistry" where
  "clearCache ao g =
     (int (length (ListAdminEntries g)), g\<lparr>sources := map (apsnd (\<lambda>e. e\<lparr>eDS := ao_clear ao (eDS e)\<rparr>)) (sources g)\<rparr>)"

datatype cache_answer = CacheStats CacheResponse | CacheCleared int

definition handleCache :: "'d admin_ops \<Rightarrow> metrics \<Rightarrow> 'd adminRegistry \<Rightarrow> http_method \<Rightarrow>
    (api_error + cache_answer) \<times> 'd adminRegistry" where
  "handleCache ao ms g method =
     (case method of
        GET \<Rightarrow> (Inr (CacheStats (getCacheStats ao ms g)), g)
      | DELETE \<Rightarrow> (let (n, g') = clearCache ao g in (Inr (CacheCleared n), g'))
      | OtherMethod _ \<Rightarrow> (Inl MethodNotAllowed, g))"

subsection \<open>What the endpoints rely on\<close>

lemma clearCache_entries:
  "ListAdminEntries (snd (clearCache ao g)) = map (\<lambda>e. e\<lparr>eDS := ao_clear ao (eDS e)\<rparr>) (ListAdminEntries g)"
  by (simp add: ListAdminEntries_def clearCache_def)

locale admin_source =
  fixes ao :: "'d admin_ops" and ok :: "'d \<Rightarrow> bool"
  assumes clear_routes: "ok d \<Longrightarrow> ao_routes ao (ao_clear ao d) = []"
    and clear_stats: "ok d \<Longrightarrow> aEntries (ao_stats ao (ao_clear ao d)) = 0 \<and> aHits (ao_stats ao (ao_clear ao d)) = 0 \<and>
      aMisses (ao_stats ao (ao_clear ao d)) = 0 \<and> aNegativeHits (ao_stats ao (ao_clear ao d)) = 0"
    and clear_health: "ok d \<Longrightarrow> ao_healthy ao (ao_clear ao d) = ao_healthy ao d"
begin

lemma clear_entries:
  assumes "\<forall>e \<in> set (ListAdminEntries g). ok (eDS e)" and "g' = snd (clearCache ao g)" and "e \<in> set (ListAdminEntries g')"
  shows "ao_routes ao (eDS e) = [] \<and> aEntries (ao_stats ao (eDS e)) = 0 \<and> aHits (ao_stats ao (eDS e)) = 0 \<and>
    aMisses (ao_stats ao (eDS e)) = 0 \<and> aNegativeHits (ao_stats ao (eDS e)) = 0"
proof -
  obtain e0 where "e0 \<in> set (ListAdminEntries g)" "eDS e = ao_clear ao (eDS e0)"
    using assms(3) unfolding assms(2) clearCache_entries by auto
  then show ?thesis using assms(1) clear_routes clear_stats by auto
qed

end


text \<open>Sources of two kinds in one registry.\<close>

definition sum_ops :: "'a admin_ops \<Rightarrow> 'b admin_ops \<Rightarrow> ('a + 'b) admin_ops" where
  "sum_ops a b = \<lparr>ao_stats = case_sum (ao_stats a) (ao_stats b), ao_routes = case_sum (ao_routes a) (ao_routes b),
     ao_healthy = case_sum (ao_healthy a) (ao_healthy b), ao_lastError = case_sum (ao_lastError a) (ao_lastError b),
     ao_clear = map_sum (ao_clear a) (ao_clear b)\<rparr>"

lemma admin_source_sum:
  assumes "admin_source a oka" and "admin_source b okb"
  shows "admin_source (sum_ops a b) (case_sum oka okb)"
proof
  note laws = admin_source.clear_routes[OF assms(1)] admin_source.clear_routes[OF assms(2)]
    admin_source.clear_stats[OF assms(1)] admin_source.clear_stats[OF assms(2)]
    admin_source.clear_health[OF assms(1)] admin_source.clear_health[OF assms(2)]
  fix d assume ok: "case_sum oka okb d"
  show "ao_routes (sum_ops a b) (ao_clear (sum_ops a b) d) = []"
    using ok laws by (cases d) (simp_all add: sum_ops_def)
  show "aEntries (ao_stats (sum_ops a b) (ao_clear (sum_ops a b) d)) = 0 \<and>
      aHits (ao_stats (sum_ops a b) (ao_clear (sum_ops a b) d)) = 0 \<and>
      aMisses (ao_stats (sum_ops a b) (ao_clear (sum_ops a b) d)) = 0 \<and>
      aNegativeHits (ao_stats (sum_ops a b) (ao_clear (sum_ops a b) d)) = 0"
    using ok laws by (cases d) (simp_all add: sum_ops_def)
  show "ao_healthy (sum_ops a b) (ao_clear (sum_ops a b) d) = ao_healthy (sum_ops a b) d"
    using ok laws by (cases d) (simp_all add: sum_ops_def)
qed

definition file_admin :: "FileSource admin_ops" where
  "file_admin = \<lparr>ao_stats = file_AdminCacheStats, ao_routes = file_AdminListRoutes, ao_healthy = file_Healthy,
     ao_lastError = file_AdminLastError, ao_clear = file_AdminClearCache\<rparr>"

definition cached_admin :: "'c route_lru \<Rightarrow> ('c, 'x) source_scheme admin_ops" where
  "cached_admin ops = \<lparr>ao_stats = src_AdminCacheStats ops, ao_routes = src_AdminListRoutes ops id, ao_healthy = src_healthy,
     ao_lastError = src_lastError, ao_clear = src_AdminClearCache ops\<rparr>"

lemma file_clear_empty: "fsCache (file_AdminClearCache f) = []"
proof -
  have "fsCache (foldl (\<lambda>f k. f\<lparr>fsCache := AList.delete k (fsCache f)\<rparr>) g ks) = filter (\<lambda>p. fst p \<notin> set ks) (fsCache g)"
    for ks and g :: FileSource
    by (induction ks arbitrary: g) (auto simp: AList.delete_eq intro: filter_cong)
  then show ?thesis by (simp add: file_AdminClearCache_def filter_empty_conv)
qed

lemma file_clear_rest: "fsHealthy (file_AdminClearCache f) = fsHealthy f"
proof -
  have "fsHealthy (foldl (\<lambda>f k. f\<lparr>fsCache := AList.delete k (fsCache f)\<rparr>) g ks) = fsHealthy g" for ks and g :: FileSource
    by (induction ks arbitrary: g) simp_all
  then show ?thesis by (simp add: file_AdminClearCache_def)
qed

lemma file_admin_source: "admin_source file_admin (\<lambda>_. True)"
  by unfold_locales
    (simp_all add: file_admin_def file_AdminListRoutes_def file_AdminCacheStats_def file_clear_empty file_clear_rest
      file_Healthy_def Let_def, simp_all add: file_AdminClearCache_def)

lemma cached_admin_source:
  assumes "route_lru ops cap ok"
  shows "admin_source (cached_admin ops) (src_inv cap ok)"
proof
  fix d assume inv: "src_inv cap ok d"
  have keys: "lru_keys ops (lru_purge ops (rc_cache (src_cache d))) = []" "lru_len ops (lru_purge ops (rc_cache (src_cache d))) = 0"
    using lru.purge_keys[OF route_lru.axioms[OF assms] route_lru.src_inv_ok[OF assms inv]]
      lru.purge_ok[OF route_lru.axioms[OF assms] route_lru.src_inv_ok[OF assms inv]]
    by (simp_all add: lru_len_def)
  note defs = cached_admin_def src_AdminClearCache_def src_AdminListRoutes_def src_AdminCacheStats_def rc_Clear_def
    rc_Range_def rc_Stats_def rc_Len_def Let_def
  show "ao_routes (cached_admin ops) (ao_clear (cached_admin ops) d) = []" by (simp add: defs keys)
  show "aEntries (ao_stats (cached_admin ops) (ao_clear (cached_admin ops) d)) = 0 \<and>
      aHits (ao_stats (cached_admin ops) (ao_clear (cached_admin ops) d)) = 0 \<and>
      aMisses (ao_stats (cached_admin ops) (ao_clear (cached_admin ops) d)) = 0 \<and>
      aNegativeHits (ao_stats (cached_admin ops) (ao_clear (cached_admin ops) d)) = 0" by (simp add: defs keys)
  show "ao_healthy (cached_admin ops) (ao_clear (cached_admin ops) d) = ao_healthy (cached_admin ops) d" by (simp add: defs)
qed

interpretation mixed: admin_source "sum_ops file_admin (cached_admin list_lru_ops)"
    "case_sum (\<lambda>_. True) (src_inv ll_cap ll_ok)"
  by (rule admin_source_sum[OF file_admin_source cached_admin_source[OF list_rc.route_lru_axioms]])

subsection \<open>Properties of the endpoints\<close>

lemma handleRoutes_concat:
  "handleRoutes ao g GET = Inr \<lparr>roRoutes = routes, roTotal = int (length routes)\<rparr>"
  if "routes = concat (map (\<lambda>e. map (\<lambda>ri. \<lparr>riSource = eName e, riSourceType = eType e, riKey = iKey ri,
    riUpstream = iUpstream ri, riUpstreams = iUpstreams ri, riRuleCount = iRuleCount ri\<rparr>) (ao_routes ao (eDS e))) (ListAdminEntries g))"
proof -
  have inner: "foldl (\<lambda>routes ri. routes @ [f ri]) acc ris = acc @ map f ris" for f :: "AdminRouteInfo \<Rightarrow> RouteInfo" and acc ris
    by (induction ris arbitrary: acc) simp_all
  have "foldl (\<lambda>routes e. routes @ f e) acc es = acc @ concat (map f es)"
    for f :: "'a AdminEntry \<Rightarrow> RouteInfo list" and acc es
    by (induction es arbitrary: acc) simp_all
  then show ?thesis using that by (simp add: handleRoutes_def inner Let_def)
qed

definition zero_stats :: "AdminCacheStats \<Rightarrow> bool" where
  "zero_stats cs \<longleftrightarrow> aEntries cs = 0 \<and> aHits cs = 0 \<and> aMisses cs = 0 \<and> aNegativeHits cs = 0"

lemma getCacheStats_zero:
  assumes "\<forall>e \<in> set (ListAdminEntries g). zero_stats (ao_stats ao (eDS e))" and "r = getCacheStats ao ms g"
  shows "crEntries r = 0 \<and> crHits r = 0 \<and> crMisses r = 0 \<and> crNegativeHits r = 0 \<and> crHitRate r = 0"
proof -
  have "crEntries r' = 0 \<and> crHits r' = 0 \<and> crMisses r' = 0 \<and> crNegativeHits r' = 0"
    if "r' = foldl (\<lambda>r e. add_cache_stats r (eName e) (ao_stats ao (eDS e))) r0 es"
      "\<forall>e \<in> set es. zero_stats (ao_stats ao (eDS e))"
      "crEntries r0 = 0 \<and> crHits r0 = 0 \<and> crMisses r0 = 0 \<and> crNegativeHits r0 = 0" for r0 r' :: CacheResponse and es
    using that by (induction es arbitrary: r0) (auto simp: add_cache_stats_def zero_stats_def wrap64_def)
  from this[OF refl assms(1)] show ?thesis using assms(2) by (simp add: getCacheStats_def Let_def api_hit_rate_def)
qed


text \<open>
  The health endpoint is complete. Every registered source is listed under its name with its own
  type, health, last error and number of routes, nothing else is listed, and the overall state is
  ``degraded'' exactly when some source is unhealthy.
\<close>

theorem admin_health_complete:
  assumes "reg_inv g" and "handleHealth ao ms g GET = Inr r"
  shows "(\<forall>e \<in> set (ListAdminEntries g). map_of (hrDataSources r) (eName e) =
      Some \<lparr>hiHealthy = ao_healthy ao (eDS e), hiType = eType e, hiConfigCount = int (length (ao_routes ao (eDS e))),
        hiLastError = ao_lastError ao (eDS e)\<rparr>) \<and>
    dom (map_of (hrDataSources r)) = eName ` set (ListAdminEntries g) \<and>
    hrOverall r = (if \<exists>e \<in> set (ListAdminEntries g). \<not> ao_healthy ao (eDS e) then ''degraded'' else ''healthy'')"
proof -
  let ?info = "\<lambda>e. \<lparr>hiHealthy = ao_healthy ao (eDS e), hiType = eType e, hiConfigCount = int (length (ao_routes ao (eDS e))),
        hiLastError = ao_lastError ao (eDS e)\<rparr>"
  let ?step = "\<lambda>(info, overall) e. (AList.update (eName e) (?info e) info, if \<not> ao_healthy ao (eDS e) then ''degraded'' else overall)"
  have keys: "map fst (sources g) = map eName (ListAdminEntries g)"
    using assms(1) by (auto simp: reg_inv_def ListAdminEntries_def)
  have "distinct (map fst (sources g))" using assms(1) by (simp add: reg_inv_def)
  then have names: "distinct (map eName (ListAdminEntries g))" unfolding keys .
  have "(\<forall>e \<in> set es. map_of info (eName e) = Some (?info e)) \<and> dom (map_of info) = eName ` set es \<and>
      overall = (if \<exists>e \<in> set es. \<not> ao_healthy ao (eDS e) then ''degraded'' else ''healthy'')"
    if "(info, overall) = foldl ?step ([], ''healthy'') es" "distinct (map eName es)" for info overall es
    using that
  proof (induction es arbitrary: info overall rule: rev_induct)
    case (snoc e es)
    obtain i o' where "foldl ?step ([], ''healthy'') es = (i, o')" by (cases "foldl ?step ([], ''healthy'') es")
    note st = this[symmetric]
    have "(info, overall) = ?step (i, o') e" using snoc.prems(1) unfolding foldl_append st[symmetric] by simp
    then have e: "info = AList.update (eName e) (?info e) i" "overall = (if \<not> ao_healthy ao (eDS e) then ''degraded'' else o')"
      by simp_all
    have distinct: "distinct (map eName es)" "\<forall>e' \<in> set es. eName e' \<noteq> eName e"
      using snoc.prems(2) by (simp_all, metis image_eqI)
    note ih = snoc.IH[OF st distinct(1)]
    have "\<forall>e' \<in> set (es @ [e]). map_of info (eName e') = Some (?info e')"
      using ih distinct(2) unfolding e(1) by (simp add: update_conv')
    moreover have "dom (map_of info) = eName ` set (es @ [e])"
      using ih unfolding e(1) by (simp add: update_conv')
    moreover have "overall = (if \<exists>e' \<in> set (es @ [e]). \<not> ao_healthy ao (eDS e') then ''degraded'' else ''healthy'')"
      using ih unfolding e(2) by auto
    ultimately show ?case by blast
  qed simp
  from this[OF prod.collapse names] show ?thesis
    using assms(2) by (auto simp: handleHealth_def split: prod.splits)
qed


subsection \<open>Demonstration: a file source and a cached source\<close>

definition demo_cached :: "RouteConfig option list_lru source" where
  "demo_cached = (new_source list_lru_ops 2)\<lparr>src_cache := rc_Set list_lru_ops (NewRouteCache list_lru_ops 2) ''a'' (Some empty_config)\<rparr>"

definition demo_registry :: "(FileSource + RouteConfig option list_lru source) adminRegistry" where
  "demo_registry = snd (RegisterAdminSource (snd (RegisterAdminSource globalAdminRegistry (Some (Inl demo_fs)) ''file'' ''''))
     (Some (Inr demo_cached)) ''etcd'' '''')"

abbreviation demo_admin :: "(FileSource + RouteConfig option list_lru source) admin_ops" where
  "demo_admin \<equiv> sum_ops file_admin (cached_admin list_lru_ops)"

lemma demo_registry_entries:
  "ListAdminEntries demo_registry = [\<lparr>eName = numbered ''file'' 1, eType = ''file'', eDS = Inl demo_fs\<rparr>,
     \<lparr>eName = numbered ''etcd'' 1, eType = ''etcd'', eDS = Inr demo_cached\<rparr>]"
proof -
  have "numbered ''file'' 1 \<noteq> numbered ''etcd'' (1::uint64)" using numbered_inj by blast
  then show ?thesis
    by (simp add: demo_registry_def RegisterAdminSource_def globalAdminRegistry_def source_type_def ListAdminEntries_def Let_def)
qed


lemma admin_health_complete_witness:
  "map_of (hrDataSources (projr (handleHealth demo_admin initial_metrics demo_registry GET))) (numbered ''etcd'' 1) =
     Some \<lparr>hiHealthy = False, hiType = ''etcd'', hiConfigCount = 1, hiLastError = ''''\<rparr>"
proof -
  have "reg_inv demo_registry"
  proof -
    have "numbered ''file'' 1 \<noteq> numbered ''etcd'' (1::uint64)" using numbered_inj by blast
    then show ?thesis
      by (auto simp: demo_registry_def RegisterAdminSource_def globalAdminRegistry_def source_type_def reg_inv_def Let_def
          intro!: exI[of _ "1::uint64"])
  qed
  moreover obtain r where r: "handleHealth demo_admin initial_metrics demo_registry GET = Inr r"
    by (simp add: handleHealth_def case_prod_beta)
  ultimately have "\<forall>e \<in> set (ListAdminEntries demo_registry). map_of (hrDataSources r) (eName e) =
      Some \<lparr>hiHealthy = ao_healthy demo_admin (eDS e), hiType = eType e,
        hiConfigCount = int (length (ao_routes demo_admin (eDS e))), hiLastError = ao_lastError demo_admin (eDS e)\<rparr>"
    using admin_health_complete by blast
  moreover have "length (src_AdminListRoutes list_lru_ops id demo_cached) = 1" by code_simp
  moreover have "src_healthy demo_cached = False" "src_lastError demo_cached = ''''" by (simp_all add: demo_cached_def new_source_def)
  ultimately show ?thesis unfolding r by (simp add: demo_registry_entries sum_ops_def cached_admin_def)
qed

end
