(* ===== verification/Events.thy ===== *)
theory Events
  imports Prelude
begin

section \<open>Events: events.go\<close>

text \<open>
  The in-process event bus and the emitter. A handler is a value of an arbitrary type, and
  \<open>run\<close> says what its call does to the bus and to the rest of the process; so a handler may itself
  subscribe. A map of handlers is total, with \<open>[]\<close> for an event without handlers. The facts
  shown: which handlers an event reaches, in which order, and that a disabled emitter does
  nothing.
\<close>

record RouteSelectedEvent =
  rseKey :: string
  rseUpstream :: string
  rseAlgorithm :: string
  rseDuration :: duration
  rseConfigVersion :: int
  rseRequestPath :: string
  rseRequestMethod :: string

record RouteMissedEvent =
  rmeKey :: string
  rmeReason :: string
  rmeFallbackUsed :: string
  rmeRequestPath :: string
  rmeRequestMethod :: string

record ConfigUpdatedEvent =
  cueKey :: string
  cueSourceType :: string
  cueOldVersion :: int
  cueNewVersion :: int
  cueTimestamp :: time

record ConfigDeletedEvent =
  cdeKey :: string
  cdeSourceType :: string
  cdeLastVersion :: int
  cdeTimestamp :: time

record DataSourceHealthChangedEvent =
  dheSourceType :: string
  dheHealthy :: bool
  dhePreviousHealthy :: bool
  dheError :: string
  dheTimestamp :: time

datatype event_data =
    RouteSelectedData RouteSelectedEvent
  | RouteMissedData RouteMissedEvent
  | ConfigUpdatedData ConfigUpdatedEvent
  | ConfigDeletedData ConfigDeletedEvent
  | HealthChangedData DataSourceHealthChangedEvent

definition EventRouteSelected :: string where
  "EventRouteSelected = ''dynamic_lb.route_selected''"

definition EventRouteMissed :: string where
  "EventRouteMissed = ''dynamic_lb.route_missed''"

definition EventConfigUpdated :: string where
  "EventConfigUpdated = ''dynamic_lb.config_updated''"

definition EventConfigDeleted :: string where
  "EventConfigDeleted = ''dynamic_lb.config_deleted''"

definition EventDataSourceHealthChanged :: string where
  "EventDataSourceHealthChanged = ''dynamic_lb.datasource_health_changed''"

subsection \<open>The bus\<close>

record 'h EventBus =
  handlers :: "string \<Rightarrow> 'h list"

type_synonym ('h, 's) handler_run = "'h \<Rightarrow> string \<Rightarrow> event_data \<Rightarrow> 'h EventBus \<times> 's \<Rightarrow> 'h EventBus \<times> 's"

definition NewEventBus :: "'h EventBus" where
  "NewEventBus = \<lparr>handlers = (\<lambda>_. [])\<rparr>"

definition Subscribe :: "'h EventBus \<Rightarrow> string \<Rightarrow> 'h \<Rightarrow> 'h EventBus" where
  "Subscribe eb eventName handler = eb\<lparr>handlers := (handlers eb)(eventName := handlers eb eventName @ [handler])\<rparr>"

definition Publish :: "('h, 's) handler_run \<Rightarrow> string \<Rightarrow> event_data \<Rightarrow> 'h EventBus \<times> 's \<Rightarrow> 'h EventBus \<times> 's" where
  "Publish run eventName data w =
     (let copied = handlers (fst w) eventName @ handlers (fst w) ''*''
      in foldl (\<lambda>w handler. run handler eventName data w) w copied)"

subsection \<open>The emitter\<close>

record EventEmitter =
  enabled :: bool

definition NewEventEmitter :: "bool \<Rightarrow> EventEmitter" where
  "NewEventEmitter b = \<lparr>enabled = b\<rparr>"

text \<open>Of the request the emitter reads the path and the method; \<open>now\<close> is the clock.\<close>

definition EmitRouteSelected :: "('h, 's) handler_run \<Rightarrow> EventEmitter \<Rightarrow> string \<Rightarrow> string \<Rightarrow> string \<Rightarrow> duration \<Rightarrow> int \<Rightarrow> string \<Rightarrow> string \<Rightarrow>
    'h EventBus \<times> 's \<Rightarrow> 'h EventBus \<times> 's" where
  "EmitRouteSelected run e key upstream algorithm dur configVersion path method w =
     (if \<not> enabled e then w
      else Publish run EventRouteSelected (RouteSelectedData
        \<lparr>rseKey = key, rseUpstream = upstream, rseAlgorithm = algorithm, rseDuration = dur, rseConfigVersion = configVersion,
         rseRequestPath = path, rseRequestMethod = method\<rparr>) w)"

definition EmitRouteMissed :: "('h, 's) handler_run \<Rightarrow> EventEmitter \<Rightarrow> string \<Rightarrow> string \<Rightarrow> string \<Rightarrow> string \<Rightarrow> string \<Rightarrow>
    'h EventBus \<times> 's \<Rightarrow> 'h EventBus \<times> 's" where
  "EmitRouteMissed run e key reason fallbackUsed path method w =
     (if \<not> enabled e then w
      else Publish run EventRouteMissed (RouteMissedData
        \<lparr>rmeKey = key, rmeReason = reason, rmeFallbackUsed = fallbackUsed, rmeRequestPath = path, rmeRequestMethod = method\<rparr>) w)"

definition EmitConfigUpdated :: "('h, 's) handler_run \<Rightarrow> EventEmitter \<Rightarrow> time \<Rightarrow> string \<Rightarrow> string \<Rightarrow> int \<Rightarrow> int \<Rightarrow>
    'h EventBus \<times> 's \<Rightarrow> 'h EventBus \<times> 's" where
  "EmitConfigUpdated run e now sourceType key oldVersion newVersion w =
     (if \<not> enabled e then w
      else Publish run EventConfigUpdated (ConfigUpdatedData
        \<lparr>cueKey = key, cueSourceType = sourceType, cueOldVersion = oldVersion, cueNewVersion = newVersion, cueTimestamp = now\<rparr>) w)"

definition EmitConfigDeleted :: "('h, 's) handler_run \<Rightarrow> EventEmitter \<Rightarrow> time \<Rightarrow> string \<Rightarrow> string \<Rightarrow> int \<Rightarrow>
    'h EventBus \<times> 's \<Rightarrow> 'h EventBus \<times> 's" where
  "EmitConfigDeleted run e now sourceType key lastVersion w =
     (if \<not> enabled e then w
      else Publish run EventConfigDeleted (ConfigDeletedData
        \<lparr>cdeKey = key, cdeSourceType = sourceType, cdeLastVersion = lastVersion, cdeTimestamp = now\<rparr>) w)"

definition EmitDataSourceHealthChanged :: "('h, 's) handler_run \<Rightarrow> EventEmitter \<Rightarrow> time \<Rightarrow> string \<Rightarrow> bool \<Rightarrow> bool \<Rightarrow> string \<Rightarrow>
    'h EventBus \<times> 's \<Rightarrow> 'h EventBus \<times> 's" where
  "EmitDataSourceHealthChanged run e now sourceType healthy previousHealthy errorMsg w =
     (if \<not> enabled e then w
      else Publish run EventDataSourceHealthChanged (HealthChangedData
        \<lparr>dheSourceType = sourceType, dheHealthy = healthy, dhePreviousHealthy = previousHealthy, dheError = errorMsg,
         dheTimestamp = now\<rparr>) w)"

subsection \<open>What an event reaches\<close>

text \<open>The subscriptions made so far, in their order; the handlers that an event with this name calls.\<close>

definition subscribed :: "(string \<times> 'h) list \<Rightarrow> 'h EventBus" where
  "subscribed subs = foldl (\<lambda>eb (n, h). Subscribe eb n h) NewEventBus subs"

definition reached :: "(string \<times> 'h) list \<Rightarrow> string \<Rightarrow> 'h list" where
  "reached subs name = map snd (filter (\<lambda>p. fst p = name) subs)"

lemma handlers_subscribed: "handlers (subscribed subs) name = reached subs name"
proof (induction subs rule: rev_induct)
  case (snoc p subs)
  then show ?case by (cases p) (auto simp: subscribed_def Subscribe_def reached_def)
qed (simp add: subscribed_def reached_def NewEventBus_def)

text \<open>The handlers append themselves to a log, and may subscribe (\<open>adds h\<close>) while they run.\<close>

definition logging_run :: "('h \<Rightarrow> (string \<times> 'h) list) \<Rightarrow> ('h, 'h list) handler_run" where
  "logging_run adds h name data w = (foldl (\<lambda>eb (n, g). Subscribe eb n g) (fst w) (adds h), snd w @ [h])"



text \<open>A handler that subscribed for ``*'' is called twice for an event of that name.\<close>

lemma publish_star_twice: "snd (Publish (logging_run (\<lambda>_. [])) ''*'' d (subscribed [(''*'', h)], [])) = [h, h]"
  by (simp add: Publish_def handlers_subscribed reached_def logging_run_def)

lemma disabled_emits_nothing:
  assumes "\<not> enabled e"
  shows "EmitRouteSelected run e k u a d v p m w = w" "EmitRouteMissed run e k u a p m w = w"
    "EmitConfigUpdated run e t s k v v' w = w" "EmitConfigDeleted run e t s k v w = w"
    "EmitDataSourceHealthChanged run e t s b b' u w = w"
  using assms by (simp_all add: EmitRouteSelected_def EmitRouteMissed_def EmitConfigUpdated_def EmitConfigDeleted_def
      EmitDataSourceHealthChanged_def)

end
