(* ===== verification/Caddyfile.thy ===== *)
theory Caddyfile
  imports GoStrings
begin

section \<open>Reading a Caddyfile block\<close>

text \<open>
  The part that all \<open>UnmarshalCaddyfile\<close> methods share. Caddy's dispenser is a third-party cursor
  over the tokens: its methods are a record of functions (\<open>dispenser\<close>) on a state \<open>'d\<close>. A method
  first turns its receiver \<open>'f\<close> into the error, if any, the cursor and the receiver as they are when
  it returns. The two loops are partial functions: a cursor that never runs out would keep them
  going. The locale \<open>cursor\<close> says that the cursor advances, and proves that the loops end; the locale
  \<open>block_cursor\<close> adds what the cursor gives on a block of plain lines. Both are interpreted on a list
  of lines.
\<close>

record 'd dispenser =
  dp_Next :: "'d \<Rightarrow> bool \<times> 'd"
  dp_NextArg :: "'d \<Rightarrow> bool \<times> 'd"
  dp_Nesting :: "'d \<Rightarrow> int"
  dp_NextBlock :: "int \<Rightarrow> 'd \<Rightarrow> bool \<times> 'd"
  dp_Val :: "'d \<Rightarrow> string"
  dp_RemainingArgs :: "'d \<Rightarrow> string list \<times> 'd"
  dp_NewFromNextSegment :: "'d \<Rightarrow> 'd \<times> 'd"
  dp_ArgErr :: "'d \<Rightarrow> string"
  dp_Err :: "'d \<Rightarrow> string \<Rightarrow> string"
  dp_ParseDuration :: "string \<Rightarrow> duration res"

type_synonym ('d, 'f) outcome = "string option \<times> 'd \<times> 'f"

subsection \<open>Arguments\<close>

text \<open>The patterns that the subdirectives repeat: one argument, as a string, a duration or a number.\<close>

definition string_arg :: "'d dispenser \<Rightarrow> (string \<Rightarrow> 'f \<Rightarrow> 'f) \<Rightarrow> 'd \<Rightarrow> 'f \<Rightarrow> ('d, 'f) outcome" where
  "string_arg dp put d f =
     (let (more, d1) = dp_NextArg dp d in
      if \<not> more then (Some (dp_ArgErr dp d1), d1, f) else (None, d1, put (dp_Val dp d1) f))"

definition duration_arg :: "'d dispenser \<Rightarrow> string \<Rightarrow> (duration \<Rightarrow> 'f \<Rightarrow> 'f) \<Rightarrow> 'd \<Rightarrow> 'f \<Rightarrow> ('d, 'f) outcome" where
  "duration_arg dp name put d f =
     (let (more, d1) = dp_NextArg dp d in
      if \<not> more then (Some (dp_ArgErr dp d1), d1, f)
      else case dp_ParseDuration dp (dp_Val dp d1) of
        Inl err \<Rightarrow> (Some (dp_Err dp d1 (''invalid '' @ name @ '': '' @ err)), d1, f)
      | Inr dur \<Rightarrow> (None, d1, put dur f))"

text \<open>
  \<open>fmt.Sscanf(s, "%d", &n)\<close> on an ASCII token: leading blanks, a sign, the longest run of digits; what
  follows the digits is not looked at.
\<close>

definition nat_of_digits :: "string \<Rightarrow> nat" where
  "nat_of_digits ds = foldl (\<lambda>n c. 10 * n + (of_char c - 48)) 0 ds"

definition scan_blank :: "char \<Rightarrow> bool" where
  "scan_blank c \<longleftrightarrow> c \<in> {CHR '' '', CHR 0x09, CHR 0x0B, CHR 0x0C, CHR 0x0D}"

definition Sscanf_d :: "string \<Rightarrow> int res" where
  "Sscanf_d s =
     (let s1 = dropWhile scan_blank s;
          (sign, s2) = (if s1 \<noteq> [] \<and> (hd s1 = CHR ''+'' \<or> hd s1 = CHR ''-'') then ([hd s1], tl s1) else ([], s1));
          ds = takeWhile is_digit s2; n = (if sign = ''-'' then - int (nat_of_digits ds) else int (nat_of_digits ds)) in
      if s1 \<noteq> [] \<and> hd s1 = CHR 0x0A then Inl ''unexpected newline''
      else if s2 = [] then Inl ''unexpected EOF''
      else if ds = [] then Inl ''expected integer''
      else if \<not> int_ok n then Inl (''strconv.ParseInt: parsing '' @ [CHR 0x22] @ sign @ ds @ [CHR 0x22] @ '': value out of range'')
      else Inr n)"

definition int_arg :: "'d dispenser \<Rightarrow> string \<Rightarrow> (int \<Rightarrow> 'f \<Rightarrow> 'f) \<Rightarrow> 'd \<Rightarrow> 'f \<Rightarrow> ('d, 'f) outcome" where
  "int_arg dp name put d f =
     (let (more, d1) = dp_NextArg dp d in
      if \<not> more then (Some (dp_ArgErr dp d1), d1, f)
      else case Sscanf_d (dp_Val dp d1) of
        Inl err \<Rightarrow> (Some (dp_Err dp d1 (''invalid '' @ name @ '': '' @ err)), d1, f)
      | Inr n \<Rightarrow> (None, d1, put n f))"

text \<open>One or more arguments; no argument; an argument that must be the last one.\<close>

definition list_arg :: "'d dispenser \<Rightarrow> (string list \<Rightarrow> 'f \<Rightarrow> 'f) \<Rightarrow> 'd \<Rightarrow> 'f \<Rightarrow> ('d, 'f) outcome" where
  "list_arg dp put d f =
     (let (args, d1) = dp_RemainingArgs dp d
      in (if args = [] then Some (dp_ArgErr dp d1) else None, d1, put args f))"

definition no_arg :: "'d dispenser \<Rightarrow> ('f \<Rightarrow> 'f) \<Rightarrow> 'd \<Rightarrow> 'f \<Rightarrow> ('d, 'f) outcome" where
  "no_arg dp put d f =
     (let (args, d1) = dp_RemainingArgs dp d
      in if args \<noteq> [] then (Some (dp_ArgErr dp d1), d1, f) else (None, d1, put f))"

text \<open>\<open>last_arg\<close> refuses further arguments after a subdirective that would have succeeded.\<close>

definition last_arg :: "'d dispenser \<Rightarrow> 'f \<Rightarrow> ('d, 'f) outcome \<Rightarrow> ('d, 'f) outcome" where
  "last_arg dp f out =
     (case out of
        (Some e, d1, f1) \<Rightarrow> out
      | (None, d1, f1) \<Rightarrow>
          let (args, d2) = dp_RemainingArgs dp d1
          in if args \<noteq> [] then (Some (dp_ArgErr dp d2), d2, f) else (None, d2, f1))"

text \<open>\<open>case name: ...\<close> for each subdirective of a table, in which a name occurs once, and the default.\<close>

definition unknown :: "'d dispenser \<Rightarrow> string \<Rightarrow> 'd \<Rightarrow> 'f \<Rightarrow> ('d, 'f) outcome option" where
  "unknown dp what d f = Some (Some (dp_Err dp d (what @ dp_Val dp d)), d, f)"

type_synonym ('d, 'f) directives = "(string \<times> ('d \<Rightarrow> 'f \<Rightarrow> ('d, 'f) outcome option)) list"

definition switch :: "'d dispenser \<Rightarrow> string \<Rightarrow> ('d, 'f) directives \<Rightarrow> 'd \<Rightarrow> 'f \<Rightarrow> ('d, 'f) outcome option" where
  "switch dp what table d f =
     (case map_of table (dp_Val dp d) of Some h \<Rightarrow> h d f | None \<Rightarrow> unknown dp what d f)"

definition plain :: "('d \<Rightarrow> 'f \<Rightarrow> ('d, 'f) outcome) \<Rightarrow> 'd \<Rightarrow> 'f \<Rightarrow> ('d, 'f) outcome option" where
  "plain h d f = Some (h d f)"

definition flag :: "('f \<Rightarrow> 'f) \<Rightarrow> 'd \<Rightarrow> 'f \<Rightarrow> ('d, 'f) outcome option" where
  "flag put d f = Some (None, d, put f)"

subsection \<open>The loops\<close>

text \<open>\<open>for nesting := d.Nesting(); d.NextBlock(nesting); { ... }\<close>, then \<open>for d.Next() { ... }\<close>.\<close>

partial_function (option) block_loop :: "'d dispenser \<Rightarrow> int \<Rightarrow> ('d \<Rightarrow> 'f \<Rightarrow> ('d, 'f) outcome option) \<Rightarrow> 'd \<Rightarrow> 'f \<Rightarrow>
    ('d, 'f) outcome option" where
  "block_loop dp nesting h d f =
     (let (more, d1) = dp_NextBlock dp nesting d in
      if \<not> more then Some (None, d1, f)
      else case h d1 f of
        None \<Rightarrow> None
      | Some (Some e, d2, f2) \<Rightarrow> Some (Some e, d2, f2)
      | Some (None, d2, f2) \<Rightarrow> block_loop dp nesting h d2 f2)"

definition block :: "'d dispenser \<Rightarrow> ('d \<Rightarrow> 'f \<Rightarrow> ('d, 'f) outcome option) \<Rightarrow> 'd \<Rightarrow> 'f \<Rightarrow> ('d, 'f) outcome option" where
  "block dp h d f = block_loop dp (dp_Nesting dp d) h d f"

partial_function (option) next_loop :: "'d dispenser \<Rightarrow> ('d \<Rightarrow> 'f \<Rightarrow> ('d, 'f) outcome option) \<Rightarrow> 'd \<Rightarrow> 'f \<Rightarrow>
    ('d, 'f) outcome option" where
  "next_loop dp h d f =
     (let (more, d1) = dp_Next dp d in
      if \<not> more then Some (None, d1, f)
      else case h d1 f of
        None \<Rightarrow> None
      | Some (Some e, d2, f2) \<Rightarrow> Some (Some e, d2, f2)
      | Some (None, d2, f2) \<Rightarrow> next_loop dp h d2 f2)"

text \<open>\<open>for d.NextArg() { ... append(..., d.Val()) }\<close>.\<close>

partial_function (option) arg_loop :: "'d dispenser \<Rightarrow> string list \<Rightarrow> 'd \<Rightarrow> (string list \<times> 'd) option" where
  "arg_loop dp acc d =
     (let (more, d1) = dp_NextArg dp d in
      if \<not> more then Some (acc, d1) else arg_loop dp (acc @ [dp_Val dp d1]) d1)"

declare block_loop.simps [code] next_loop.simps [code] arg_loop.simps [code]

text \<open>The body of most of the methods: every segment is a block of subdirectives.\<close>

definition unmarshal :: "'d dispenser \<Rightarrow> string \<Rightarrow> ('d, 'f) directives \<Rightarrow> 'd \<Rightarrow> 'f \<Rightarrow> ('d, 'f) outcome option" where
  "unmarshal dp what table = next_loop dp (block dp (switch dp what table))"


subsection \<open>The cursor advances\<close>

text \<open>\<open>rest\<close> counts the tokens ahead of the cursor.\<close>

locale cursor =
  fixes dp :: "'d dispenser" and rest :: "'d \<Rightarrow> nat"
  assumes next_more: "dp_Next dp d = (True, d') \<Longrightarrow> rest d' < rest d"
    and arg_more: "dp_NextArg dp d = (True, d') \<Longrightarrow> rest d' < rest d"
    and arg_rest: "rest (snd (dp_NextArg dp d)) \<le> rest d"
    and block_more: "dp_NextBlock dp n d = (True, d') \<Longrightarrow> rest d' < rest d"
    and next_rest: "rest (snd (dp_Next dp d)) \<le> rest d"
    and block_rest: "rest (snd (dp_NextBlock dp n d)) \<le> rest d"
    and args_rest: "rest (snd (dp_RemainingArgs dp d)) \<le> rest d"
    and segment_rest: "rest (snd (dp_NewFromNextSegment dp d)) \<le> rest d"
begin

text \<open>A piece of a method that returns and does not move the cursor back.\<close>

definition returns :: "('d \<Rightarrow> 'f \<Rightarrow> ('d, 'f) outcome option) \<Rightarrow> bool" where
  "returns h \<longleftrightarrow> (\<forall>d f. \<exists>e d' f'. h d f = Some (e, d', f') \<and> rest d' \<le> rest d)"

lemma returnsI:
  "(\<And>d f. \<exists>e d' f'. h d f = Some (e, d', f') \<and> rest d' \<le> rest d) \<Longrightarrow> returns h"
  by (simp add: returns_def)

lemma returnsE:
  assumes "returns h"
  obtains e d' f' where "h d f = Some (e, d', f')" "rest d' \<le> rest d"
  using assms unfolding returns_def by blast

lemma block_loop_returns:
  assumes "returns h"
  shows "\<exists>e d' f'. block_loop dp n h d f = Some (e, d', f') \<and> rest d' \<le> rest d"
proof (induction "rest d" arbitrary: d f rule: less_induct)
  case less
  obtain b d1 where nb: "dp_NextBlock dp n d = (b, d1)" by fastforce
  obtain e d2 f2 where h: "h d1 f = Some (e, d2, f2)" "rest d2 \<le> rest d1"
    using assms by (rule returnsE)
  show ?case
  proof (cases b)
    case False
    then show ?thesis using nb block_rest[of n d] by (simp add: block_loop.simps[of dp n h d])
  next
    case True
    then have "rest d1 < rest d" using nb block_more by simp
    then have less2: "rest d2 < rest d" using h(2) by simp
    obtain e3 d3 f3 where "block_loop dp n h d2 f2 = Some (e3, d3, f3)" "rest d3 \<le> rest d2"
      using less[OF less2, of f2] by blast
    then show ?thesis using h less2 nb True by (cases e) (simp_all add: block_loop.simps[of dp n h d])
  qed
qed

lemma next_loop_returns:
  assumes "returns h"
  shows "\<exists>e d' f'. next_loop dp h d f = Some (e, d', f') \<and> rest d' \<le> rest d"
proof (induction "rest d" arbitrary: d f rule: less_induct)
  case less
  obtain b d1 where nb: "dp_Next dp d = (b, d1)" by fastforce
  obtain e d2 f2 where h: "h d1 f = Some (e, d2, f2)" "rest d2 \<le> rest d1"
    using assms by (rule returnsE)
  show ?case
  proof (cases b)
    case False
    then show ?thesis using nb next_rest[of d] by (simp add: next_loop.simps[of dp h d])
  next
    case True
    then have "rest d1 < rest d" using nb next_more by simp
    then have less2: "rest d2 < rest d" using h(2) by simp
    obtain e3 d3 f3 where "next_loop dp h d2 f2 = Some (e3, d3, f3)" "rest d3 \<le> rest d2"
      using less[OF less2, of f2] by blast
    then show ?thesis using h less2 nb True by (cases e) (simp_all add: next_loop.simps[of dp h d])
  qed
qed

lemma arg_loop_returns: "\<exists>as d'. arg_loop dp acc d = Some (as, d') \<and> rest d' \<le> rest d"
proof (induction "rest d" arbitrary: d acc rule: less_induct)
  case less
  obtain b d1 where na: "dp_NextArg dp d = (b, d1)" by fastforce
  show ?case
  proof (cases b)
    case False
    then show ?thesis using na arg_rest[of d] by (simp add: arg_loop.simps[of dp acc d])
  next
    case True
    then have lt: "rest d1 < rest d" using na arg_more by simp
    obtain as d2 where "arg_loop dp (acc @ [dp_Val dp d1]) d1 = Some (as, d2)" "rest d2 \<le> rest d1"
      using less[OF lt, of "acc @ [dp_Val dp d1]"] by blast
    then show ?thesis using na True lt by (simp add: arg_loop.simps[of dp acc d])
  qed
qed

lemma returns_block: "returns h \<Longrightarrow> returns (\<lambda>d f. block dp h d (g f))"
  by (rule returnsI) (unfold block_def, rule block_loop_returns)

lemma returns_block_id: "returns h \<Longrightarrow> returns (block dp h)"
  by (rule returnsI) (unfold block_def, rule block_loop_returns)

lemma returns_switch:
  assumes "\<forall>h \<in> snd ` set table. returns h"
  shows "returns (switch dp what table)"
proof (rule returnsI)
  fix d f
  show "\<exists>e d' f'. switch dp what table d f = Some (e, d', f') \<and> rest d' \<le> rest d"
  proof (cases "map_of table (dp_Val dp d)")
    case (Some h)
    then have "h \<in> snd ` set table" by (force dest: map_of_SomeD)
    then have "returns h" using assms by blast
    then show ?thesis using Some by (auto simp: switch_def returns_def)
  qed (simp add: switch_def unknown_def)
qed

lemma returns_block_switch:
  "\<forall>h \<in> snd ` set table. returns h \<Longrightarrow> returns (\<lambda>d f. block dp (switch dp what table) d (g f))"
  by (rule returns_block[OF returns_switch])

lemma returns_string: "returns (plain (string_arg dp put))"
  using arg_rest by (intro returnsI) (simp add: plain_def string_arg_def case_prod_beta)

lemma returns_duration: "returns (plain (duration_arg dp name put))"
  using arg_rest by (intro returnsI) (simp add: plain_def duration_arg_def case_prod_beta split: sum.splits)

lemma returns_int: "returns (plain (int_arg dp name put))"
  using arg_rest by (intro returnsI) (simp add: plain_def int_arg_def case_prod_beta split: sum.splits)

lemma returns_list: "returns (plain (list_arg dp put))"
  using args_rest by (intro returnsI) (simp add: plain_def list_arg_def case_prod_beta)

lemma returns_no_arg: "returns (plain (no_arg dp put))"
  using args_rest by (intro returnsI) (simp add: plain_def no_arg_def case_prod_beta)

lemma returns_flag: "returns (flag put)"
  by (simp add: returns_def flag_def)

lemma returns_last:
  assumes "returns (plain h)"
  shows "returns (plain (\<lambda>d f. last_arg dp f (h d f)))"
proof (rule returnsI)
  fix d f
  obtain e d1 f1 where "plain h d f = Some (e, d1, f1)" and le: "rest d1 \<le> rest d"
    using assms by (rule returnsE)
  moreover have "rest (snd (dp_RemainingArgs dp d1)) \<le> rest d" using args_rest[of d1] le by simp
  ultimately show "\<exists>e d' f'. plain (\<lambda>d f. last_arg dp f (h d f)) d f = Some (e, d', f') \<and> rest d' \<le> rest d"
    by (cases e) (simp_all add: plain_def last_arg_def case_prod_beta)
qed

lemmas returns_args = returns_string returns_duration returns_int returns_list returns_no_arg returns_flag
  returns_last[OF returns_string] returns_last[OF returns_duration] returns_last[OF returns_int]

lemma unmarshal_returns:
  assumes "\<forall>h \<in> snd ` set table. returns h"
  shows "\<exists>e d' f'. unmarshal dp what table d f = Some (e, d', f') \<and> rest d' \<le> rest d"
  unfolding unmarshal_def by (rule next_loop_returns[OF returns_block_id[OF returns_switch[OF assms]]])

lemma unmarshal_total:
  assumes "\<forall>h \<in> snd ` set table. returns h"
  shows "\<exists>e d' f'. unmarshal dp what table d f = Some (e, d', f')"
proof -
  obtain e d' f' where "unmarshal dp what table d f = Some (e, d', f')" using unmarshal_returns[OF assms] by blast
  then show ?thesis by blast
qed

end

subsection \<open>A block of plain lines\<close>

text \<open>
  \<open>segment d ls\<close>: ahead of the cursor are a name and a block of the lines \<open>ls\<close>, and nothing else;
  \<open>before n d ls\<close>: \<open>NextBlock n\<close> goes to the first of the lines; \<open>inside n d as ls\<close>: the
  arguments \<open>as\<close> of the current line are left, and then the lines.
\<close>

locale block_cursor = cursor dp rest for dp :: "'d dispenser" and rest :: "'d \<Rightarrow> nat" +
  fixes segment :: "'d \<Rightarrow> string list list \<Rightarrow> bool"
    and before :: "int \<Rightarrow> 'd \<Rightarrow> string list list \<Rightarrow> bool"
    and inside :: "int \<Rightarrow> 'd \<Rightarrow> string list \<Rightarrow> string list list \<Rightarrow> bool"
  assumes segment_next: "segment d ls \<Longrightarrow> \<exists>d1. dp_Next dp d = (True, d1) \<and> before (dp_Nesting dp d1) d1 ls"
    and before_line: "before n d ((w # as) # ls) \<Longrightarrow>
      \<exists>d1. dp_NextBlock dp n d = (True, d1) \<and> dp_Val dp d1 = w \<and> inside n d1 as ls"
    and before_end: "before n d [] \<Longrightarrow> \<exists>d1. dp_NextBlock dp n d = (False, d1) \<and> \<not> fst (dp_Next dp d1)"
    and inside_arg: "inside n d (a # as) ls \<Longrightarrow>
      \<exists>d1. dp_NextArg dp d = (True, d1) \<and> dp_Val dp d1 = a \<and> inside n d1 as ls"
    and inside_args: "inside n d as ls \<Longrightarrow> \<exists>d1. dp_RemainingArgs dp d = (as, d1) \<and> inside n d1 [] ls"
    and inside_end: "inside n d [] ls \<Longrightarrow> before n d ls"
begin

text \<open>A subdirective that takes the arguments \<open>as\<close> and has the effect \<open>g\<close>.\<close>

definition takes :: "('d \<Rightarrow> 'f \<Rightarrow> ('d, 'f) outcome option) \<Rightarrow> string list \<Rightarrow> ('f \<Rightarrow> 'f) \<Rightarrow> bool" where
  "takes h as g \<longleftrightarrow> (\<forall>n d ls f. inside n d as ls \<longrightarrow> (\<exists>d1. h d f = Some (None, d1, g f) \<and> before n d1 ls))"

lemma takesI:
  "(\<And>n d ls f. inside n d as ls \<Longrightarrow> \<exists>d1. h d f = Some (None, d1, g f) \<and> before n d1 ls) \<Longrightarrow> takes h as g"
  by (simp add: takes_def)

lemma takesE:
  assumes "takes h as g" "inside n d as ls"
  obtains d1 where "h d f = Some (None, d1, g f)" "before n d1 ls"
  using assms unfolding takes_def by blast

lemma takes_string: "takes (plain (string_arg dp put)) [v] (put v)"
proof (rule takesI)
  fix n d ls f assume "inside n d [v] ls"
  from inside_arg[OF this] show "\<exists>d1. plain (string_arg dp put) d f = Some (None, d1, put v f) \<and> before n d1 ls"
    by (auto simp: plain_def string_arg_def dest: inside_end)
qed

lemma takes_duration:
  assumes "dp_ParseDuration dp v = Inr t"
  shows "takes (plain (duration_arg dp name put)) [v] (put t)"
proof (rule takesI)
  fix n d ls f assume "inside n d [v] ls"
  from inside_arg[OF this] show "\<exists>d1. plain (duration_arg dp name put) d f = Some (None, d1, put t f) \<and> before n d1 ls"
    using assms by (auto simp: plain_def duration_arg_def dest: inside_end)
qed

lemma takes_int:
  assumes "Sscanf_d v = Inr k"
  shows "takes (plain (int_arg dp name put)) [v] (put k)"
proof (rule takesI)
  fix n d ls f assume "inside n d [v] ls"
  from inside_arg[OF this] show "\<exists>d1. plain (int_arg dp name put) d f = Some (None, d1, put k f) \<and> before n d1 ls"
    using assms by (auto simp: plain_def int_arg_def dest: inside_end)
qed

lemma takes_flag: "takes (flag put) [] put"
  by (rule takesI) (auto simp: flag_def dest: inside_end)

text \<open>The lines of a block are read one after the other; each comes with its effect.\<close>

definition reads :: "('d, 'f) directives \<Rightarrow> string list \<times> ('f \<Rightarrow> 'f) \<Rightarrow> bool" where
  "reads table e \<longleftrightarrow> (\<exists>w as h. fst e = w # as \<and> map_of table w = Some h \<and> takes h as (snd e))"

lemma readsI: "map_of table w = Some h \<Longrightarrow> takes h as g \<Longrightarrow> reads table (w # as, g)"
  by (simp add: reads_def)

lemma block_lines:
  assumes "\<forall>e \<in> set es. reads table e"
    and "before n d (map fst es)"
  shows "\<exists>d'. block_loop dp n (switch dp what table) d f = Some (None, d', fold snd es f) \<and> \<not> fst (dp_Next dp d')"
  using assms
proof (induction es arbitrary: d f)
  case Nil
  then have "before n d []" by simp
  from before_end[OF this] show ?case by (auto simp: block_loop.simps[of dp n _ d])
next
  case (Cons e es)
  obtain l g where e: "e = (l, g)" by fastforce
  obtain w as h where l: "l = w # as" "map_of table w = Some h" "takes h as g"
    using Cons.prems(1) e by (auto simp: reads_def)
  obtain d1 where nb: "dp_NextBlock dp n d = (True, d1)" "dp_Val dp d1 = w" and i: "inside n d1 as (map fst es)"
    using before_line[of n d w as "map fst es"] Cons.prems(2) e l(1) by auto
  obtain d2 where h: "h d1 f = Some (None, d2, g f)" and b: "before n d2 (map fst es)"
    using takesE[OF l(3) i] .
  have "switch dp what table d1 f = Some (None, d2, g f)" using nb l h by (simp add: switch_def)
  moreover have "\<exists>d'. block_loop dp n (switch dp what table) d2 (g f) = Some (None, d', fold snd es (g f)) \<and>
      \<not> fst (dp_Next dp d')"
    using Cons.IH[OF _ b] Cons.prems(1) by simp
  ultimately show ?case using nb e by (simp add: block_loop.simps[of dp n _ d])
qed

lemma unmarshal_lines:
  assumes "\<forall>e \<in> set es. reads table e"
    and "segment d (map fst es)"
  shows "\<exists>d'. unmarshal dp what table d f = Some (None, d', fold snd es f)"
proof -
  obtain d1 where d1: "dp_Next dp d = (True, d1)" "before (dp_Nesting dp d1) d1 (map fst es)"
    using segment_next[OF assms(2)] by blast
  obtain d2 where d2: "block dp (switch dp what table) d1 f = Some (None, d2, fold snd es f)" "\<not> fst (dp_Next dp d2)"
    using block_lines[OF assms(1) d1(2)] by (auto simp: block_def)
  have "next_loop dp (block dp (switch dp what table)) d2 (fold snd es f) = Some (None, snd (dp_Next dp d2), fold snd es f)"
    using d2(2) by (simp add: next_loop.simps[of dp _ d2] case_prod_beta)
  then show ?thesis using d1 d2 by (simp add: unmarshal_def next_loop.simps[of dp _ d])
qed

end

subsection \<open>A cursor over a list of tokens\<close>

text \<open>
  The two locales on a concrete cursor: the tokens ahead, each with a mark on the first of its line, and
  the nesting. Braces open and close a block at the end of a line and on a line of their own.
\<close>

record tokens =
  tkVal :: string
  tkAhead :: "(bool \<times> string) list"
  tkNesting :: int

definition tk_Next :: "tokens \<Rightarrow> bool \<times> tokens" where
  "tk_Next d = (case tkAhead d of [] \<Rightarrow> (False, d) | (b, t) # r \<Rightarrow> (True, d\<lparr>tkVal := t, tkAhead := r\<rparr>))"

definition tk_NextArg :: "tokens \<Rightarrow> bool \<times> tokens" where
  "tk_NextArg d = (case tkAhead d of
       (False, t) # r \<Rightarrow> if t = ''{'' then (False, d) else (True, d\<lparr>tkVal := t, tkAhead := r\<rparr>)
     | _ \<Rightarrow> (False, d))"

fun tk_args :: "tokens \<Rightarrow> (bool \<times> string) list \<Rightarrow> string list \<times> tokens" where
  "tk_args d ((False, t) # r) =
     (if t = ''{'' then ([], d\<lparr>tkAhead := (False, t) # r\<rparr>)
      else let (as, d1) = tk_args (d\<lparr>tkVal := t\<rparr>) r in (t # as, d1))"
| "tk_args d r = ([], d\<lparr>tkAhead := r\<rparr>)"

definition tk_NextBlock :: "int \<Rightarrow> tokens \<Rightarrow> bool \<times> tokens" where
  "tk_NextBlock n d =
     (if tkNesting d > n then
        (case tk_Next d of
           (False, d1) \<Rightarrow> (False, d1)
         | (True, d1) \<Rightarrow>
             let d2 = (if tkVal d1 = ''}'' then d1\<lparr>tkNesting := tkNesting d1 - 1\<rparr>
                       else if tkVal d1 = ''{'' then d1\<lparr>tkNesting := tkNesting d1 + 1\<rparr> else d1)
             in (tkNesting d2 > n, d2))
      else (case tkAhead d of
          (False, t) # r \<Rightarrow>
            if t \<noteq> ''{'' then (False, d)
            else let d1 = snd (tk_Next (d\<lparr>tkVal := t, tkAhead := r\<rparr>))
                 in if tkVal d1 = ''}'' then (False, d1) else (True, d1\<lparr>tkNesting := tkNesting d1 + 1\<rparr>)
        | _ \<Rightarrow> (False, d)))"

text \<open>The tokens up to the brace that closes the block, or to the end of the line.\<close>

fun tk_segment :: "nat \<Rightarrow> (bool \<times> string) list \<Rightarrow> (bool \<times> string) list \<times> (bool \<times> string) list" where
  "tk_segment k [] = ([], [])"
| "tk_segment k ((b, t) # r) =
     (if k = 0 \<and> b then ([], (b, t) # r)
      else if t = ''}'' \<and> k \<le> 1 then ([(b, t)], r)
      else let (s, r1) = tk_segment (if t = ''{'' then Suc k else if t = ''}'' then k - 1 else k) r in ((b, t) # s, r1))"

definition tk_NewFromNextSegment :: "tokens \<Rightarrow> tokens \<times> tokens" where
  "tk_NewFromNextSegment d =
     (let (s, r) = tk_segment 0 (tkAhead d)
      in (\<lparr>tkVal = '''', tkAhead = (True, tkVal d) # s, tkNesting = 0\<rparr>, d\<lparr>tkAhead := r\<rparr>))"

definition token_dispenser :: "(string \<Rightarrow> duration res) \<Rightarrow> tokens dispenser" where
  "token_dispenser parse = \<lparr>dp_Next = tk_Next, dp_NextArg = tk_NextArg, dp_Nesting = tkNesting, dp_NextBlock = tk_NextBlock,
     dp_Val = tkVal, dp_RemainingArgs = (\<lambda>d. tk_args d (tkAhead d)), dp_NewFromNextSegment = tk_NewFromNextSegment,
     dp_ArgErr = (\<lambda>d. ''wrong argument count or unexpected line ending after '' @ tkVal d), dp_Err = (\<lambda>d m. m),
     dp_ParseDuration = parse\<rparr>"

lemma tk_Next_rest: "tk_Next d = (True, d') \<Longrightarrow> length (tkAhead d') < length (tkAhead d)"
    "length (tkAhead (snd (tk_Next d))) \<le> length (tkAhead d)"
  by (auto simp: tk_Next_def split: list.splits)

lemma tk_NextArg_rest: "tk_NextArg d = (True, d') \<Longrightarrow> length (tkAhead d') < length (tkAhead d)"
    "length (tkAhead (snd (tk_NextArg d))) \<le> length (tkAhead d)"
  by (auto simp: tk_NextArg_def split: list.splits bool.splits if_splits)

lemma tk_args_rest: "length (tkAhead (snd (tk_args d r))) \<le> length r"
  by (induction d r rule: tk_args.induct) (auto simp: case_prod_beta)

lemma tk_segment_rest: "length (snd (tk_segment k r)) \<le> length r"
  by (induction k r rule: tk_segment.induct) (auto simp: case_prod_beta Let_def)

lemma tk_NextBlock_rest: "tk_NextBlock n d = (True, d') \<Longrightarrow> length (tkAhead d') < length (tkAhead d)"
    "length (tkAhead (snd (tk_NextBlock n d))) \<le> length (tkAhead d)"
  by (auto simp: tk_NextBlock_def tk_Next_def Let_def split: list.splits bool.splits if_splits)

interpretation tk: cursor "token_dispenser parse" "\<lambda>d. length (tkAhead d)"
proof
  fix n d d'
  show "dp_Next (token_dispenser parse) d = (True, d') \<Longrightarrow> length (tkAhead d') < length (tkAhead d)"
    "dp_NextArg (token_dispenser parse) d = (True, d') \<Longrightarrow> length (tkAhead d') < length (tkAhead d)"
    "length (tkAhead (snd (dp_NextArg (token_dispenser parse) d))) \<le> length (tkAhead d)"
    "dp_NextBlock (token_dispenser parse) n d = (True, d') \<Longrightarrow> length (tkAhead d') < length (tkAhead d)"
    "length (tkAhead (snd (dp_Next (token_dispenser parse) d))) \<le> length (tkAhead d)"
    "length (tkAhead (snd (dp_NextBlock (token_dispenser parse) n d))) \<le> length (tkAhead d)"
    "length (tkAhead (snd (dp_RemainingArgs (token_dispenser parse) d))) \<le> length (tkAhead d)"
    by (simp_all add: token_dispenser_def tk_Next_rest tk_NextArg_rest tk_NextBlock_rest tk_args_rest)
  show "length (tkAhead (snd (dp_NewFromNextSegment (token_dispenser parse) d))) \<le> length (tkAhead d)"
    using tk_segment_rest[of 0 "tkAhead d"] by (simp add: token_dispenser_def tk_NewFromNextSegment_def case_prod_beta)
qed

text \<open>The tokens of a line, and of the rest of a block of lines.\<close>

definition plain_word :: "string \<Rightarrow> bool" where
  "plain_word w \<longleftrightarrow> w \<noteq> ''{'' \<and> w \<noteq> ''}''"

definition tk_words :: "string list \<Rightarrow> (bool \<times> string) list" where
  "tk_words as = map (Pair False) as"

fun tk_lines :: "string list list \<Rightarrow> (bool \<times> string) list" where
  "tk_lines [] = [(True, ''}'')]"
| "tk_lines ([] # ls) = tk_lines ls"
| "tk_lines ((w # as) # ls) = (True, w) # tk_words as @ tk_lines ls"

definition plain_lines :: "string list list \<Rightarrow> bool" where
  "plain_lines ls \<longleftrightarrow> (\<forall>l \<in> set ls. l \<noteq> [] \<and> (\<forall>w \<in> set l. plain_word w))"

definition tk_segment_is :: "tokens \<Rightarrow> string list list \<Rightarrow> bool" where
  "tk_segment_is d ls \<longleftrightarrow> (\<exists>b w. tkAhead d = (b, w) # (False, ''{'') # tk_lines ls) \<and> plain_lines ls"

definition tk_before :: "int \<Rightarrow> tokens \<Rightarrow> string list list \<Rightarrow> bool" where
  "tk_before n d ls \<longleftrightarrow> plain_lines ls \<and>
     (tkNesting d = n \<and> tkAhead d = (False, ''{'') # tk_lines ls \<or> tkNesting d = n + 1 \<and> tkAhead d = tk_lines ls)"

definition tk_inside :: "int \<Rightarrow> tokens \<Rightarrow> string list \<Rightarrow> string list list \<Rightarrow> bool" where
  "tk_inside n d as ls \<longleftrightarrow> plain_lines ls \<and> (\<forall>w \<in> set as. plain_word w) \<and> tkNesting d = n + 1 \<and>
     tkAhead d = tk_words as @ tk_lines ls"

lemma tk_lines_Cons: "l \<noteq> [] \<Longrightarrow> tk_lines (l # ls) = (True, hd l) # tk_words (tl l) @ tk_lines ls"
  by (cases l) simp_all

lemma tk_lines_shape: "\<exists>t r. tk_lines ls = (True, t) # r"
  by (induction ls rule: tk_lines.induct) simp_all

lemma tk_args_words:
  "\<forall>w \<in> set as. plain_word w \<Longrightarrow> fst (tk_args d (tk_words as @ tk_lines ls)) = as \<and>
     tkAhead (snd (tk_args d (tk_words as @ tk_lines ls))) = tk_lines ls \<and>
     tkNesting (snd (tk_args d (tk_words as @ tk_lines ls))) = tkNesting d"
proof (induction as arbitrary: d)
  case Nil
  obtain t r where "tk_lines ls = (True, t) # r" using tk_lines_shape by blast
  then show ?case by (simp add: tk_words_def)
next
  case (Cons a as)
  then show ?case by (simp add: tk_words_def plain_word_def case_prod_beta)
qed

interpretation tk: block_cursor "token_dispenser parse" "\<lambda>d. length (tkAhead d)" tk_segment_is tk_before tk_inside
proof
  fix n d ls w a as
  show "tk_segment_is d ls \<Longrightarrow> \<exists>d1. dp_Next (token_dispenser parse) d = (True, d1) \<and>
      tk_before (dp_Nesting (token_dispenser parse) d1) d1 ls"
    by (auto simp: tk_segment_is_def tk_before_def token_dispenser_def tk_Next_def)
  show "tk_before n d ((w # as) # ls) \<Longrightarrow> \<exists>d1. dp_NextBlock (token_dispenser parse) n d = (True, d1) \<and>
      dp_Val (token_dispenser parse) d1 = w \<and> tk_inside n d1 as ls"
    by (auto simp: tk_before_def tk_inside_def token_dispenser_def tk_NextBlock_def tk_Next_def plain_lines_def plain_word_def)
  show "tk_before n d [] \<Longrightarrow> \<exists>d1. dp_NextBlock (token_dispenser parse) n d = (False, d1) \<and>
      \<not> fst (dp_Next (token_dispenser parse) d1)"
    by (auto simp: tk_before_def token_dispenser_def tk_NextBlock_def tk_Next_def)
  show "tk_inside n d (a # as) ls \<Longrightarrow> \<exists>d1. dp_NextArg (token_dispenser parse) d = (True, d1) \<and>
      dp_Val (token_dispenser parse) d1 = a \<and> tk_inside n d1 as ls"
    by (auto simp: tk_inside_def token_dispenser_def tk_NextArg_def tk_words_def plain_word_def)
  show "tk_inside n d as ls \<Longrightarrow> \<exists>d1. dp_RemainingArgs (token_dispenser parse) d = (as, d1) \<and> tk_inside n d1 [] ls"
    using tk_args_words[of as d ls] by (cases "tk_args d (tkAhead d)") (auto simp: tk_inside_def token_dispenser_def tk_words_def)
  show "tk_inside n d [] ls \<Longrightarrow> tk_before n d ls"
    by (simp add: tk_inside_def tk_before_def tk_words_def)
qed

subsection \<open>Numbers\<close>

text \<open>What \<open>strconv.Itoa\<close> writes, \<open>Sscanf\<close> reads.\<close>

lemma nat_of_digits_snoc: "nat_of_digits (ds @ [c]) = 10 * nat_of_digits ds + (of_char c - 48)"
  by (simp add: nat_of_digits_def)

lemma nat_of_digits_itoa: "nat_of_digits (itoa_nat n) = n"
proof (induction n rule: itoa_nat.induct)
  case (1 n)
  show ?case
  proof (cases "n < 10")
    case True
    then show ?thesis by (simp add: itoa_nat.simps[of n] nat_of_digits_def of_char_digit)
  next
    case False
    then show ?thesis using 1 by (subst itoa_nat.simps) (simp add: nat_of_digits_snoc of_char_digit)
  qed
qed

lemma itoa_nat_ne: "itoa_nat n \<noteq> []"
  by (subst itoa_nat.simps) simp

lemma Sscanf_itoa:
  assumes "int_ok n"
  shows "Sscanf_d (itoa n) = Inr n"
proof -
  have digits: "takeWhile is_digit (itoa_nat k) = itoa_nat k" for k
    using itoa_nat_digits by (simp add: takeWhile_eq_all_conv)
  have head: "is_digit (hd (itoa_nat k))" for k
    using itoa_nat_digits[OF hd_in_set[OF itoa_nat_ne]] .
  have nd: "is_digit c \<Longrightarrow> \<not> scan_blank c \<and> c \<noteq> CHR ''+'' \<and> c \<noteq> CHR ''-'' \<and> c \<noteq> CHR 0x0A" for c
    by (auto simp: is_digit_def scan_blank_def)
  have drop: "dropWhile scan_blank (itoa_nat k) = itoa_nat k" for k
    using nd[OF head[of k]] itoa_nat_ne[of k] by (cases "itoa_nat k") auto
  show ?thesis
  proof (cases "n < 0")
    case True
    then show ?thesis using assms
      by (simp add: Sscanf_d_def itoa_def Let_def scan_blank_def digits itoa_nat_ne nat_of_digits_itoa)
  next
    case False
    then show ?thesis using assms nd[OF head[of "nat n"]]
      by (simp add: Sscanf_d_def itoa_def Let_def digits itoa_nat_ne nat_of_digits_itoa drop)
  qed
qed

text \<open>A number followed by something else is read as the number.\<close>

lemma Sscanf_trailing: "Sscanf_d ''3abc'' = Inr 3" "Sscanf_d ''5s'' = Inr 5"
  by code_simp+

end
