(* ===== verification/SourceCaddyfiles.thy ===== *)
theory SourceCaddyfiles
  imports Caddyfile Etcd Redis Consul Sql Kubernetes Http File Zookeeper
begin

section \<open>The Caddyfile blocks of the data sources\<close>

text \<open>
  \<open>UnmarshalCaddyfile\<close> of the eight data sources: for each the table of its subdirectives, in the
  order of the code, and the method. The theorems: every method returns, whatever the tokens are; and
  the block that writes down the configuration of an HTTP source parses to that configuration.
\<close>

subsection \<open>etcd\<close>

definition etcd_tls_directives :: "'d dispenser \<Rightarrow> ('d, ('c, 'x) EtcdSource_scheme) directives" where
  "etcd_tls_directives dp =
     [(''cert'', plain (string_arg dp (\<lambda>v e. e\<lparr>eTLSCertFile := v\<rparr>))),
      (''key'', plain (string_arg dp (\<lambda>v e. e\<lparr>eTLSKeyFile := v\<rparr>))),
      (''ca'', plain (string_arg dp (\<lambda>v e. e\<lparr>eTLSCAFile := v\<rparr>))),
      (''skip_verify'', flag (\<lambda>e. e\<lparr>eTLSSkipVerify := True\<rparr>))]"

definition etcd_directives :: "'d dispenser \<Rightarrow> ('d, ('c, 'x) EtcdSource_scheme) directives" where
  "etcd_directives dp =
     [(''endpoints'', plain (list_arg dp (\<lambda>vs e. e\<lparr>eEndpoints := vs\<rparr>))),
      (''prefix'', plain (string_arg dp (\<lambda>v e. e\<lparr>ePrefix := v\<rparr>))),
      (''username'', plain (string_arg dp (\<lambda>v e. e\<lparr>eUsername := v\<rparr>))),
      (''password'', plain (string_arg dp (\<lambda>v e. e\<lparr>ePassword := v\<rparr>))),
      (''dial_timeout'', plain (duration_arg dp ''dial_timeout'' (\<lambda>t e. e\<lparr>eDialTimeout := t\<rparr>))),
      (''request_timeout'', plain (duration_arg dp ''request_timeout'' (\<lambda>t e. e\<lparr>eRequestTimeout := t\<rparr>))),
      (''initial_load_timeout'', plain (duration_arg dp ''initial_load_timeout'' (\<lambda>t e. e\<lparr>eInitialLoadTimeout := t\<rparr>))),
      (''tls'', \<lambda>d e. block dp (switch dp ''unknown tls subdirective: '' (etcd_tls_directives dp)) d (e\<lparr>eTLSEnabled := True\<rparr>))]"

definition etcd_UnmarshalCaddyfile :: "'d dispenser \<Rightarrow> 'd \<Rightarrow> ('c, 'x) EtcdSource_scheme \<Rightarrow>
    ('d, ('c, 'x) EtcdSource_scheme) outcome option" where
  "etcd_UnmarshalCaddyfile dp = unmarshal dp ''unknown subdirective: '' (etcd_directives dp)"

subsection \<open>Redis\<close>

definition redis_sentinel_directives :: "'d dispenser \<Rightarrow> ('d, ('c, 'x) RedisSource_scheme) directives" where
  "redis_sentinel_directives dp =
     [(''master'', plain (string_arg dp (\<lambda>v r. r\<lparr>rSentinel := map_option (sMasterName_update (\<lambda>_. v)) (rSentinel r)\<rparr>))),
      (''addresses'', plain (list_arg dp (\<lambda>vs r. r\<lparr>rSentinel := map_option (sSentinelAddresses_update (\<lambda>_. vs)) (rSentinel r)\<rparr>))),
      (''password'', plain (string_arg dp (\<lambda>v r. r\<lparr>rSentinel := map_option (sSentinelPassword_update (\<lambda>_. v)) (rSentinel r)\<rparr>)))]"

definition redis_tls_directives :: "('d, ('c, 'x) RedisSource_scheme) directives" where
  "redis_tls_directives = [(''skip_verify'', flag (\<lambda>r. r\<lparr>rTLSSkipVerify := True\<rparr>))]"

definition redis_directives :: "'d dispenser \<Rightarrow> ('d, ('c, 'x) RedisSource_scheme) directives" where
  "redis_directives dp =
     [(''addresses'', plain (list_arg dp (\<lambda>vs r. r\<lparr>rAddresses := vs\<rparr>))),
      (''addrs'', plain (list_arg dp (\<lambda>vs r. r\<lparr>rAddresses := vs\<rparr>))),
      (''addr'', plain (string_arg dp (\<lambda>v r. r\<lparr>rAddresses := [v]\<rparr>))),
      (''password'', plain (string_arg dp (\<lambda>v r. r\<lparr>rPassword := v\<rparr>))),
      (''db'', plain (int_arg dp ''db'' (\<lambda>n r. r\<lparr>rDB := n\<rparr>))),
      (''prefix'', plain (string_arg dp (\<lambda>v r. r\<lparr>rPrefix := v\<rparr>))),
      (''dial_timeout'', plain (duration_arg dp ''dial_timeout'' (\<lambda>t r. r\<lparr>rDialTimeout := t\<rparr>))),
      (''read_timeout'', plain (duration_arg dp ''read_timeout'' (\<lambda>t r. r\<lparr>rReadTimeout := t\<rparr>))),
      (''initial_load_timeout'', plain (duration_arg dp ''initial_load_timeout'' (\<lambda>t r. r\<lparr>rInitialLoadTimeout := t\<rparr>))),
      (''cluster'', plain (no_arg dp (\<lambda>r. r\<lparr>rCluster := True\<rparr>))),
      (''sentinel'', \<lambda>d r. block dp (switch dp ''unknown sentinel subdirective: '' (redis_sentinel_directives dp)) d
         (r\<lparr>rSentinel := Some \<lparr>sMasterName = '''', sSentinelAddresses = [], sSentinelPassword = ''''\<rparr>\<rparr>)),
      (''tls'', \<lambda>d r. block dp (switch dp ''unknown tls subdirective: '' redis_tls_directives) d (r\<lparr>rTLSEnabled := True\<rparr>)),
      (''pubsub_channel'', plain (string_arg dp (\<lambda>v r. r\<lparr>rPubSubChannel := v\<rparr>))),
      (''keyspace_notify'', plain (no_arg dp (\<lambda>r. r\<lparr>rKeyspaceNotify := True\<rparr>)))]"

definition redis_UnmarshalCaddyfile :: "'d dispenser \<Rightarrow> 'd \<Rightarrow> ('c, 'x) RedisSource_scheme \<Rightarrow>
    ('d, ('c, 'x) RedisSource_scheme) outcome option" where
  "redis_UnmarshalCaddyfile dp = unmarshal dp ''unknown subdirective: '' (redis_directives dp)"

subsection \<open>Consul\<close>

definition consul_tls_directives :: "'d dispenser \<Rightarrow> ('d, ('c, 'x) ConsulSource_scheme) directives" where
  "consul_tls_directives dp =
     [(''cert'', plain (string_arg dp (\<lambda>v c. c\<lparr>cTLSCertFile := v\<rparr>))),
      (''key'', plain (string_arg dp (\<lambda>v c. c\<lparr>cTLSKeyFile := v\<rparr>))),
      (''ca'', plain (string_arg dp (\<lambda>v c. c\<lparr>cTLSCAFile := v\<rparr>))),
      (''skip_verify'', flag (\<lambda>c. c\<lparr>cTLSSkipVerify := True\<rparr>))]"

definition consul_directives :: "'d dispenser \<Rightarrow> ('d, ('c, 'x) ConsulSource_scheme) directives" where
  "consul_directives dp =
     [(''address'', plain (string_arg dp (\<lambda>v c. c\<lparr>cAddress := v\<rparr>))),
      (''addr'', plain (string_arg dp (\<lambda>v c. c\<lparr>cAddress := v\<rparr>))),
      (''scheme'', plain (string_arg dp (\<lambda>v c. c\<lparr>cScheme := v\<rparr>))),
      (''datacenter'', plain (string_arg dp (\<lambda>v c. c\<lparr>cDatacenter := v\<rparr>))),
      (''token'', plain (string_arg dp (\<lambda>v c. c\<lparr>cToken := v\<rparr>))),
      (''prefix'', plain (string_arg dp (\<lambda>v c. c\<lparr>cPrefix := v\<rparr>))),
      (''namespace'', plain (string_arg dp (\<lambda>v c. c\<lparr>cNamespace := v\<rparr>))),
      (''wait_time'', plain (duration_arg dp ''wait_time'' (\<lambda>t c. c\<lparr>cWaitTime := t\<rparr>))),
      (''initial_load_timeout'', plain (duration_arg dp ''initial_load_timeout'' (\<lambda>t c. c\<lparr>cInitialLoadTimeout := t\<rparr>))),
      (''tls'', \<lambda>d c. block dp (switch dp ''unknown tls subdirective: '' (consul_tls_directives dp)) d (c\<lparr>cTLSEnabled := True\<rparr>))]"

definition consul_UnmarshalCaddyfile :: "'d dispenser \<Rightarrow> 'd \<Rightarrow> ('c, 'x) ConsulSource_scheme \<Rightarrow>
    ('d, ('c, 'x) ConsulSource_scheme) outcome option" where
  "consul_UnmarshalCaddyfile dp = unmarshal dp ''unknown subdirective: '' (consul_directives dp)"

subsection \<open>SQL\<close>

text \<open>Each argument must be the last one of its line; the field is set only then.\<close>

definition sql_string :: "'d dispenser \<Rightarrow> (string \<Rightarrow> 'f \<Rightarrow> 'f) \<Rightarrow> 'd \<Rightarrow> 'f \<Rightarrow> ('d, 'f) outcome option" where
  "sql_string dp put = plain (\<lambda>d f. last_arg dp f (string_arg dp put d f))"

definition sql_duration :: "'d dispenser \<Rightarrow> string \<Rightarrow> (duration \<Rightarrow> 'f \<Rightarrow> 'f) \<Rightarrow> 'd \<Rightarrow> 'f \<Rightarrow> ('d, 'f) outcome option" where
  "sql_duration dp name put = plain (\<lambda>d f. last_arg dp f (duration_arg dp name put d f))"

definition sql_int :: "'d dispenser \<Rightarrow> string \<Rightarrow> (int \<Rightarrow> 'f \<Rightarrow> 'f) \<Rightarrow> 'd \<Rightarrow> 'f \<Rightarrow> ('d, 'f) outcome option" where
  "sql_int dp name put = plain (\<lambda>d f. last_arg dp f (int_arg dp name put d f))"

definition sql_directives :: "'d dispenser \<Rightarrow> ('d, ('c, 'x) SQLSource_scheme) directives" where
  "sql_directives dp =
     [(''driver'', sql_string dp (\<lambda>v s. s\<lparr>sqDriver := v\<rparr>)),
      (''dsn'', sql_string dp (\<lambda>v s. s\<lparr>sqDSN := v\<rparr>)),
      (''table'', sql_string dp (\<lambda>v s. s\<lparr>sqTable := v\<rparr>)),
      (''key_column'', sql_string dp (\<lambda>v s. s\<lparr>sqKeyColumn := v\<rparr>)),
      (''config_column'', sql_string dp (\<lambda>v s. s\<lparr>sqConfigColumn := v\<rparr>)),
      (''poll_interval'', sql_duration dp ''poll_interval'' (\<lambda>t s. s\<lparr>sqPollInterval := t\<rparr>)),
      (''initial_load_timeout'', sql_duration dp ''initial_load_timeout'' (\<lambda>t s. s\<lparr>sqInitialLoadTimeout := t\<rparr>)),
      (''refresh_mode'', sql_string dp (\<lambda>v s. s\<lparr>sqRefreshMode := v\<rparr>)),
      (''updated_at_column'', sql_string dp (\<lambda>v s. s\<lparr>sqUpdatedAtColumn := v\<rparr>)),
      (''deleted_at_column'', sql_string dp (\<lambda>v s. s\<lparr>sqDeletedAtColumn := v\<rparr>)),
      (''full_refresh_interval'', sql_duration dp ''full_refresh_interval'' (\<lambda>t s. s\<lparr>sqFullRefreshInterval := t\<rparr>)),
      (''max_open_conns'', sql_int dp ''max_open_conns'' (\<lambda>n s. s\<lparr>sqMaxOpenConns := n\<rparr>)),
      (''max_idle_conns'', sql_int dp ''max_idle_conns'' (\<lambda>n s. s\<lparr>sqMaxIdleConns := n\<rparr>)),
      (''max_cache_size'', sql_int dp ''max_cache_size'' (\<lambda>n s. s\<lparr>sqMaxCacheSize := n\<rparr>))]"

definition sql_UnmarshalCaddyfile :: "'d dispenser \<Rightarrow> 'd \<Rightarrow> ('c, 'x) SQLSource_scheme \<Rightarrow>
    ('d, ('c, 'x) SQLSource_scheme) outcome option" where
  "sql_UnmarshalCaddyfile dp = unmarshal dp ''unrecognized subdirective: '' (sql_directives dp)"

subsection \<open>Kubernetes\<close>

definition k8s_directives :: "'d dispenser \<Rightarrow> ('d, ('c, 'x) KubernetesSource_scheme) directives" where
  "k8s_directives dp =
     [(''namespace'', plain (string_arg dp (\<lambda>v k. k\<lparr>kNamespace := v\<rparr>))),
      (''configmap_name'', plain (string_arg dp (\<lambda>v k. k\<lparr>kConfigMapName := v\<rparr>))),
      (''configmap'', plain (string_arg dp (\<lambda>v k. k\<lparr>kConfigMapName := v\<rparr>))),
      (''label_selector'', plain (string_arg dp (\<lambda>v k. k\<lparr>kLabelSelector := v\<rparr>))),
      (''kubeconfig'', plain (string_arg dp (\<lambda>v k. k\<lparr>kKubeconfig := v\<rparr>))),
      (''max_cache_size'', plain (int_arg dp ''max_cache_size'' (\<lambda>n k. k\<lparr>kMaxCacheSize := n\<rparr>))),
      (''initial_load_timeout'', plain (duration_arg dp ''initial_load_timeout'' (\<lambda>t k. k\<lparr>kInitialLoadTimeout := t\<rparr>)))]"

definition k8s_UnmarshalCaddyfile :: "'d dispenser \<Rightarrow> 'd \<Rightarrow> ('c, 'x) KubernetesSource_scheme \<Rightarrow>
    ('d, ('c, 'x) KubernetesSource_scheme) outcome option" where
  "k8s_UnmarshalCaddyfile dp = unmarshal dp ''unrecognized subdirective: '' (k8s_directives dp)"

subsection \<open>ZooKeeper\<close>

definition zk_directives :: "'d dispenser \<Rightarrow> ('d, ('c, 'x) ZookeeperSource_scheme) directives" where
  "zk_directives dp =
     [(''servers'', plain (list_arg dp (\<lambda>vs z. z\<lparr>zServers := vs\<rparr>))),
      (''base_path'', plain (string_arg dp (\<lambda>v z. z\<lparr>zBasePath := v\<rparr>))),
      (''session_timeout'', plain (duration_arg dp ''session_timeout'' (\<lambda>t z. z\<lparr>zSessionTimeout := t\<rparr>))),
      (''initial_load_timeout'', plain (duration_arg dp ''initial_load_timeout'' (\<lambda>t z. z\<lparr>zInitialLoadTimeout := t\<rparr>))),
      (''max_cache_size'', plain (int_arg dp ''max_cache_size'' (\<lambda>n z. z\<lparr>zMaxCacheSize := n\<rparr>))),
      (''username'', plain (string_arg dp (\<lambda>v z. z\<lparr>zUsername := v\<rparr>))),
      (''password'', plain (string_arg dp (\<lambda>v z. z\<lparr>zPassword := v\<rparr>)))]"

definition zk_UnmarshalCaddyfile :: "'d dispenser \<Rightarrow> 'd \<Rightarrow> ('c, 'x) ZookeeperSource_scheme \<Rightarrow>
    ('d, ('c, 'x) ZookeeperSource_scheme) outcome option" where
  "zk_UnmarshalCaddyfile dp = unmarshal dp ''unrecognized subdirective: '' (zk_directives dp)"

subsection \<open>File\<close>

text \<open>\<open>watch\<close> has an optional argument.\<close>

definition file_watch_arg :: "'d dispenser \<Rightarrow> 'd \<Rightarrow> 'x FileSource_scheme \<Rightarrow> ('d, 'x FileSource_scheme) outcome" where
  "file_watch_arg dp d f =
     (let (more, d1) = dp_NextArg dp d in
      if \<not> more then (None, d1, f\<lparr>fsWatch := Some True\<rparr>)
      else if dp_Val dp d1 \<in> {''true'', ''on'', ''yes''} then (None, d1, f\<lparr>fsWatch := Some True\<rparr>)
      else if dp_Val dp d1 \<in> {''false'', ''off'', ''no''} then (None, d1, f\<lparr>fsWatch := Some False\<rparr>)
      else (Some (dp_Err dp d1 (''invalid watch value: '' @ dp_Val dp d1)), d1, f))"

definition file_directives :: "'d dispenser \<Rightarrow> ('d, 'x FileSource_scheme) directives" where
  "file_directives dp =
     [(''path'', plain (string_arg dp (\<lambda>v f. f\<lparr>fsPath := v\<rparr>))),
      (''format'', plain (string_arg dp (\<lambda>v f. f\<lparr>fsFormat := v\<rparr>))),
      (''watch'', plain (file_watch_arg dp)),
      (''poll_interval'', plain (duration_arg dp ''poll_interval'' (\<lambda>t f. f\<lparr>fsPollInterval := t\<rparr>)))]"

definition file_UnmarshalCaddyfile :: "'d dispenser \<Rightarrow> 'd \<Rightarrow> 'x FileSource_scheme \<Rightarrow>
    ('d, 'x FileSource_scheme) outcome option" where
  "file_UnmarshalCaddyfile dp = unmarshal dp ''unknown subdirective: '' (file_directives dp)"

subsection \<open>HTTP\<close>

definition http_header_args :: "'d dispenser \<Rightarrow> 'd \<Rightarrow> ('c, 'x) HTTPSource_scheme \<Rightarrow> ('d, ('c, 'x) HTTPSource_scheme) outcome" where
  "http_header_args dp d h =
     (let (args, d1) = dp_RemainingArgs dp d in
      if length args \<noteq> 2 then (Some (dp_ArgErr dp d1), d1, h)
      else (None, d1, h\<lparr>hHeaders := AList.update (args ! 0) (args ! 1) (hHeaders h)\<rparr>))"

definition http_directives :: "'d dispenser \<Rightarrow> ('d, ('c, 'x) HTTPSource_scheme) directives" where
  "http_directives dp =
     [(''url'', plain (string_arg dp (\<lambda>v h. h\<lparr>hURL := v\<rparr>))),
      (''method'', plain (string_arg dp (\<lambda>v h. h\<lparr>hMethod := v\<rparr>))),
      (''timeout'', plain (duration_arg dp ''timeout'' (\<lambda>t h. h\<lparr>hTimeout := t\<rparr>))),
      (''cache_ttl'', plain (duration_arg dp ''cache_ttl'' (\<lambda>t h. h\<lparr>hCacheTTL := t\<rparr>))),
      (''refresh_interval'', plain (duration_arg dp ''refresh_interval'' (\<lambda>t h. h\<lparr>hRefreshInterval := t\<rparr>))),
      (''header'', plain (http_header_args dp)),
      (''tls_skip_verify'', flag (\<lambda>h. h\<lparr>hTLSSkipVerify := True\<rparr>)),
      (''health_endpoint'', plain (string_arg dp (\<lambda>v h. h\<lparr>hHealthEndpoint := v\<rparr>))),
      (''retry_count'', plain (int_arg dp ''retry_count'' (\<lambda>n h. h\<lparr>hRetryCount := n\<rparr>))),
      (''retry_delay'', plain (duration_arg dp ''retry_delay'' (\<lambda>t h. h\<lparr>hRetryDelay := t\<rparr>)))]"

definition http_UnmarshalCaddyfile :: "'d dispenser \<Rightarrow> 'd \<Rightarrow> ('c, 'x) HTTPSource_scheme \<Rightarrow>
    ('d, ('c, 'x) HTTPSource_scheme) outcome option" where
  "http_UnmarshalCaddyfile dp = unmarshal dp ''unknown subdirective: '' (http_directives dp)"

subsection \<open>Every method returns\<close>

context cursor
begin

lemma returns_sql_args: "returns (sql_string dp put1)" "returns (sql_duration dp name put2)" "returns (sql_int dp name put3)"
  unfolding sql_string_def sql_duration_def sql_int_def by (rule returns_args)+

lemma returns_watch: "returns (plain (file_watch_arg dp))"
  using arg_rest by (intro returnsI) (simp add: plain_def file_watch_arg_def case_prod_beta)

lemma returns_header: "returns (plain (http_header_args dp))"
  using args_rest by (intro returnsI) (simp add: plain_def http_header_args_def case_prod_beta)

lemma inner_tables_return:
  "\<forall>h \<in> snd ` set (etcd_tls_directives dp). returns h" "\<forall>h \<in> snd ` set (redis_sentinel_directives dp). returns h"
  "\<forall>h \<in> snd ` set redis_tls_directives. returns h" "\<forall>h \<in> snd ` set (consul_tls_directives dp). returns h"
  by (simp_all add: etcd_tls_directives_def redis_sentinel_directives_def redis_tls_directives_def
      consul_tls_directives_def returns_args)

lemmas returns_inner_block = inner_tables_return[THEN returns_block_switch]

lemma nested_tables_return:
  "\<forall>h \<in> snd ` set (etcd_directives dp). returns h" "\<forall>h \<in> snd ` set (redis_directives dp). returns h"
  "\<forall>h \<in> snd ` set (consul_directives dp). returns h"
  by (simp_all add: etcd_directives_def redis_directives_def consul_directives_def returns_args returns_inner_block)

lemma plain_tables_return:
  "\<forall>h \<in> snd ` set (sql_directives dp). returns h" "\<forall>h \<in> snd ` set (k8s_directives dp). returns h"
  "\<forall>h \<in> snd ` set (zk_directives dp). returns h" "\<forall>h \<in> snd ` set (file_directives dp). returns h"
  "\<forall>h \<in> snd ` set (http_directives dp). returns h"
  by (simp_all add: sql_directives_def k8s_directives_def zk_directives_def file_directives_def http_directives_def
      returns_args returns_sql_args returns_watch returns_header)

lemmas source_tables_return = nested_tables_return plain_tables_return

lemma sources_return:
  "\<exists>e d' f'. etcd_UnmarshalCaddyfile dp d e0 = Some (e, d', f')" "\<exists>e d' f'. redis_UnmarshalCaddyfile dp d r0 = Some (e, d', f')"
  "\<exists>e d' f'. consul_UnmarshalCaddyfile dp d c0 = Some (e, d', f')" "\<exists>e d' f'. sql_UnmarshalCaddyfile dp d s0 = Some (e, d', f')"
  "\<exists>e d' f'. k8s_UnmarshalCaddyfile dp d k0 = Some (e, d', f')" "\<exists>e d' f'. zk_UnmarshalCaddyfile dp d z0 = Some (e, d', f')"
  "\<exists>e d' f'. file_UnmarshalCaddyfile dp d g0 = Some (e, d', f')" "\<exists>e d' f'. http_UnmarshalCaddyfile dp d h0 = Some (e, d', f')"
  by (unfold etcd_UnmarshalCaddyfile_def redis_UnmarshalCaddyfile_def consul_UnmarshalCaddyfile_def
      sql_UnmarshalCaddyfile_def k8s_UnmarshalCaddyfile_def zk_UnmarshalCaddyfile_def file_UnmarshalCaddyfile_def
      http_UnmarshalCaddyfile_def) (rule unmarshal_total, rule source_tables_return)+

end

subsection \<open>The block of an HTTP source\<close>

text \<open>The block that writes a configuration down; \<open>show_dur\<close> writes a duration.\<close>

definition http_lines :: "(duration \<Rightarrow> string) \<Rightarrow> ('c, 'x) HTTPSource_scheme \<Rightarrow> string list list" where
  "http_lines show_dur h =
     [[''url'', hURL h], [''method'', hMethod h], [''timeout'', show_dur (hTimeout h)],
      [''cache_ttl'', show_dur (hCacheTTL h)], [''refresh_interval'', show_dur (hRefreshInterval h)]] @
     map (\<lambda>(k, v). [''header'', k, v]) (hHeaders h) @ (if hTLSSkipVerify h then [[''tls_skip_verify'']] else []) @
     [[''health_endpoint'', hHealthEndpoint h], [''retry_count'', itoa (hRetryCount h)],
      [''retry_delay'', show_dur (hRetryDelay h)]]"

text \<open>The lines with their effects.\<close>

definition http_effects :: "(duration \<Rightarrow> string) \<Rightarrow> ('c, 'x) HTTPSource_scheme \<Rightarrow>
    (string list \<times> (('b, 'y) HTTPSource_scheme \<Rightarrow> ('b, 'y) HTTPSource_scheme)) list" where
  "http_effects show_dur h =
     [([''url'', hURL h], \<lambda>g. g\<lparr>hURL := hURL h\<rparr>), ([''method'', hMethod h], \<lambda>g. g\<lparr>hMethod := hMethod h\<rparr>),
      ([''timeout'', show_dur (hTimeout h)], \<lambda>g. g\<lparr>hTimeout := hTimeout h\<rparr>),
      ([''cache_ttl'', show_dur (hCacheTTL h)], \<lambda>g. g\<lparr>hCacheTTL := hCacheTTL h\<rparr>),
      ([''refresh_interval'', show_dur (hRefreshInterval h)], \<lambda>g. g\<lparr>hRefreshInterval := hRefreshInterval h\<rparr>)] @
     map (\<lambda>(k, v). ([''header'', k, v], \<lambda>g. g\<lparr>hHeaders := AList.update k v (hHeaders g)\<rparr>)) (hHeaders h) @
     (if hTLSSkipVerify h then [([''tls_skip_verify''], \<lambda>g. g\<lparr>hTLSSkipVerify := True\<rparr>)] else []) @
     [([''health_endpoint'', hHealthEndpoint h], \<lambda>g. g\<lparr>hHealthEndpoint := hHealthEndpoint h\<rparr>),
      ([''retry_count'', itoa (hRetryCount h)], \<lambda>g. g\<lparr>hRetryCount := hRetryCount h\<rparr>),
      ([''retry_delay'', show_dur (hRetryDelay h)], \<lambda>g. g\<lparr>hRetryDelay := hRetryDelay h\<rparr>)]"

lemma http_effects_lines: "map fst (http_effects show_dur h) = http_lines show_dur h"
  by (simp add: http_effects_def http_lines_def case_prod_beta comp_def)

lemma fold_headers:
  "distinct (map fst (us @ hs)) \<Longrightarrow> hHeaders g = us \<Longrightarrow>
   fold snd (map (\<lambda>(k, v). ([''header'', k, v], \<lambda>g. g\<lparr>hHeaders := AList.update k v (hHeaders g)\<rparr>)) hs) g =
     g\<lparr>hHeaders := us @ hs\<rparr>"
proof (induction hs arbitrary: us g)
  case Nil
  then show ?case by simp
next
  case (Cons p hs)
  obtain k v where p: "p = (k, v)" by fastforce
  have "AList.update k v us = us @ [(k, v)]" using Cons.prems(1) p by (intro alist_update_fresh) auto
  with Cons.IH[of "us @ [(k, v)]" "g\<lparr>hHeaders := us @ [(k, v)]\<rparr>"] Cons.prems p show ?case by simp
qed

lemma fold_http_effects:
  assumes "distinct (map fst (hHeaders h))" "hHeaders g = []" "\<not> hTLSSkipVerify g"
  shows "fold snd (http_effects show_dur h) g = g\<lparr>hURL := hURL h, hMethod := hMethod h, hTimeout := hTimeout h,
     hCacheTTL := hCacheTTL h, hRefreshInterval := hRefreshInterval h, hHeaders := hHeaders h,
     hTLSSkipVerify := hTLSSkipVerify h, hHealthEndpoint := hHealthEndpoint h, hRetryCount := hRetryCount h,
     hRetryDelay := hRetryDelay h\<rparr>"
  using assms by (simp add: http_effects_def fold_headers[where us = "[]", simplified])

lemma http_entries:
  "map_of (http_directives dp) ''url'' = Some (plain (string_arg dp (\<lambda>v h. h\<lparr>hURL := v\<rparr>)))"
  "map_of (http_directives dp) ''method'' = Some (plain (string_arg dp (\<lambda>v h. h\<lparr>hMethod := v\<rparr>)))"
  "map_of (http_directives dp) ''timeout'' = Some (plain (duration_arg dp ''timeout'' (\<lambda>t h. h\<lparr>hTimeout := t\<rparr>)))"
  "map_of (http_directives dp) ''cache_ttl'' = Some (plain (duration_arg dp ''cache_ttl'' (\<lambda>t h. h\<lparr>hCacheTTL := t\<rparr>)))"
  "map_of (http_directives dp) ''refresh_interval'' =
     Some (plain (duration_arg dp ''refresh_interval'' (\<lambda>t h. h\<lparr>hRefreshInterval := t\<rparr>)))"
  "map_of (http_directives dp) ''header'' = Some (plain (http_header_args dp))"
  "map_of (http_directives dp) ''tls_skip_verify'' = Some (flag (\<lambda>h. h\<lparr>hTLSSkipVerify := True\<rparr>))"
  "map_of (http_directives dp) ''health_endpoint'' = Some (plain (string_arg dp (\<lambda>v h. h\<lparr>hHealthEndpoint := v\<rparr>)))"
  "map_of (http_directives dp) ''retry_count'' = Some (plain (int_arg dp ''retry_count'' (\<lambda>n h. h\<lparr>hRetryCount := n\<rparr>)))"
  "map_of (http_directives dp) ''retry_delay'' = Some (plain (duration_arg dp ''retry_delay'' (\<lambda>t h. h\<lparr>hRetryDelay := t\<rparr>)))"
  by (simp_all add: http_directives_def)

context block_cursor
begin

lemma takes_header: "takes (plain (http_header_args dp)) [k, v] (\<lambda>g. g\<lparr>hHeaders := AList.update k v (hHeaders g)\<rparr>)"
proof (rule takesI)
  fix n d ls and f :: "('c, 'y) HTTPSource_scheme" assume "inside n d [k, v] ls"
  from inside_args[OF this] show "\<exists>d1. plain (http_header_args dp) d f =
      Some (None, d1, f\<lparr>hHeaders := AList.update k v (hHeaders f)\<rparr>) \<and> before n d1 ls"
    by (auto simp: plain_def http_header_args_def dest: inside_end)
qed

lemmas http_reads = readsI[OF http_entries(1) takes_string] readsI[OF http_entries(2) takes_string]
  readsI[OF http_entries(6) takes_header] readsI[OF http_entries(7) takes_flag] readsI[OF http_entries(8) takes_string]
  readsI[OF http_entries(3) takes_duration] readsI[OF http_entries(4) takes_duration]
  readsI[OF http_entries(5) takes_duration] readsI[OF http_entries(10) takes_duration]
  readsI[OF http_entries(9) takes_int]

lemma http_effects_read:
  assumes "\<And>t. t \<in> {hTimeout h, hCacheTTL h, hRefreshInterval h, hRetryDelay h} \<Longrightarrow> dp_ParseDuration dp (show_dur t) = Inr t"
    and "int_ok (hRetryCount h)"
  shows "\<forall>e \<in> set (http_effects show_dur h). reads (http_directives dp) e"
proof -
  have "list_all (reads (http_directives dp)) (http_effects show_dur h)"
    using assms(1) Sscanf_itoa[OF assms(2)]
    by (simp add: http_effects_def http_reads list.pred_map comp_def case_prod_beta list.pred_True)
  then show ?thesis by (simp add: list_all_iff)
qed

lemma http_block_parses:
  fixes g :: "('b, 'y) HTTPSource_scheme"
  assumes "\<And>t. t \<in> {hTimeout h, hCacheTTL h, hRefreshInterval h, hRetryDelay h} \<Longrightarrow> dp_ParseDuration dp (show_dur t) = Inr t"
    and "int_ok (hRetryCount h)" "distinct (map fst (hHeaders h))"
    and "segment d (http_lines show_dur h)" "hHeaders g = []" "\<not> hTLSSkipVerify g"
  shows "\<exists>d'. http_UnmarshalCaddyfile dp d g = Some (None, d', g\<lparr>hURL := hURL h, hMethod := hMethod h, hTimeout := hTimeout h,
     hCacheTTL := hCacheTTL h, hRefreshInterval := hRefreshInterval h, hHeaders := hHeaders h,
     hTLSSkipVerify := hTLSSkipVerify h, hHealthEndpoint := hHealthEndpoint h, hRetryCount := hRetryCount h,
     hRetryDelay := hRetryDelay h\<rparr>)"
proof -
  have "segment d (map fst (http_effects show_dur h :: (string list \<times> (('b, 'y) HTTPSource_scheme \<Rightarrow> _)) list))" using assms(4) by (simp add: http_effects_lines)
  from unmarshal_lines[OF http_effects_read[OF assms(1,2)] this, of "''unknown subdirective: ''" g] show ?thesis
    by (simp add: http_UnmarshalCaddyfile_def fold_http_effects[OF assms(3,5,6)])
qed

end

end
