(* ===== verification/PolicyCaddyfiles.thy ===== *)
theory PolicyCaddyfiles
  imports SourceCaddyfiles DynamicUpstreams GatewayJwt
begin

section \<open>The Caddyfile blocks of the policy, the upstream source and the gateway\<close>

text \<open>
  caddyfile.go: \<open>lb_policy dynamic { ... }\<close> with the block of its data source and its fallback; the
  \<open>UnmarshalCaddyfile\<close> methods of dynamic_upstreams.go and gateway_jwt.go. \<open>JSONModuleObject\<close> and the
  JSON encoder are parameters; what they are given is a \<open>module_value\<close>. The zero values of the source
  structs hold a nil cache, the parameter \<open>c0\<close>. The theorems: the parse of the policy returns whatever
  the tokens are; what the block of an upstream source can express.
\<close>

subsection \<open>The modules that a block names\<close>

datatype fallback_module =
  RandomSelection | RoundRobinSelection | LeastConnSelection | FirstSelection | IPHashSelection | URIHashSelection
| GenericMap

datatype 'c module_value =
  EtcdModule "'c EtcdSource" | RedisModule "'c RedisSource" | ConsulModule "'c ConsulSource"
| FileModule FileSource | HttpModule "'c HTTPSource" | PolicyModule fallback_module

definition createFallbackPolicy :: "string \<Rightarrow> fallback_module" where
  "createFallbackPolicy name =
     (if name = ''random'' then RandomSelection
      else if name = ''round_robin'' then RoundRobinSelection
      else if name = ''least_conn'' then LeastConnSelection
      else if name = ''first'' then FirstSelection
      else if name = ''ip_hash'' then IPHashSelection
      else if name = ''uri_hash'' then URIHashSelection
      else GenericMap)"

text \<open>\<open>&etcd.EtcdSource{}\<close> and the like.\<close>

definition zero_etcd :: "'c RouteCache \<Rightarrow> 'c EtcdSource" where
  "zero_etcd c0 = \<lparr>src_cache = c0, src_healthy = False, src_lastError = '''', src_adminName = '''', src_parseErrors = 0,
     eEndpoints = [], ePrefix = '''', eUsername = '''', ePassword = '''', eDialTimeout = 0, eRequestTimeout = 0,
     eInitialLoadTimeout = 0, eMaxCacheSize = 0, eTLSEnabled = False, eTLSCertFile = '''', eTLSKeyFile = '''',
     eTLSCAFile = '''', eTLSSkipVerify = False\<rparr>"

definition zero_redis :: "'c RouteCache \<Rightarrow> 'c RedisSource" where
  "zero_redis c0 = \<lparr>src_cache = c0, src_healthy = False, src_lastError = '''', src_adminName = '''', src_parseErrors = 0,
     rAddresses = [], rPassword = '''', rDB = 0, rPrefix = '''', rDialTimeout = 0, rReadTimeout = 0, rCluster = False,
     rSentinel = None, rTLSEnabled = False, rTLSSkipVerify = False, rPubSubChannel = '''', rKeyspaceNotify = False,
     rMaxCacheSize = 0, rInitialLoadTimeout = 0\<rparr>"

definition zero_consul :: "'c RouteCache \<Rightarrow> 'c ConsulSource" where
  "zero_consul c0 = \<lparr>src_cache = c0, src_healthy = False, src_lastError = '''', src_adminName = '''', src_parseErrors = 0,
     cAddress = '''', cScheme = '''', cDatacenter = '''', cToken = '''', cPrefix = '''', cNamespace = '''', cWaitTime = 0,
     cTLSEnabled = False, cTLSCertFile = '''', cTLSKeyFile = '''', cTLSCAFile = '''', cTLSSkipVerify = False,
     cMaxCacheSize = 0, cInitialLoadTimeout = 0, cLastIndex = 0\<rparr>"

definition zero_file :: FileSource where
  "zero_file = \<lparr>fsPath = '''', fsFormat = '''', fsWatch = None, fsPollInterval = 0, fsCache = [], fsHealthy = False,
     fsIsDir = False, fsAdminName = '''', fsLastError = '''', fsHits = 0, fsMisses = 0, fsParseErrors = 0\<rparr>"

definition zero_http :: "'c RouteCache \<Rightarrow> 'c HTTPSource" where
  "zero_http c0 = \<lparr>src_cache = c0, src_healthy = False, src_lastError = '''', src_adminName = '''', src_parseErrors = 0,
     hURL = '''', hHeaders = [], hMethod = '''', hTimeout = 0, hCacheTTL = 0, hRefreshInterval = 0, hRetryCount = 0,
     hRetryDelay = 0, hTLSSkipVerify = False, hHealthEndpoint = '''', hMaxCacheSize = 0\<rparr>"

subsection \<open>The policy\<close>

text \<open>A subdirective that hands its segment to the method of a source and stores the module.\<close>

definition source_segment :: "'d dispenser \<Rightarrow> ('d \<Rightarrow> 's \<Rightarrow> ('d, 's) outcome option) \<Rightarrow> 's \<Rightarrow> ('s \<Rightarrow> string) \<Rightarrow>
    'd \<Rightarrow> ('rc, 'sc, 't) DynamicSelection \<Rightarrow> ('d, ('rc, 'sc, 't) DynamicSelection) outcome option" where
  "source_segment dp parse zero raw d s =
     (let (segment, d1) = dp_NewFromNextSegment dp d
      in case parse segment zero of
           None \<Rightarrow> None
         | Some (Some e, _, _) \<Rightarrow> Some (Some e, d1, s)
         | Some (None, _, v) \<Rightarrow> Some (None, d1, s\<lparr>DataSourceRaw := Some (raw v)\<rparr>))"

definition policy_directives :: "'d dispenser \<Rightarrow> ('c module_value \<Rightarrow> string \<Rightarrow> string \<Rightarrow> string) \<Rightarrow> 'c RouteCache \<Rightarrow>
    ('d, ('rc, 'sc, 't) DynamicSelection) directives" where
  "policy_directives dp JSONModuleObject c0 =
     [(''key'', plain (string_arg dp (\<lambda>v s. s\<lparr>dKey := v\<rparr>))),
      (''instance_key'', plain (string_arg dp (\<lambda>v s. s\<lparr>dInstanceKey := v\<rparr>))),
      (''version_key'', plain (string_arg dp (\<lambda>v s. s\<lparr>dVersionKey := v\<rparr>))),
      (''metrics_cardinality'', plain (string_arg dp (\<lambda>v s. s\<lparr>MetricsCardinality := v\<rparr>))),
      (''etcd'', source_segment dp (etcd_UnmarshalCaddyfile dp) (zero_etcd c0)
         (\<lambda>v. JSONModuleObject (EtcdModule v) ''source'' ''etcd'')),
      (''redis'', source_segment dp (redis_UnmarshalCaddyfile dp) (zero_redis c0)
         (\<lambda>v. JSONModuleObject (RedisModule v) ''source'' ''redis'')),
      (''consul'', source_segment dp (consul_UnmarshalCaddyfile dp) (zero_consul c0)
         (\<lambda>v. JSONModuleObject (ConsulModule v) ''source'' ''consul'')),
      (''file'', source_segment dp (file_UnmarshalCaddyfile dp) zero_file
         (\<lambda>v. JSONModuleObject (FileModule v) ''source'' ''file'')),
      (''http'', source_segment dp (http_UnmarshalCaddyfile dp) (zero_http c0)
         (\<lambda>v. JSONModuleObject (HttpModule v) ''source'' ''http'')),
      (''fallback'', plain (string_arg dp (\<lambda>v s.
         s\<lparr>FallbackRaw := Some (JSONModuleObject (PolicyModule (createFallbackPolicy v)) ''policy'' v)\<rparr>)))]"

definition policy_UnmarshalCaddyfile :: "'d dispenser \<Rightarrow> ('c module_value \<Rightarrow> string \<Rightarrow> string \<Rightarrow> string) \<Rightarrow> 'c RouteCache \<Rightarrow>
    'd \<Rightarrow> ('rc, 'sc, 't) DynamicSelection \<Rightarrow> ('d, ('rc, 'sc, 't) DynamicSelection) outcome option" where
  "policy_UnmarshalCaddyfile dp JSONModuleObject c0 =
     unmarshal dp ''unrecognized subdirective: '' (policy_directives dp JSONModuleObject c0)"

text \<open>\<open>s0\<close> is the zero value of \<open>DynamicSelection\<close>; the result is the value of the class \<open>lb_policy\<close>.\<close>

definition parseCaddyfile :: "'d dispenser \<Rightarrow> ('c module_value \<Rightarrow> string \<Rightarrow> string \<Rightarrow> string) \<Rightarrow> 'c RouteCache \<Rightarrow>
    ('rc, 'sc, 't) DynamicSelection \<Rightarrow> 'd \<Rightarrow> (string \<times> ('rc, 'sc, 't) DynamicSelection) res option" where
  "parseCaddyfile dp JSONModuleObject c0 s0 d =
     (let (more, d1) = dp_Next dp d in
      if \<not> more then Some (Inl (dp_ArgErr dp d1))
      else case policy_UnmarshalCaddyfile dp JSONModuleObject c0 d1 s0 of
        None \<Rightarrow> None
      | Some (Some e, _, _) \<Rightarrow> Some (Inl e)
      | Some (None, _, s) \<Rightarrow> Some (Inr (''lb_policy'', s)))"

subsection \<open>The upstream source\<close>

text \<open>
  The block of the data source is not given to the source's own method: each line becomes an entry of
  a map, a string, or a list of strings for \<open>endpoints\<close> and \<open>addresses\<close>, and the map is encoded.
\<close>

datatype option_value = OptStr string | OptList "string list"

type_synonym source_options = "(string \<times> option_value) list"

definition source_option :: "'d dispenser \<Rightarrow> 'd \<Rightarrow> source_options \<Rightarrow> ('d, source_options) outcome option" where
  "source_option dp d m =
     (let key = dp_Val dp d; (more, d1) = dp_NextArg dp d in
      if \<not> more then Some (Some (dp_ArgErr dp d1), d1, m)
      else let value = dp_Val dp d1 in
        if key = ''endpoints'' \<or> key = ''addresses'' then
          case arg_loop dp [value] d1 of
            None \<Rightarrow> None
          | Some (values, d2) \<Rightarrow> Some (None, d2, AList.update key (OptList values) m)
        else Some (None, d1, AList.update key (OptStr value) m))"

definition source_options_block :: "'d dispenser \<Rightarrow> (source_options \<Rightarrow> string res) \<Rightarrow> 'd \<Rightarrow> 's DynamicUpstreams \<Rightarrow>
    ('d, 's DynamicUpstreams) outcome option" where
  "source_options_block dp marshal d u =
     (case block dp (source_option dp) d [(''source'', OptStr (dp_Val dp d))] of
        None \<Rightarrow> None
      | Some (Some e, d1, _) \<Rightarrow> Some (Some e, d1, u)
      | Some (None, d1, m) \<Rightarrow>
          (case marshal m of
             Inl err \<Rightarrow> Some (Some (dp_Err dp d1 (''encoding data source config: '' @ err)), d1, u)
           | Inr raw \<Rightarrow> Some (None, d1, u\<lparr>duDataSourceRaw := Some raw\<rparr>)))"

text \<open>The error of \<open>refresh_interval\<close> has a wording of its own.\<close>

definition du_directives :: "'d dispenser \<Rightarrow> (source_options \<Rightarrow> string res) \<Rightarrow> ('d, 's DynamicUpstreams) directives" where
  "du_directives dp marshal =
     [(''key'', plain (string_arg dp (\<lambda>v u. u\<lparr>duKey := v\<rparr>))),
      (''default_key'', plain (string_arg dp (\<lambda>v u. u\<lparr>duDefaultKey := v\<rparr>))),
      (''refresh_interval'', plain (duration_arg dp ''duration'' (\<lambda>t u. u\<lparr>duRefreshInterval := t\<rparr>))),
      (''etcd'', source_options_block dp marshal),
      (''redis'', source_options_block dp marshal),
      (''consul'', source_options_block dp marshal),
      (''file'', source_options_block dp marshal),
      (''http'', source_options_block dp marshal)]"

text \<open>\<open>disp.NextBlock(0)\<close>: the level is 0, not the nesting of the dispenser.\<close>

definition du_UnmarshalCaddyfile :: "'d dispenser \<Rightarrow> (source_options \<Rightarrow> string res) \<Rightarrow> 'd \<Rightarrow> 's DynamicUpstreams \<Rightarrow>
    ('d, 's DynamicUpstreams) outcome option" where
  "du_UnmarshalCaddyfile dp marshal =
     next_loop dp (block_loop dp 0 (switch dp ''unknown subdirective: '' (du_directives dp marshal)))"

subsection \<open>The gateway\<close>

definition algs_args :: "'d dispenser \<Rightarrow> 'd \<Rightarrow> GatewayJWT \<Rightarrow> ('d, GatewayJWT) outcome option" where
  "algs_args dp d g =
     (case arg_loop dp [] d of
        None \<Rightarrow> None
      | Some (algs, d1) \<Rightarrow>
          Some (if algs = [] then Some (dp_ArgErr dp d1) else None, d1, g\<lparr>AllowedAlgs := algs\<rparr>))"

definition cert_args :: "'d dispenser \<Rightarrow> 'd \<Rightarrow> GatewayJWT \<Rightarrow> ('d, GatewayJWT) outcome option" where
  "cert_args dp d g =
     (case arg_loop dp (AllowedClientCertSHA256 g) d of
        None \<Rightarrow> None
      | Some (certs, d1) \<Rightarrow>
          Some (if certs = [] then Some (dp_ArgErr dp d1) else None, d1, g\<lparr>AllowedClientCertSHA256 := certs\<rparr>))"

definition gateway_directives :: "'d dispenser \<Rightarrow> ('d, GatewayJWT) directives" where
  "gateway_directives dp =
     [(''jwks_url'', plain (string_arg dp (\<lambda>v g. g\<lparr>JWKSURL := v\<rparr>))),
      (''issuer'', plain (string_arg dp (\<lambda>v g. g\<lparr>Issuer := v\<rparr>))),
      (''audience'', plain (string_arg dp (\<lambda>v g. g\<lparr>Audiences := Audiences g @ [v]\<rparr>))),
      (''allowed_algs'', algs_args dp),
      (''leeway'', plain (duration_arg dp ''leeway'' (\<lambda>t g. g\<lparr>Leeway := t\<rparr>))),
      (''token_header'', plain (string_arg dp (\<lambda>v g. g\<lparr>TokenHeader := v\<rparr>))),
      (''token_prefix'', plain (string_arg dp (\<lambda>v g. g\<lparr>TokenPrefix := v\<rparr>))),
      (''optional'', flag (\<lambda>g. g\<lparr>Optional := True\<rparr>)),
      (''trusted_source'', plain (string_arg dp (\<lambda>v g. g\<lparr>TrustedSources := TrustedSources g @ [v]\<rparr>))),
      (''require_mtls'', flag (\<lambda>g. g\<lparr>RequireMTLS := True\<rparr>)),
      (''allowed_client_cert_sha256'', cert_args dp),
      (''claim_tenant'', plain (string_arg dp (\<lambda>v g. g\<lparr>ClaimTenant := v\<rparr>))),
      (''claim_service'', plain (string_arg dp (\<lambda>v g. g\<lparr>ClaimService := v\<rparr>))),
      (''claim_version'', plain (string_arg dp (\<lambda>v g. g\<lparr>ClaimVersion := v\<rparr>))),
      (''claim_instance'', plain (string_arg dp (\<lambda>v g. g\<lparr>ClaimInstance := v\<rparr>))),
      (''version_key_template'', plain (string_arg dp (\<lambda>v g. g\<lparr>VersionKeyTemplate := v\<rparr>))),
      (''instance_key_template'', plain (string_arg dp (\<lambda>v g. g\<lparr>InstanceKeyTemplate := v\<rparr>))),
      (''key_prefix'', plain (string_arg dp (\<lambda>v g. g\<lparr>KeyPrefix := v\<rparr>))),
      (''jwks_refresh_interval'', plain (duration_arg dp ''jwks_refresh_interval'' (\<lambda>t g. g\<lparr>JWKSRefreshInterval := t\<rparr>))),
      (''jwks_timeout'', plain (duration_arg dp ''jwks_timeout'' (\<lambda>t g. g\<lparr>JWKSTimeout := t\<rparr>))),
      (''allow_insecure_jwks'', flag (\<lambda>g. g\<lparr>AllowInsecureJWKS := True\<rparr>))]"

definition gateway_UnmarshalCaddyfile :: "'d dispenser \<Rightarrow> 'd \<Rightarrow> GatewayJWT \<Rightarrow> ('d, GatewayJWT) outcome option" where
  "gateway_UnmarshalCaddyfile dp = unmarshal dp ''unrecognized subdirective: '' (gateway_directives dp)"

text \<open>\<open>g0\<close> is the zero value of \<open>GatewayJWT\<close>.\<close>

definition parseGatewayJWTDirective :: "'d dispenser \<Rightarrow> GatewayJWT \<Rightarrow> 'd \<Rightarrow> GatewayJWT res option" where
  "parseGatewayJWTDirective dp g0 d =
     (case gateway_UnmarshalCaddyfile dp d g0 of
        None \<Rightarrow> None
      | Some (Some e, _, _) \<Rightarrow> Some (Inl e)
      | Some (None, _, g) \<Rightarrow> Some (Inr g))"

subsection \<open>Every method returns\<close>

context cursor
begin

lemma returns_source_segment:
  assumes "\<And>segment. \<exists>e d' v. parse segment zero = Some (e, d', v)"
  shows "returns (source_segment dp parse zero raw)"
proof (rule returnsI)
  fix d f
  obtain segment d1 where n: "dp_NewFromNextSegment dp d = (segment, d1)" by fastforce
  obtain e d' v where p: "parse segment zero = Some (e, d', v)" using assms by blast
  have "rest d1 \<le> rest d" using segment_rest[of d] n by simp
  then show "\<exists>e d' f'. source_segment dp parse zero raw d f = Some (e, d', f') \<and> rest d' \<le> rest d"
    using n p by (cases e) (simp_all add: source_segment_def)
qed

lemma policy_table_returns: "\<forall>h \<in> snd ` set (policy_directives dp j c0). returns h"
  by (simp add: policy_directives_def returns_args returns_source_segment sources_return)

lemma returns_source_option: "returns (source_option dp)"
proof (rule returnsI)
  fix d m
  obtain b d1 where n: "dp_NextArg dp d = (b, d1)" by fastforce
  have le: "rest d1 \<le> rest d" using arg_rest[of d] n by simp
  obtain vs d2 where a: "arg_loop dp [dp_Val dp d1] d1 = Some (vs, d2)" "rest d2 \<le> rest d1"
    using arg_loop_returns by blast
  then have "rest d2 \<le> rest d" using le by simp
  then show "\<exists>e d' f'. source_option dp d m = Some (e, d', f') \<and> rest d' \<le> rest d"
    using n le a(1) by (simp add: source_option_def Let_def)
qed

lemma returns_options_block: "returns (source_options_block dp marshal)"
proof (rule returnsI)
  fix d u
  obtain e d1 m where b: "block dp (source_option dp) d [(''source'', OptStr (dp_Val dp d))] = Some (e, d1, m)" "rest d1 \<le> rest d"
    using returns_block_id[OF returns_source_option] by (rule returnsE)
  then show "\<exists>e d' f'. source_options_block dp marshal d u = Some (e, d', f') \<and> rest d' \<le> rest d"
    by (cases e) (auto simp: source_options_block_def split: sum.splits)
qed

lemma du_table_returns: "\<forall>h \<in> snd ` set (du_directives dp marshal). returns h"
  by (simp add: du_directives_def returns_args returns_options_block)

lemma returns_arg_loops: "returns (algs_args dp)" "returns (cert_args dp)"
proof -
  show "returns (algs_args dp)"
  proof (rule returnsI)
    fix d and f :: GatewayJWT
    obtain vs d1 where "arg_loop dp [] d = Some (vs, d1)" "rest d1 \<le> rest d" using arg_loop_returns by blast
    then show "\<exists>e d' f'. algs_args dp d f = Some (e, d', f') \<and> rest d' \<le> rest d" by (simp add: algs_args_def)
  qed
  show "returns (cert_args dp)"
  proof (rule returnsI)
    fix d and f :: GatewayJWT
    obtain vs d1 where "arg_loop dp (AllowedClientCertSHA256 f) d = Some (vs, d1)" "rest d1 \<le> rest d"
      using arg_loop_returns by blast
    then show "\<exists>e d' f'. cert_args dp d f = Some (e, d', f') \<and> rest d' \<le> rest d" by (simp add: cert_args_def)
  qed
qed

lemma gateway_table_returns: "\<forall>h \<in> snd ` set (gateway_directives dp). returns h"
  by (simp add: gateway_directives_def returns_args returns_arg_loops)

lemma policy_returns: "\<exists>e d' s'. policy_UnmarshalCaddyfile dp j c0 d s = Some (e, d', s')"
  unfolding policy_UnmarshalCaddyfile_def by (rule unmarshal_total[OF policy_table_returns])

lemma gateway_returns: "\<exists>e d' g'. gateway_UnmarshalCaddyfile dp d g = Some (e, d', g')"
  unfolding gateway_UnmarshalCaddyfile_def by (rule unmarshal_total[OF gateway_table_returns])

lemma upstreams_returns: "\<exists>e d' u'. du_UnmarshalCaddyfile dp marshal d u = Some (e, d', u')"
proof -
  have "returns (block_loop dp 0 (switch dp ''unknown subdirective: '' (du_directives dp marshal)))"
    by (rule returnsI) (rule block_loop_returns[OF returns_switch[OF du_table_returns]])
  from next_loop_returns[OF this, of d u] show ?thesis unfolding du_UnmarshalCaddyfile_def by blast
qed

end

text \<open>
  C28: every Caddyfile parser of the program returns, whatever the tokens are. The directive of the
  policy with the block of its data source, the blocks of the sources that it does not name, the
  upstream source and the gateway end with a configuration or an error, also on blocks that are not
  closed. The cursor is third-party code; the hypothesis is that its methods move it forwards.
\<close>

theorem caddyfile_parsers_return:
  assumes "cursor dp rest"
  shows "(\<exists>r. parseCaddyfile dp j c0 s0 d = Some r) \<and> (\<exists>r. parseGatewayJWTDirective dp g0 d = Some r) \<and>
    (\<exists>r. du_UnmarshalCaddyfile dp marshal d u0 = Some r) \<and> (\<exists>r. sql_UnmarshalCaddyfile dp d q0 = Some r) \<and>
    (\<exists>r. k8s_UnmarshalCaddyfile dp d k0 = Some r) \<and> (\<exists>r. zk_UnmarshalCaddyfile dp d z0 = Some r)"
proof -
  obtain b d1 where n: "dp_Next dp d = (b, d1)" by fastforce
  obtain e1 d2 s1 where p: "policy_UnmarshalCaddyfile dp j c0 d1 s0 = Some (e1, d2, s1)"
    using cursor.policy_returns[OF assms] by blast
  obtain e2 d3 g1 where g: "gateway_UnmarshalCaddyfile dp d g0 = Some (e2, d3, g1)"
    using cursor.gateway_returns[OF assms] by blast
  have "\<exists>r. parseCaddyfile dp j c0 s0 d = Some r"
    using n p by (cases e1) (simp_all add: parseCaddyfile_def)
  moreover have "\<exists>r. parseGatewayJWTDirective dp g0 d = Some r"
    using g by (cases e2) (simp_all add: parseGatewayJWTDirective_def)
  moreover have "\<exists>r. du_UnmarshalCaddyfile dp marshal d u0 = Some r" using cursor.upstreams_returns[OF assms] by blast
  moreover have "\<exists>r. sql_UnmarshalCaddyfile dp d q0 = Some r" using cursor.sources_return(4)[OF assms] by blast
  moreover have "\<exists>r. k8s_UnmarshalCaddyfile dp d k0 = Some r" using cursor.sources_return(5)[OF assms] by blast
  moreover have "\<exists>r. zk_UnmarshalCaddyfile dp d z0 = Some r" using cursor.sources_return(6)[OF assms] by blast
  ultimately show ?thesis by blast
qed

text \<open>A file that ends in the middle of a block.\<close>

definition demo_tokens :: tokens where
  "demo_tokens = \<lparr>tkVal = '''', tkAhead = [(True, ''lb_policy''), (False, ''{''), (True, ''optional''), (True, ''etcd''),
     (False, ''{''), (True, ''tls''), (False, ''{''), (True, ''cert'')], tkNesting = 0\<rparr>"

theorem caddyfile_parsers_return_witness:
  "(\<exists>r. parseCaddyfile (token_dispenser Sscanf_d) (\<lambda>_ _ _. ''{}'') (NewRouteCache list_lru_ops 2) demo_policy demo_tokens = Some r) \<and>
   (\<exists>r. parseGatewayJWTDirective (token_dispenser Sscanf_d) demo_gateway demo_tokens = Some r)"
  using caddyfile_parsers_return[OF tk.cursor_axioms, of Sscanf_d "\<lambda>_ _ _. ''{}''" "NewRouteCache list_lru_ops 2" demo_policy
    demo_tokens demo_gateway] by blast


definition demo_http_block :: "unit HTTPSource" where
  "demo_http_block = (zero_http \<lparr>rc_cache = (), rc_maxSize = 0, rc_negativeTTL = 0, rc_hits = 0, rc_misses = 0,
     rc_negativeHits = 0, rc_negative = Map.empty\<rparr>)\<lparr>hURL := ''http://cfg'', hMethod := ''GET'', hTimeout := 5,
     hHeaders := [(''X-A'', ''1''), (''X-B'', ''2'')], hRetryCount := -3, hTLSSkipVerify := True\<rparr>"

definition demo_http_tokens :: tokens where
  "demo_http_tokens = \<lparr>tkVal = '''', tkAhead = (True, ''http'') # (False, ''{'') # tk_lines (http_lines itoa demo_http_block),
     tkNesting = 0\<rparr>"


text \<open>
  What the upstream source makes of options that are not strings: \<open>db 0\<close> becomes the string \<open>"0"\<close>,
  for which the decoder of the Redis source, whose field is a number, has no use, and a flag without an
  argument is refused.
\<close>

definition demo_du_tokens :: "(bool \<times> string) list \<Rightarrow> tokens" where
  "demo_du_tokens line = \<lparr>tkVal = '''', tkAhead = [(True, ''dynamic''), (False, ''{''), (True, ''redis''), (False, ''{'')] @ line @
     [(True, ''}''), (True, ''}'')], tkNesting = 0\<rparr>"

definition show_options :: "source_options \<Rightarrow> string res" where
  "show_options m = Inr (concat (map (\<lambda>(k, v). k @ ''='' @ (case v of OptStr s \<Rightarrow> CHR ''s'' # s | OptList l \<Rightarrow> concat l) @ '';'') m))"

lemma du_number_is_a_string:
  "map_option (\<lambda>(e, d, u). (e, duDataSourceRaw u)) (du_UnmarshalCaddyfile (token_dispenser Sscanf_d) show_options
     (demo_du_tokens [(True, ''db''), (False, ''0'')]) demo_upstreams) = Some (None, Some ''source=sredis;db=s0;'')"
  by code_simp

lemma du_flag_refused:
  "map_option fst (du_UnmarshalCaddyfile (token_dispenser Sscanf_d) show_options
     (demo_du_tokens [(True, ''cluster'')]) demo_upstreams) =
     Some (Some ''wrong argument count or unexpected line ending after cluster'')"
  by code_simp

text \<open>The block of the policy knows five of the sources; the blocks of the others are refused.\<close>

lemma policy_block_refuses_sources:
  assumes "dp_Val dp d \<in> {''sql'', ''kubernetes'', ''zookeeper'', ''composite''}"
  shows "switch dp ''unrecognized subdirective: '' (policy_directives dp j c0) d s =
    Some (Some (dp_Err dp d (''unrecognized subdirective: '' @ dp_Val dp d)), d, s)"
  using assms by (auto simp: switch_def policy_directives_def unknown_def)

end
