(* ===== verification/Spec2Isabelle.thy ===== *)
theory Spec2Isabelle
  imports DynamicUpstreams Composite Etcd Redis Consul Sql Kubernetes Http File Zookeeper GatewayJwt AdminApi Events
    PolicyCaddyfiles
begin

text \<open>
  A model of caddy-dynamic-routing, a plugin of the Caddy web server that chooses the upstream of a
  request by a route that an external data source holds.

  The parts and how they interact. The selection policy (plugin.go) extracts a routing key from the
  request (extractor/), asks its data source for the route of that key (datasource/), lets the rule
  matcher evaluate the rules of the route and pick an address with a load-balancing algorithm
  (matcher/), and looks the address up in Caddy's pool; when any of this fails, the fallback
  policy decides. Metrics (metrics/) and the statistics of the Admin API (admin.go) count the
  outcome. A data source keeps a bounded cache (datasource/cache/), fills it at start, and keeps it up
  to date with a watch, a poll, messages or file events, depending on the backend; a composite
  source combines several. The upstream source (dynamic_upstreams.go) turns routes into the pool itself.
  The JWT gateway (gateway_jwt.go) authenticates a request in front of all this and sets the variables
  of which a routing key is made. The Admin API lists the registered sources and policies.

  The theories, in the order of their imports, and what they model.
  \<^item> \<open>Prelude\<close>: Go's integers (\<open>int\<close> as HOL \<open>int\<close> with \<open>wrap64\<close>, unsigned ones as words), times,
    \<open>(value, error)\<close> results as sums, and lemmas on lists and maps. \<open>GoStrings\<close>: the functions of
    \<open>strings\<close>, \<open>fmt\<close> and \<open>strconv\<close> that the code uses, on byte strings.
  \<^item> \<open>RouteTypes\<close> (datasource/types.go, admin_helpers.go): routes, rules, their parser, expiry.
  \<^item> \<open>Lru\<close>: the contract of the third-party LRU library as the locale \<open>lru\<close>, interpreted on lists.
    \<open>RouteCache\<close> (datasource/cache/cache.go): positive and negative entries with counters; it refines a
    bounded map.
  \<^item> \<open>Selector\<close>, \<open>RoundRobin\<close>, \<open>HashRing\<close>, \<open>SelectResult\<close> (matcher/selector.go): the algorithms and the
    ring; distribution, smoothness, minimal disruption, and that an upstream of the list is picked.
  \<^item> \<open>RuleMatcher\<close> (matcher/matcher.go): conditions, priorities, the caches of expressions and selectors.
  \<^item> \<open>Extractor\<close> (extractor/extractor.go): placeholders and shortcuts.
  \<^item> \<open>AdminRegistry\<close> (datasource/admin_registry.go, selection_admin_registry.go), \<open>Metrics\<close>
    (metrics/metrics.go), \<open>RouteStats\<close> and \<open>AdminApi\<close> (admin.go), \<open>Events\<close> (events.go).
  \<^item> \<open>DataSource\<close> (datasource/datasource.go, admin.go): the interface as the locale \<open>data_source\<close>, which
    every source below interprets, and the code that the backends share; \<open>SoftSource\<close> adds what four of
    them share further. \<open>Etcd\<close>, \<open>Redis\<close>, \<open>Consul\<close>, \<open>Sql\<close>, \<open>Kubernetes\<close>, \<open>Http\<close>, \<open>Zookeeper\<close>, \<open>File\<close>: the
    sources, each with its provisioning, load, lookup, updates, validation and admin methods.
    \<open>Composite\<close> (datasource/composite/composite.go): the strategies over any sources.
  \<^item> \<open>DynamicSelection\<close> (plugin.go) and \<open>DynamicUpstreams\<close> (dynamic_upstreams.go): the two entry points,
    over any data source.
  \<^item> \<open>NetIp\<close>, \<open>Jwks\<close>, \<open>GatewayJwt\<close> (gateway_jwt.go): address prefixes, the key set cache with its
    base64 and JWK parser, and the middleware.
  \<^item> \<open>Caddyfile\<close>: the loops and argument patterns of the \<open>UnmarshalCaddyfile\<close> methods over a cursor, and
    the locales \<open>cursor\<close> and \<open>block_cursor\<close> for what they rely on. \<open>SourceCaddyfiles\<close>: the methods of the
    eight sources. \<open>PolicyCaddyfiles\<close> (caddyfile.go and the methods of dynamic_upstreams.go and
    gateway_jwt.go): the directives. Every parser returns; the block of an HTTP source round-trips.

  How state and operations correspond to the code. A struct is a record with the fields of the struct,
  a method is a definition of the same name (with the prefix of its file where two files have the
  same method), which takes the record and returns it updated. Process-wide state (metrics, registries,
  statistics, event bus) is taken and returned. The fields of a source that all backends have are in
  \<open>source\<close>, which the record of a backend extends. A Go map is a partial function where only lookups and
  updates matter, and an association list in the order of iteration where the code ranges over it; facts
  about such loops hold for every order. A goroutine is a sequence of events that a function folds
  over, or, where several of them interleave (ZooKeeper's watchers, a source that is read while it is
  watched), a step relation whose histories are inductive predicates.

  What is a parameter. Code that is not in the repository: the LRU library, the JSON and YAML decoders,
  the JWT parser, the regular expression engine, the clients of the backends and their servers, Caddy's
  replacer, dispenser, module loader, fallback policies and \<open>Upstream.Available\<close>, the random source, the clock
  (\<open>ts n\<close> is its \<open>n\<close>-th reading in a call), the unstable sort (any function that returns a sorted
  permutation), and the file system. What the code relies on is a locale or a named hypothesis, and each is
  shown to be satisfiable on a concrete instance.

  What the groups of lemmas show. For the selection: every path of \<open>Select\<close>, that what it returns is an
  available upstream of the pool or the choice of the fallback policy, and that each request is counted
  once; that the highest matching priority wins; what each algorithm picks and how often. For
  the sources: that the lookups implement the interface, and that the cache agrees with the backend
  after any history of updates and lookups (etcd, Redis, Kubernetes, SQL after a poll, ZooKeeper once
  its watchers are idle, files after the last event), or what exactly a reload leaves. For the
  composite: that parallel lookups equal sequential ones, and what merging gives. For the gateway: that
  it fails closed and that keys separate tenants as far as they do. For the rest: round trips of the
  registries, exact counts, bounds of ages and retries. Some lemmas show where the code falls short of
  its comments; each is a demonstration on the definitions above.

  Bounds and fuel. No definition needs fuel: loops over lists are structural, the others
  (\<open>sort.Search\<close>, the retries of the HTTP source, the scanner of placeholders) have a measure, and the loops
  over Caddy's cursor are partial functions that are shown to return for a cursor that advances. A loop that
  only ends when its context is cancelled is a function of the finite list of events up to that time.

  Not modelled. \<open>UnmarshalJSON\<close> and \<open>MarshalJSON\<close>, which only call the JSON library; the encoding of responses; logging; latency histograms;
  tracing/tracing.go, which only calls OpenTelemetry; the examples. Mutexes and \<open>singleflight\<close>: an
  operation that holds its lock is one step, and callers that share one run share its result. A lookup
  of a source is one step too, so the window between its read of the backend and its write to the cache
  is not explored. Connection set-up inside the clients, timeouts other than as errors that a
  parameter returns, and the delays themselves, except for the sleeps of the retry loops.
\<close>

end
